(* ===== verification/Prelude.thy ===== *)
theory Prelude
  imports Main "HOL-Library.Word" "HOL-Library.AList" "HOL-Library.Monad_Syntax"
begin

text \<open>
  Shared vocabulary of the development: the machine integers and byte strings of the
  program, text as its UTF-8 bytes, little-endian encodings, the bounded queue discipline
  (push to the back, pop from the front while too long) and the concurrent maps. Each group
  comes with the lemmas the component theories use.
\<close>

unbundle bit_operations_syntax

section \<open>Types\<close>

text \<open>
  Rust integers are words of their width; a signed one is read with \<open>sint\<close>. \<open>usize\<close>
  is a \<open>nat\<close> where it is the length of a collection in memory. A \<open>String\<close> is the
  list of its UTF-8 bytes, written as \<open>string\<close> so that ASCII literals read as in the
  source; \<open>as_bytes\<close> is the source's method of the same name.
\<close>

type_synonym u8 = "8 word"
type_synonym u16 = "16 word"
type_synonym u32 = "32 word"
type_synonym u64 = "64 word"
type_synonym i32 = "32 word"
type_synonym i64 = "64 word"
type_synonym bytes = "u8 list"

named_theorems wire_simps \<open>evaluation of byte encodings\<close>
named_theorems dm_simps \<open>laws of the keyed maps\<close>

section \<open>Text as bytes\<close>

definition byte_of_char :: "char \<Rightarrow> u8" where
  "byte_of_char c = of_char c"

definition char_of_byte :: "u8 \<Rightarrow> char" where
  "char_of_byte b = char_of (unat b)"

definition as_bytes :: "string \<Rightarrow> bytes" where
  "as_bytes s = map byte_of_char s"

definition text_of_bytes :: "bytes \<Rightarrow> string" where
  "text_of_bytes bs = map char_of_byte bs"

lemma unat_byte_of_char: "unat (byte_of_char c) = of_char c"
proof -
  have "(of_char c :: nat) < 256" by simp
  moreover have "byte_of_char c = of_nat (of_char c)"
    by (simp add: byte_of_char_def of_nat_of_char)
  ultimately show ?thesis by (simp add: unat_of_nat take_bit_nat_eq_self)
qed

lemma char_of_byte_of_char [simp]: "char_of_byte (byte_of_char c) = c"
  by (simp add: char_of_byte_def unat_byte_of_char)

lemma unat_u8_less: "unat (b :: u8) < 256"
  by (rule order_less_le_trans [OF unsigned_less]) simp

lemma byte_of_char_of_byte [simp]: "byte_of_char (char_of_byte b) = b"
proof -
  have "unat b < 256" by (rule unat_u8_less)
  then have "unat (byte_of_char (char_of_byte b)) = unat b"
    by (simp add: unat_byte_of_char char_of_byte_def)
  then show ?thesis by (simp only: word_unat_eq_iff)
qed

lemma byte_of_char_inj [simp]: "byte_of_char c = byte_of_char d \<longleftrightarrow> c = d"
  by (metis char_of_byte_of_char)

lemma text_of_bytes_as_bytes [simp]: "text_of_bytes (as_bytes s) = s"
  by (induction s) (simp_all add: text_of_bytes_def as_bytes_def)

lemma as_bytes_text_of_bytes [simp]: "as_bytes (text_of_bytes b) = b"
  by (induction b) (simp_all add: text_of_bytes_def as_bytes_def)

lemma as_bytes_inj [simp]: "as_bytes s = as_bytes t \<longleftrightarrow> s = t"
  by (metis text_of_bytes_as_bytes)

lemma length_as_bytes [simp]: "length (as_bytes s) = length s"
  by (simp add: as_bytes_def)

lemma as_bytes_append [simp]: "as_bytes (s @ t) = as_bytes s @ as_bytes t"
  by (simp add: as_bytes_def)

lemma as_bytes_Nil [simp]: "as_bytes [] = []"
  by (simp add: as_bytes_def)

lemma as_bytes_Cons: "as_bytes (c # s) = byte_of_char c # as_bytes s"
  by (simp add: as_bytes_def)

section \<open>Little-endian encodings\<close>

text \<open>Rust's \<open>to_le_bytes\<close> for an integer of \<open>n\<close> bytes.\<close>

definition le_bytes :: "nat \<Rightarrow> 'a::len word \<Rightarrow> bytes" where
  "le_bytes n w = map (\<lambda>i. ucast (drop_bit (8 * i) w)) [0..<n]"

abbreviation le16 :: "u16 \<Rightarrow> bytes" where "le16 \<equiv> le_bytes 2"
abbreviation le64 :: "u64 \<Rightarrow> bytes" where "le64 \<equiv> le_bytes 8"

lemma length_le_bytes [simp]: "length (le_bytes n w) = n"
  by (simp add: le_bytes_def)

lemma le_bytes_nth:
  "i < n \<Longrightarrow> le_bytes n w ! i = ucast (drop_bit (8 * i) w)"
  by (simp add: le_bytes_def)

lemma le_bytes_inj:
  fixes v w :: "'a::len word"
  assumes "le_bytes n v = le_bytes n w" and "LENGTH('a) \<le> 8 * n"
  shows "v = w"
proof (rule bit_word_eqI)
  fix k assume k: "k < LENGTH('a)"
  define i where "i = k div 8"
  have i: "i < n" using k assms(2) by (simp add: i_def) 
  have "le_bytes n v ! i = le_bytes n w ! i" using assms(1) by simp
  then have "(ucast (drop_bit (8 * i) v) :: u8) = ucast (drop_bit (8 * i) w)"
    using i by (simp add: le_bytes_nth)
  then have "bit (ucast (drop_bit (8 * i) v) :: u8) (k mod 8) = bit (ucast (drop_bit (8 * i) w) :: u8) (k mod 8)"
    by simp
  then show "bit v k = bit w k"
    by (simp add: bit_simps i_def)
qed

section \<open>Bounded queues\<close>

text \<open>
  The program bounds a \<open>VecDeque\<close> by popping the front while it is longer than its
  capacity. What is left is the last \<open>n\<close> elements.
\<close>

definition lastn :: "nat \<Rightarrow> 'a list \<Rightarrow> 'a list" where
  "lastn n xs = drop (length xs - n) xs"

fun pop_while_over :: "nat \<Rightarrow> 'a list \<Rightarrow> 'a list" where
  "pop_while_over n [] = []"
| "pop_while_over n (x # xs) = (if n < length (x # xs) then pop_while_over n xs else x # xs)"

lemma pop_while_over_lastn: "pop_while_over n xs = lastn n xs"
  by (induction xs) (auto simp: lastn_def Suc_diff_le)

lemma length_lastn [simp]: "length (lastn n xs) = min n (length xs)"
  by (auto simp: lastn_def)

lemma set_lastn_subset: "set (lastn n xs) \<subseteq> set xs"
  by (auto simp: lastn_def dest: in_set_dropD)

lemma lastn_all: "length xs \<le> n \<Longrightarrow> lastn n xs = xs"
  by (simp add: lastn_def)

lemma lastn_Nil [simp]: "lastn n [] = []"
  by (simp add: lastn_def)

lemma lastn_lastn_append: "lastn n (lastn n xs @ ys) = lastn n (xs @ ys)"
  by (cases "length xs \<le> n") (auto simp: lastn_def add.commute)

lemma lastn_recent: "length ys < n \<Longrightarrow> x \<in> set (lastn n (xs @ x # ys))"
  by (auto simp: lastn_def)

lemma lastn_map: "lastn n (map f xs) = map f (lastn n xs)"
  by (simp add: lastn_def drop_map)

lemma distinct_lastn: "distinct xs \<Longrightarrow> distinct (lastn n xs)"
  by (simp add: lastn_def)

text \<open>
  The contract of a bounded queue: pushing appends and keeps the newest \<open>bound\<close>
  elements. Its clients need what a run of pushes leaves and for how long an element stays.
\<close>

locale bounded_queue =
  fixes push :: "'x \<Rightarrow> 's \<Rightarrow> 's"
    and items :: "'s \<Rightarrow> 'x list"
    and bound :: "'s \<Rightarrow> nat"
  assumes items_push: "items (push x s) = lastn (bound s) (items s @ [x])"
    and bound_push: "bound (push x s) = bound s"
begin

lemma bound_pushes: "bound (fold push xs s) = bound s"
  by (induction xs arbitrary: s) (simp_all add: bound_push)

lemma items_pushes:
  "length (items s) \<le> bound s \<Longrightarrow> items (fold push xs s) = lastn (bound s) (items s @ xs)"
proof (induction xs arbitrary: s)
  case Nil
  then show ?case by (simp add: lastn_all)
next
  case (Cons x xs)
  have "length (items (push x s)) \<le> bound (push x s)"
    by (simp add: items_push bound_push)
  from Cons.IH [OF this] show ?case
    by (simp add: items_push bound_push lastn_lastn_append)
qed

lemma items_bounded: "length (items s) \<le> bound s \<Longrightarrow> length (items (fold push xs s)) \<le> bound s"
  by (simp add: items_pushes)

lemma retained:
  assumes "length (items s) \<le> bound s" and "length xs < bound s"
  shows "x \<in> set (items (fold push xs (push x s)))"
proof -
  have "items (fold push (x # xs) s) = lastn (bound s) (items s @ x # xs)"
    by (rule items_pushes [OF assms(1)])
  moreover have "x \<in> set (lastn (bound s) (items s @ x # xs))"
    using assms(2) by (rule lastn_recent)
  ultimately show ?thesis by simp
qed

end

section \<open>Keyed maps\<close>

text \<open>
  \<open>DashMap\<close> and \<open>HashMap\<close>: an association list with distinct keys. A stored key
  keeps its place and a new one goes to the end, so iteration order is one of the orders the
  real map may have; the theorems speak of the stored set.
\<close>

type_synonym ('k, 'v) dashmap = "('k \<times> 'v) list"

definition dm_get :: "'k \<Rightarrow> ('k, 'v) dashmap \<Rightarrow> 'v option" where
  "dm_get k m = map_of m k"

definition dm_insert :: "'k \<Rightarrow> 'v \<Rightarrow> ('k, 'v) dashmap \<Rightarrow> ('k, 'v) dashmap" where
  "dm_insert k v m = AList.update k v m"

definition dm_remove :: "'k \<Rightarrow> ('k, 'v) dashmap \<Rightarrow> ('k, 'v) dashmap" where
  "dm_remove k m = AList.delete k m"

definition dm_contains :: "'k \<Rightarrow> ('k, 'v) dashmap \<Rightarrow> bool" where
  "dm_contains k m \<longleftrightarrow> dm_get k m \<noteq> None"

definition dm_values :: "('k, 'v) dashmap \<Rightarrow> 'v list" where
  "dm_values m = map snd m"

definition dm_ok :: "('k, 'v) dashmap \<Rightarrow> bool" where
  "dm_ok m \<longleftrightarrow> distinct (map fst m)"

section \<open>The interface of a keyed map\<close>

text \<open>
  What the executor relies on wherever it keeps a \<open>DashMap\<close>: a lookup sees the latest
  insert or removal of its key and no other, and iterating visits exactly the stored values.
\<close>

locale keyed_map =
  fixes get :: "'k \<Rightarrow> 'm \<Rightarrow> 'v option"
    and ins :: "'k \<Rightarrow> 'v \<Rightarrow> 'm \<Rightarrow> 'm"
    and del :: "'k \<Rightarrow> 'm \<Rightarrow> 'm"
    and vals :: "'m \<Rightarrow> 'v list"
    and ok :: "'m \<Rightarrow> bool"
  assumes get_ins: "get k' (ins k v m) = (if k' = k then Some v else get k' m)"
    and get_del: "get k' (del k m) = (if k' = k then None else get k' m)"
    and ok_ins: "ok m \<Longrightarrow> ok (ins k v m)"
    and ok_del: "ok m \<Longrightarrow> ok (del k m)"
    and vals_get: "ok m \<Longrightarrow> v \<in> set (vals m) \<longleftrightarrow> (\<exists>k. get k m = Some v)"
begin

lemma get_ins_same: "get k (ins k v m) = Some v"
  by (simp add: get_ins)

lemma get_ins_other: "k' \<noteq> k \<Longrightarrow> get k' (ins k v m) = get k' m"
  by (simp add: get_ins)

lemma vals_ins:
  assumes "ok m"
  shows "set (vals (ins k v m)) = insert v {w. \<exists>k'. k' \<noteq> k \<and> get k' m = Some w}"
  using vals_get [OF ok_ins [OF assms]] by (auto simp: get_ins split: if_splits)

lemma vals_ins_fresh:
  assumes "ok m" and "get k m = None"
  shows "set (vals (ins k v m)) = insert v (set (vals m))"
proof -
  have "{w. \<exists>k'. k' \<noteq> k \<and> get k' m = Some w} = set (vals m)"
    using vals_get [OF assms(1)] assms(2) by (auto, metis option.distinct(1))
  then show ?thesis by (simp add: vals_ins [OF assms(1)])
qed

lemma vals_del:
  assumes "ok m"
  shows "set (vals (del k m)) = {w. \<exists>k'. k' \<noteq> k \<and> get k' m = Some w}"
  using vals_get [OF ok_del [OF assms]] by (auto simp: get_del split: if_splits)

end

interpretation dm: keyed_map dm_get dm_insert dm_remove dm_values dm_ok
proof
  fix k k' :: 'a and v :: 'b and m :: "('a, 'b) dashmap"
  show "dm_get k' (dm_insert k v m) = (if k' = k then Some v else dm_get k' m)"
    by (simp add: dm_get_def dm_insert_def update_conv')
  show "dm_get k' (dm_remove k m) = (if k' = k then None else dm_get k' m)"
    by (simp add: dm_get_def dm_remove_def delete_conv')
  show "dm_ok m \<Longrightarrow> dm_ok (dm_insert k v m)"
    by (simp add: dm_ok_def dm_insert_def distinct_update)
  show "dm_ok m \<Longrightarrow> dm_ok (dm_remove k m)"
    by (simp add: dm_ok_def dm_remove_def distinct_delete)
  show "dm_ok m \<Longrightarrow> v \<in> set (dm_values m) \<longleftrightarrow> (\<exists>k. dm_get k m = Some v)"
    by (force simp: dm_ok_def dm_values_def dm_get_def dest: map_of_SomeD)
qed

lemmas dm_laws [dm_simps] = dm.get_ins dm.get_del dm.ok_ins dm.ok_del

lemma dm_ok_Nil [simp]: "dm_ok []"
  by (simp add: dm_ok_def)

lemma dm_get_Nil [simp]: "dm_get k [] = None"
  by (simp add: dm_get_def)

lemma dm_values_Nil [simp]: "dm_values [] = []"
  by (simp add: dm_values_def)

end
