(* ===== verification/Message_Store.thy ===== *)
theory Message_Store
  imports Prelude
begin

text \<open>
  The node's bounded log of fabric messages, \<open>MessageStore\<close> of
  \<open>src/executor/mod.rs\<close>: sequence numbers, the bounded deque of messages, and the
  bounded window of recently seen \<open>(pubkey ++ id)\<close> keys that drops repeated deliveries.
  The second half states the log it promises (\<open>spec_log\<close>) and proves that the store
  refines it.
\<close>

section \<open>The store\<close>

record stored_message =
  sm_seq :: u64
  sm_from_name :: string
  sm_from_pubkey :: bytes
  sm_text :: bytes
  sm_epoch_s :: u64

record message_store =
  ms_next_seq :: u64
  ms_msgs :: "stored_message list"
  ms_cap :: nat
  ms_seen :: "bytes set"
  ms_seen_order :: "bytes list"
  ms_seen_cap :: nat

definition ms_new :: "nat \<Rightarrow> message_store" where
  "ms_new cap = \<lparr>ms_next_seq = 1, ms_msgs = [], ms_cap = cap, ms_seen = {},
     ms_seen_order = [], ms_seen_cap = 4096\<rparr>"

text \<open>The eviction loop: pop the oldest key while the window is too long.\<close>

fun ms_evict_seen :: "nat \<Rightarrow> bytes set \<Rightarrow> bytes list \<Rightarrow> bytes set \<times> bytes list" where
  "ms_evict_seen n seen [] = (seen, [])"
| "ms_evict_seen n seen (old # order) =
     (if n < length (old # order) then ms_evict_seen n (seen - {old}) order
      else (seen, old # order))"

definition ms_remember :: "bytes \<Rightarrow> message_store \<Rightarrow> message_store" where
  "ms_remember key s =
     (let (seen', order') = ms_evict_seen (ms_seen_cap s) (insert key (ms_seen s))
                              (ms_seen_order s @ [key])
      in s\<lparr>ms_seen := seen', ms_seen_order := order'\<rparr>)"

definition ms_append :: "stored_message \<Rightarrow> message_store \<Rightarrow> message_store" where
  "ms_append m s = s\<lparr>ms_msgs := pop_while_over (ms_cap s) (ms_msgs s @ [m])\<rparr>"

definition dedup_key :: "bytes \<Rightarrow> bytes \<Rightarrow> bytes" where
  "dedup_key from_pubkey id_bytes = from_pubkey @ id_bytes"

definition ms_push ::
  "string \<Rightarrow> bytes \<Rightarrow> bytes \<Rightarrow> bytes \<Rightarrow> u64 \<Rightarrow> message_store \<Rightarrow> message_store \<times> u64" where
  "ms_push from_name from_pubkey id_bytes text epoch_s s =
     (let key = dedup_key from_pubkey id_bytes in
      if id_bytes \<noteq> [] \<and> key \<in> ms_seen s then (s, 0)
      else
        let s1 = (if id_bytes \<noteq> [] then ms_remember key s else s);
            seq = ms_next_seq s1;
            s2 = s1\<lparr>ms_next_seq := seq + 1\<rparr>;
            m = \<lparr>sm_seq = seq, sm_from_name = from_name, sm_from_pubkey = from_pubkey,
                 sm_text = text, sm_epoch_s = epoch_s\<rparr>
        in (ms_append m s2, seq))"

definition ms_read_after :: "u64 \<Rightarrow> message_store \<Rightarrow> stored_message list" where
  "ms_read_after after_seq s = filter (\<lambda>m. after_seq < sm_seq m) (ms_msgs s)"

section \<open>Both deques are bounded queues\<close>

lemma ms_evict_seen_order: "snd (ms_evict_seen n S ks) = lastn n ks"
  by (induction n S ks rule: ms_evict_seen.induct) (auto simp: lastn_def Suc_diff_le)

lemma ms_evict_seen_set:
  "distinct ks \<Longrightarrow> fst (ms_evict_seen n (set ks) ks) = set (lastn n ks)"
proof (induction n "set ks" ks rule: ms_evict_seen.induct)
  case (2 n old order)
  then have "set (old # order) - {old} = set order" by auto
  with 2 show ?case by (auto simp: lastn_def Suc_diff_le)
qed simp

interpretation msgs_q: bounded_queue ms_append ms_msgs ms_cap
  by unfold_locales (simp_all add: ms_append_def pop_while_over_lastn)

interpretation seen_q: bounded_queue ms_remember ms_seen_order ms_seen_cap
  by unfold_locales
    (simp_all add: ms_remember_def case_prod_unfold ms_evict_seen_order)

lemma ms_remember_fields [simp]:
  "ms_next_seq (ms_remember k s) = ms_next_seq s"
  "ms_msgs (ms_remember k s) = ms_msgs s"
  "ms_cap (ms_remember k s) = ms_cap s"
  "ms_seen_cap (ms_remember k s) = ms_seen_cap s"
  by (simp_all add: ms_remember_def case_prod_unfold Let_def)

lemma ms_append_fields [simp]:
  "ms_next_seq (ms_append m s) = ms_next_seq s"
  "ms_seen (ms_append m s) = ms_seen s"
  "ms_seen_order (ms_append m s) = ms_seen_order s"
  "ms_cap (ms_append m s) = ms_cap s"
  "ms_seen_cap (ms_append m s) = ms_seen_cap s"
  by (simp_all add: ms_append_def)

section \<open>The promised log\<close>

text \<open>
  A push request, the unbounded log with every dedup key ever accepted, and what a push does
  to it: drop the request when its key is among the last \<open>w\<close> accepted keys, otherwise
  append it under the next number.
\<close>

record push_req =
  pr_name :: string
  pr_pubkey :: bytes
  pr_id :: bytes
  pr_text :: bytes
  pr_epoch :: u64

record spec_log =
  sl_log :: "stored_message list"
  sl_keys :: "bytes list"

definition sl_init :: spec_log where
  "sl_init = \<lparr>sl_log = [], sl_keys = []\<rparr>"

definition sl_message :: "nat \<Rightarrow> push_req \<Rightarrow> stored_message" where
  "sl_message n r = \<lparr>sm_seq = of_nat n, sm_from_name = pr_name r, sm_from_pubkey = pr_pubkey r,
     sm_text = pr_text r, sm_epoch_s = pr_epoch r\<rparr>"

definition sl_push :: "nat \<Rightarrow> push_req \<Rightarrow> spec_log \<Rightarrow> spec_log \<times> u64" where
  "sl_push w r a =
     (if pr_id r \<noteq> [] \<and> pr_pubkey r @ pr_id r \<in> set (lastn w (sl_keys a)) then (a, 0)
      else (\<lparr>sl_log = sl_log a @ [sl_message (length (sl_log a) + 1) r],
             sl_keys = sl_keys a @ (if pr_id r = [] then [] else [pr_pubkey r @ pr_id r])\<rparr>,
            of_nat (length (sl_log a) + 1)))"

definition ms_push_req :: "push_req \<Rightarrow> message_store \<Rightarrow> message_store \<times> u64" where
  "ms_push_req r = ms_push (pr_name r) (pr_pubkey r) (pr_id r) (pr_text r) (pr_epoch r)"

fun ms_run :: "push_req list \<Rightarrow> message_store \<Rightarrow> message_store \<times> u64 list" where
  "ms_run [] s = (s, [])"
| "ms_run (r # rs) s =
     (let (s1, q) = ms_push_req r s; (s2, qs) = ms_run rs s1 in (s2, q # qs))"

fun sl_run :: "nat \<Rightarrow> push_req list \<Rightarrow> spec_log \<Rightarrow> spec_log \<times> u64 list" where
  "sl_run w [] a = (a, [])"
| "sl_run w (r # rs) a =
     (let (a1, q) = sl_push w r a; (a2, qs) = sl_run w rs a1 in (a2, q # qs))"

text \<open>The store holds the newest part of the log and the newest window of keys.\<close>

definition ms_refines :: "message_store \<Rightarrow> spec_log \<Rightarrow> bool" where
  "ms_refines s a \<longleftrightarrow>
     ms_msgs s = lastn (ms_cap s) (sl_log a) \<and>
     ms_next_seq s = of_nat (length (sl_log a) + 1) \<and>
     ms_seen_order s = lastn (ms_seen_cap s) (sl_keys a) \<and>
     ms_seen s = set (ms_seen_order s) \<and>
     distinct (ms_seen_order s) \<and>
     map sm_seq (sl_log a) = map (\<lambda>i. of_nat (i + 1)) [0..<length (sl_log a)]"

lemma ms_refines_new: "ms_refines (ms_new cap) sl_init"
  by (simp add: ms_refines_def ms_new_def sl_init_def)

lemma ms_remember_seen:
  assumes "ms_seen s = set (ms_seen_order s)" and "distinct (ms_seen_order s)"
    and "key \<notin> ms_seen s"
  shows "ms_seen (ms_remember key s) = set (ms_seen_order (ms_remember key s))"
    and "distinct (ms_seen_order (ms_remember key s))"
proof -
  have d: "distinct (ms_seen_order s @ [key])" using assms by simp
  have "insert key (ms_seen s) = set (ms_seen_order s @ [key])" using assms(1) by auto
  then show "ms_seen (ms_remember key s) = set (ms_seen_order (ms_remember key s))"
    by (simp add: ms_remember_def case_prod_unfold Let_def ms_evict_seen_order
        ms_evict_seen_set [OF d] del: set_append)
  show "distinct (ms_seen_order (ms_remember key s))"
    using d by (simp add: seen_q.items_push distinct_lastn)
qed

text \<open>One push of the store is one push of the log, with the same answer.\<close>

lemma ms_push_refines:
  assumes R: "ms_refines s a"
  shows "ms_refines (fst (ms_push_req r s)) (fst (sl_push (ms_seen_cap s) r a)) \<and>
         snd (ms_push_req r s) = snd (sl_push (ms_seen_cap s) r a) \<and>
         ms_seen_cap (fst (ms_push_req r s)) = ms_seen_cap s \<and>
         ms_cap (fst (ms_push_req r s)) = ms_cap s"
proof -
  let ?key = "pr_pubkey r @ pr_id r"
  define dup where "dup \<longleftrightarrow> pr_id r \<noteq> [] \<and> ?key \<in> ms_seen s"
  from R have seen: "ms_seen s = set (lastn (ms_seen_cap s) (sl_keys a))"
    and seen': "ms_seen s = set (ms_seen_order s)" and dist: "distinct (ms_seen_order s)"
    by (auto simp: ms_refines_def)
  note defs = ms_push_req_def ms_push_def sl_push_def dedup_key_def sl_message_def Let_def
  show ?thesis
  proof (cases dup)
    case True
    then show ?thesis using R by (simp add: defs dup_def seen)
  next
    case False
    show ?thesis
    proof (cases "pr_id r = []")
      case True
      then show ?thesis using R
        by (auto simp: defs ms_refines_def msgs_q.items_push lastn_lastn_append ac_simps)
    next
      case nonempty: False
      with False have new: "?key \<notin> ms_seen s" by (simp add: dup_def)
      note rem = ms_remember_seen [OF seen' dist new]
      have "ms_seen_order (ms_remember ?key s) = lastn (ms_seen_cap s) (sl_keys a @ [?key])"
        using R by (simp add: seen_q.items_push ms_refines_def lastn_lastn_append)
      moreover have "?key \<notin> set (lastn (ms_seen_cap s) (sl_keys a))"
        using new by (simp add: seen)
      ultimately show ?thesis using nonempty new rem R
        by (auto simp: defs ms_refines_def msgs_q.items_push lastn_lastn_append ac_simps)
    qed
  qed
qed

lemma ms_run_refines:
  assumes "ms_refines s a"
  shows "ms_refines (fst (ms_run rs s)) (fst (sl_run (ms_seen_cap s) rs a)) \<and>
         snd (ms_run rs s) = snd (sl_run (ms_seen_cap s) rs a) \<and>
         ms_cap (fst (ms_run rs s)) = ms_cap s \<and> ms_seen_cap (fst (ms_run rs s)) = ms_seen_cap s"
  using assms
proof (induction rs arbitrary: s a)
  case (Cons r rs)
  from ms_push_refines [OF Cons.prems, of r]
  have step: "ms_refines (fst (ms_push_req r s)) (fst (sl_push (ms_seen_cap s) r a))"
    "snd (ms_push_req r s) = snd (sl_push (ms_seen_cap s) r a)"
    "ms_seen_cap (fst (ms_push_req r s)) = ms_seen_cap s"
    "ms_cap (fst (ms_push_req r s)) = ms_cap s" by auto
  from Cons.IH [OF step(1)] step show ?case
    by (simp add: case_prod_unfold Let_def)
qed simp

section \<open>Runs of the log\<close>

lemma sl_run_append:
  "sl_run w (rs @ rs') a =
     (let (a1, q1) = sl_run w rs a; (a2, q2) = sl_run w rs' a1 in (a2, q1 @ q2))"
  by (induction rs arbitrary: a) (simp_all add: case_prod_unfold Let_def)

lemma ms_run_append:
  "ms_run (rs @ rs') s =
     (let (s1, q1) = ms_run rs s; (s2, q2) = ms_run rs' s1 in (s2, q1 @ q2))"
  by (induction rs arbitrary: s) (simp_all add: case_prod_unfold Let_def)

lemma sl_run_keys:
  "\<exists>ks. sl_keys (fst (sl_run w rs a)) = sl_keys a @ ks \<and> length ks \<le> length rs"
proof (induction rs arbitrary: a)
  case (Cons r rs)
  obtain ks where "sl_keys (fst (sl_run w rs (fst (sl_push w r a)))) = sl_keys (fst (sl_push w r a)) @ ks"
    "length ks \<le> length rs" using Cons.IH by blast
  then show ?case
    by (auto simp: case_prod_unfold Let_def sl_push_def intro: exI [of _ "_ # ks"])
qed simp

lemma sl_run_log_length:
  "length (sl_log (fst (sl_run w rs a))) \<le> length (sl_log a) + length rs"
proof (induction rs arbitrary: a)
  case (Cons r rs)
  have "length (sl_log (fst (sl_push w r a))) \<le> length (sl_log a) + 1"
    by (simp add: sl_push_def)
  with Cons.IH [of "fst (sl_push w r a)"] show ?case
    by (simp add: case_prod_unfold Let_def)
qed simp

lemma sl_run_answers:
  assumes "length (sl_log a) + length rs < 2 ^ 64"
  shows "filter (\<lambda>q. q \<noteq> 0) (snd (sl_run w rs a)) =
         map (\<lambda>i. of_nat (i + 1)) [length (sl_log a)..<length (sl_log (fst (sl_run w rs a)))]
         \<and> length (sl_log a) \<le> length (sl_log (fst (sl_run w rs a)))"
  using assms
proof (induction rs arbitrary: a)
  case (Cons r rs)
  let ?n = "length (sl_log a)"
  have nz: "(of_nat (?n + 1) :: u64) \<noteq> 0"
    using Cons.prems by (simp add: word_of_nat_eq_0_iff nat_dvd_not_less del: of_nat_Suc)
  have l: "length (sl_log (fst (sl_push w r a))) + length rs < 2 ^ 64"
    using Cons.prems by (simp add: sl_push_def)
  show ?case using Cons.IH [OF l] nz
    by (auto simp: case_prod_unfold Let_def sl_push_def upt_conv_Cons split: if_splits)
qed simp

lemma ms_refines_run:
  "ms_refines (fst (ms_run rs (ms_new cap))) (fst (sl_run 4096 rs sl_init))"
  "snd (ms_run rs (ms_new cap)) = snd (sl_run 4096 rs sl_init)"
  "ms_cap (fst (ms_run rs (ms_new cap))) = cap"
  "ms_seen_cap (fst (ms_run rs (ms_new cap))) = 4096"
  using ms_run_refines [OF ms_refines_new, of rs cap] by (auto simp: ms_new_def)

lemma sl_seqs:
  assumes "ms_refines s a" and "i < length (sl_log a)"
  shows "sm_seq (sl_log a ! i) = of_nat (i + 1)"
proof -
  have "map sm_seq (sl_log a) ! i = map (\<lambda>i. of_nat (i + 1)) [0..<length (sl_log a)] ! i"
    using assms(1) by (simp add: ms_refines_def)
  then show ?thesis using assms(2) by simp
qed

lemma filter_seq_after:
  assumes "map sm_seq L = map (\<lambda>i. of_nat (i + 1)) [m..<m + length L]"
    and "m + length L < 2 ^ 64" and "k < 2 ^ 64"
  shows "filter (\<lambda>x. (of_nat k :: u64) < sm_seq x) L = drop (k - m) L"
  using assms
proof (induction L arbitrary: m)
  case (Cons x L)
  have ix: "sm_seq x = of_nat (m + 1)" and
    il: "map sm_seq L = map (\<lambda>i. of_nat (i + 1)) [Suc m..<Suc m + length L]"
    using Cons.prems(1) by (simp_all add: upt_conv_Cons del: upt_Suc)
  have lt: "(of_nat k :: u64) < of_nat (m + 1) \<longleftrightarrow> k < m + 1"
    using Cons.prems(2,3) by (simp add: of_nat_word_less_iff take_bit_nat_eq_self del: of_nat_Suc)
  from Cons.IH [OF il] Cons.prems(2,3) lt ix show ?case
    by (cases "k \<le> m") (auto simp: drop_Cons' diff_diff_left)
qed simp

lemma ms_read_after_run:
  assumes "ms_refines s a" and "length (sl_log a) < 2 ^ 64" and "k \<le> length (sl_log a)"
  shows "ms_read_after (of_nat k) s = lastn (min (ms_cap s) (length (sl_log a) - k)) (sl_log a)"
proof -
  define d where "d = length (sl_log a) - ms_cap s"
  have m: "ms_msgs s = drop d (sl_log a)"
    using assms(1) by (simp add: ms_refines_def lastn_def d_def)
  have "map sm_seq (drop d (sl_log a)) = drop d (map (\<lambda>i. of_nat (i + 1)) [0..<length (sl_log a)])"
    using assms(1) by (simp add: ms_refines_def drop_map [symmetric] del: of_nat_Suc of_nat_add)
  then have "map sm_seq (drop d (sl_log a)) = map (\<lambda>i. of_nat (i + 1)) [d..<length (sl_log a)]"
    by (simp only: drop_map drop_upt add_0)
  then have "filter (\<lambda>x. of_nat k < sm_seq x) (drop d (sl_log a)) = drop (k - d) (drop d (sl_log a))"
    using assms(2,3) by (intro filter_seq_after) (auto simp: d_def)
  then show ?thesis using assms(3)
    by (auto simp: ms_read_after_def m lastn_def d_def min_def)
qed

section \<open>Properties\<close>

text \<open>C5: the message store refines an unbounded log. After any sequence of pushes into a new
  store, the store holds exactly the newest \<open>cap\<close> messages of the log and the newest 4096
  dedup keys (each once, the set and the order agreeing), and every push answered what the log
  answers: the next number, or 0 when the same sender's message id is in the window.\<close>

theorem store_refines_log:
  "ms_refines (fst (ms_run rs (ms_new cap))) (fst (sl_run 4096 rs sl_init)) \<and>
   snd (ms_run rs (ms_new cap)) = snd (sl_run 4096 rs sl_init) \<and>
   ms_cap (fst (ms_run rs (ms_new cap))) = cap"
  using ms_refines_run by blast

text \<open>Reading after sequence number \<open>k\<close> returns, oldest first, exactly the messages
  accepted after the \<open>k\<close>-th that are still held: all of them while no more than \<open>cap\<close>
  were accepted since, otherwise the newest \<open>cap\<close>. No message is returned twice or out of
  order.\<close>

theorem read_after_exact:
  assumes "length rs < 2 ^ 64"
    and "k \<le> length (sl_log (fst (sl_run 4096 rs sl_init)))"
  shows "ms_read_after (of_nat k) (fst (ms_run rs (ms_new cap))) =
         lastn (min cap (length (sl_log (fst (sl_run 4096 rs sl_init))) - k))
           (sl_log (fst (sl_run 4096 rs sl_init)))"
  using ms_read_after_run [OF ms_refines_run(1) _ assms(2)] assms(1)
    sl_run_log_length [of 4096 rs sl_init]
  by (simp add: ms_refines_run(3) sl_init_def)

text \<open>The sequence numbers handed out are 1, 2, 3, ... without gaps: the non-zero answers of
  any run of pushes are the positions of the accepted messages, and 0 is only the answer to a
  dropped duplicate.\<close>

theorem answers_are_consecutive:
  assumes "length rs < 2 ^ 64"
  shows "filter (\<lambda>q. q \<noteq> 0) (snd (ms_run rs (ms_new cap))) =
         map (\<lambda>i. of_nat (i + 1)) [0..<length (sl_log (fst (sl_run 4096 rs sl_init)))]"
  using sl_run_answers [of sl_init rs 4096] assms
  by (simp add: ms_refines_run(2) sl_init_def)

text \<open>A message delivered again is dropped. Once a push with a non-empty id was accepted,
  a push by the same key with the same id changes nothing and answers 0, as long as fewer than
  4096 pushes came in between, whatever they were.\<close>

theorem redelivery_dropped:
  assumes "pr_id r \<noteq> []" and "pr_pubkey r' = pr_pubkey r" and "pr_id r' = pr_id r"
    and "snd (ms_push_req r (fst (ms_run rs0 (ms_new cap)))) \<noteq> 0"
    and "length rs < 4096"
  shows "ms_push_req r' (fst (ms_run (rs0 @ r # rs) (ms_new cap))) =
         (fst (ms_run (rs0 @ r # rs) (ms_new cap)), 0)"
proof -
  let ?key = "pr_pubkey r @ pr_id r"
  let ?a = "fst (sl_run 4096 rs0 sl_init)" and ?t = "fst (ms_run (rs0 @ r # rs) (ms_new cap))"
  have acc: "sl_keys (fst (sl_push 4096 r ?a)) = sl_keys ?a @ [?key]"
    using ms_push_refines [OF ms_refines_run(1), of r] assms(1,4)
    by (auto simp: sl_push_def ms_refines_run(4) split: if_splits)
  obtain ks where ks: "length ks \<le> length rs" and
    "sl_keys (fst (sl_run 4096 rs (fst (sl_push 4096 r ?a)))) = sl_keys ?a @ ?key # ks"
    using sl_run_keys [of 4096 rs "fst (sl_push 4096 r ?a)"] acc by auto
  then have "sl_keys (fst (sl_run 4096 (rs0 @ r # rs) sl_init)) = sl_keys ?a @ ?key # ks"
    by (simp add: sl_run_append case_prod_unfold Let_def)
  then have "?key \<in> ms_seen ?t"
    using ms_refines_run(1) [of "rs0 @ r # rs" cap] ks assms(5)
    by (simp add: ms_refines_def ms_refines_run(4) lastn_recent)
  then show ?thesis using assms(1-3) by (simp add: ms_push_req_def ms_push_def dedup_key_def)
qed

text \<open>Concrete runs: two senders, a capacity of two, a repeated delivery.\<close>

definition demo_req :: "u8 \<Rightarrow> u8 \<Rightarrow> push_req" where
  "demo_req k i = \<lparr>pr_name = ''alice'', pr_pubkey = [k], pr_id = [i], pr_text = [i], pr_epoch = 7\<rparr>"

lemmas demo_run_simps = demo_req_def ms_push_req_def ms_push_def dedup_key_def ms_new_def
  ms_remember_def ms_append_def sl_push_def sl_init_def sl_message_def lastn_def Let_def

theorem read_after_exact_witness:
  "ms_read_after (of_nat 1) (fst (ms_run [demo_req 1 1, demo_req 2 1, demo_req 1 1, demo_req 1 2] (ms_new 2))) =
     [sl_message 2 (demo_req 2 1), sl_message 3 (demo_req 1 2)]"
proof -
  let ?rs = "[demo_req 1 1, demo_req 2 1, demo_req 1 1, demo_req 1 2]"
  have log: "sl_log (fst (sl_run 4096 ?rs sl_init)) =
      [sl_message 1 (demo_req 1 1), sl_message 2 (demo_req 2 1), sl_message 3 (demo_req 1 2)]"
    by (simp add: demo_run_simps)
  have "ms_read_after (of_nat 1) (fst (ms_run ?rs (ms_new 2))) =
      lastn (min 2 (length (sl_log (fst (sl_run 4096 ?rs sl_init))) - 1)) (sl_log (fst (sl_run 4096 ?rs sl_init)))"
    by (rule read_after_exact) (simp_all only: log list.size, simp_all)
  then show ?thesis unfolding log by (simp add: lastn_def)
qed

theorem answers_are_consecutive_witness:
  "filter (\<lambda>q. q \<noteq> 0) (snd (ms_run [demo_req 1 1, demo_req 1 1, demo_req 2 1] (ms_new 2))) = [1, 2]"
  using answers_are_consecutive [of "[demo_req 1 1, demo_req 1 1, demo_req 2 1]" 2]
  by (simp add: demo_run_simps)

theorem redelivery_dropped_witness:
  "snd (ms_push_req (demo_req 1 1) (fst (ms_run [demo_req 1 1, demo_req 2 1] (ms_new 1)))) = 0"
  using redelivery_dropped [of "demo_req 1 1" "demo_req 1 1" "[]" 1 "[demo_req 2 1]"]
  by (simp add: demo_run_simps)

end
