(* ===== verification/Guest_Memory.thy ===== *)
theory Guest_Memory
  imports Prelude
begin

text \<open>
  How the host reads and writes a running program's linear memory: \<open>write_guest_bytes\<close>,
  \<open>read_guest_bytes\<close> and the slice taken by \<open>host::print\<close>, all in
  \<open>src/executor/mod.rs\<close>. Pointers and lengths come from the guest as \<open>i32\<close>; every
  out-of-range access is a trap. The interface \<open>guest_memory\<close> states what the host
  functions rely on.
\<close>

section \<open>Operations\<close>

datatype trap = MemoryOutOfBounds

text \<open>The memory export of the module: \<open>None\<close> when it exports none.\<close>

type_synonym memory = "bytes option"

text \<open>\<open>x.max(0) as usize\<close> of an \<open>i32\<close>.\<close>

definition clamp0 :: "i32 \<Rightarrow> nat" where
  "clamp0 x = nat (max 0 (sint x))"

definition write_guest_bytes :: "i32 \<Rightarrow> i32 \<Rightarrow> bytes \<Rightarrow> memory \<Rightarrow> trap + (memory \<times> i32)" where
  "write_guest_bytes ptr cap src memory =
     (case memory of
        None \<Rightarrow> Inl MemoryOutOfBounds
      | Some mem \<Rightarrow>
          let n = min (length src) (clamp0 cap);
              start = clamp0 ptr
          in if start + n \<le> length mem
             then Inr (Some (take start mem @ take n src @ drop (start + n) mem), of_nat n)
             else Inl MemoryOutOfBounds)"

definition read_guest_bytes :: "i32 \<Rightarrow> i32 \<Rightarrow> memory \<Rightarrow> trap + bytes" where
  "read_guest_bytes ptr len memory =
     (case memory of
        None \<Rightarrow> Inl MemoryOutOfBounds
      | Some mem \<Rightarrow>
          let start = clamp0 ptr; n = clamp0 len
          in if start + n \<le> length mem then Inr (take n (drop start mem))
             else Inl MemoryOutOfBounds)"

text \<open>
  \<open>host::print\<close> does not clamp: \<open>ptr as usize\<close> sign-extends to 64 bits and the end of the
  range is a wrapping sum (an optimised build; a debug build panics on that overflow). A range
  whose start is past its end or whose end is past the memory is \<open>None\<close> of \<open>get\<close>.
\<close>

definition print_slice :: "i32 \<Rightarrow> i32 \<Rightarrow> memory \<Rightarrow> trap + bytes" where
  "print_slice ptr len memory =
     (case memory of
        None \<Rightarrow> Inl MemoryOutOfBounds
      | Some mem \<Rightarrow>
          let start = (scast ptr :: u64); stop = start + (scast len :: u64)
          in if start \<le> stop \<and> unat stop \<le> length mem
             then Inr (take (unat stop - unat start) (drop (unat start) mem))
             else Inl MemoryOutOfBounds)"

definition mem_size :: "memory \<Rightarrow> nat" where
  "mem_size memory = (case memory of None \<Rightarrow> 0 | Some mem \<Rightarrow> length mem)"

definition mem_byte :: "memory \<Rightarrow> nat \<Rightarrow> u8 option" where
  "mem_byte memory i =
     (case memory of None \<Rightarrow> None | Some mem \<Rightarrow> if i < length mem then Some (mem ! i) else None)"

section \<open>The interface\<close>

locale guest_memory =
  fixes rd :: "i32 \<Rightarrow> i32 \<Rightarrow> 'm \<Rightarrow> 'e + bytes"
    and wr :: "i32 \<Rightarrow> i32 \<Rightarrow> bytes \<Rightarrow> 'm \<Rightarrow> 'e + ('m \<times> i32)"
    and msize :: "'m \<Rightarrow> nat"
    and mbyte :: "'m \<Rightarrow> nat \<Rightarrow> u8 option"
  assumes wr_size: "wr p c src m = Inr (m', n) \<Longrightarrow> msize m' = msize m"
    and wr_count: "wr p c src m = Inr (m', n) \<Longrightarrow> n = of_nat (min (length src) (clamp0 c))"
    and wr_rd: "wr p c src m = Inr (m', n) \<Longrightarrow> rd p n m' = Inr (take (clamp0 c) src)"
    and wr_frame: "wr p c src m = Inr (m', n) \<Longrightarrow>
        i < clamp0 p \<or> clamp0 p + min (length src) (clamp0 c) \<le> i \<Longrightarrow> mbyte m' i = mbyte m i"
    and wr_ok: "clamp0 p + min (length src) (clamp0 c) \<le> msize m \<Longrightarrow> 0 < msize m \<Longrightarrow>
        \<exists>m' n. wr p c src m = Inr (m', n)"
begin

text \<open>A buffer that is large enough receives all of the source.\<close>

lemma wr_rd_all:
  assumes "wr p c src m = Inr (m', n)" and "length src \<le> clamp0 c"
  shows "rd p n m' = Inr src"
  using wr_rd [OF assms(1)] assms(2) by simp

text \<open>What a write reports fits the buffer it was given.\<close>

lemma wr_count_le:
  assumes "wr p c src m = Inr (m', n)"
  shows "unat n \<le> clamp0 c" and "unat n \<le> length src"
proof -
  have "n = of_nat (min (length src) (clamp0 c))" by (rule wr_count [OF assms])
  then have "unat n = take_bit 32 (min (length src) (clamp0 c))"
    by (simp only: unsigned_of_nat) simp
  then have "unat n \<le> min (length src) (clamp0 c)"
    by (simp only: take_bit_nat_less_eq_self)
  then show "unat n \<le> clamp0 c" and "unat n \<le> length src" by simp_all
qed

text \<open>A second write below or above the first leaves the first readable byte for byte.\<close>

lemma wr_wr_frame:
  assumes "wr p c src m = Inr (m1, n1)" and "wr p2 c2 src2 m1 = Inr (m2, n2)"
    and "i < clamp0 p2 \<or> clamp0 p2 + min (length src2) (clamp0 c2) \<le> i"
    and "i < clamp0 p \<or> clamp0 p + min (length src) (clamp0 c) \<le> i"
  shows "mbyte m2 i = mbyte m i"
  using wr_frame [OF assms(1,4)] wr_frame [OF assms(2,3)] by simp

end

lemma clamp0_bound: "clamp0 x < 2 ^ 31"
proof -
  have "sint x < 2 ^ 31" using sint_less [of x] by simp
  then show ?thesis by (simp add: clamp0_def)
qed

lemma clamp0_of_nat: "n < 2 ^ 31 \<Longrightarrow> clamp0 (of_nat n) = n"
  by (simp add: clamp0_def signed_of_nat signed_take_bit_int_eq_self)

interpretation gm: guest_memory read_guest_bytes write_guest_bytes mem_size mem_byte
proof
  fix p c n :: i32 and src :: bytes and m m' :: memory and i
  note defs = write_guest_bytes_def read_guest_bytes_def mem_size_def mem_byte_def Let_def
  have cl: "clamp0 (of_nat (min (length src) (clamp0 c))) = min (length src) (clamp0 c)"
    using clamp0_bound [of c] by (intro clamp0_of_nat) simp
  show "write_guest_bytes p c src m = Inr (m', n) \<Longrightarrow> mem_size m' = mem_size m"
    by (auto simp: defs split: option.splits if_splits)
  show "write_guest_bytes p c src m = Inr (m', n) \<Longrightarrow> n = of_nat (min (length src) (clamp0 c))"
    by (auto simp: defs split: option.splits if_splits)
  show "write_guest_bytes p c src m = Inr (m', n) \<Longrightarrow>
      read_guest_bytes p n m' = Inr (take (clamp0 c) src)"
    using cl by (auto simp: defs min_def split: option.splits if_splits)
  show "write_guest_bytes p c src m = Inr (m', n) \<Longrightarrow>
      i < clamp0 p \<or> clamp0 p + min (length src) (clamp0 c) \<le> i \<Longrightarrow> mem_byte m' i = mem_byte m i"
    by (auto simp: defs nth_append split: option.splits if_splits)
  show "clamp0 p + min (length src) (clamp0 c) \<le> mem_size m \<Longrightarrow> 0 < mem_size m \<Longrightarrow>
      \<exists>m' n. write_guest_bytes p c src m = Inr (m', n)"
    by (auto simp: defs split: option.splits)
qed

section \<open>Properties\<close>

text \<open>A host function that fills a guest buffer stays inside it. A write either traps and
  changes nothing, or keeps the memory's size, leaves every byte outside
  \<open>[ptr, ptr + min cap len)\<close> as it was, reports a count the buffer can hold, and reading
  back that count at the same pointer returns the prefix of the source that fitted.\<close>

theorem guest_write_contained:
  assumes "write_guest_bytes ptr cap src m = Inr (m', n)"
  shows "mem_size m' = mem_size m \<and> unat n \<le> clamp0 cap \<and>
         read_guest_bytes ptr n m' = Inr (take (clamp0 cap) src) \<and>
         (\<forall>i. i < clamp0 ptr \<or> clamp0 ptr + unat n \<le> i \<longrightarrow> mem_byte m' i = mem_byte m i)"
proof -
  have n: "n = of_nat (min (length src) (clamp0 cap))" by (rule gm.wr_count [OF assms])
  have "unat n = min (length src) (clamp0 cap)"
    using clamp0_bound [of cap] by (simp add: n unsigned_of_nat take_bit_nat_eq_self)
  then show ?thesis
    using gm.wr_size [OF assms] gm.wr_rd [OF assms] gm.wr_frame [OF assms] by auto
qed

theorem guest_write_contained_witness:
  "read_guest_bytes 1 2 (Some [9, 7, 8, 9]) = Inr [7, 8]"
proof -
  have w: "write_guest_bytes 1 2 [7, 8, 5] (Some [9, 9, 9, 9]) = Inr (Some [9, 7, 8, 9], 2)"
    by (simp add: write_guest_bytes_def clamp0_def numeral_eq_Suc)
  from guest_write_contained [OF w] show ?thesis by (simp add: clamp0_def numeral_eq_Suc)
qed

text \<open>The unclamped range of \<open>host::print\<close>, read over the integers.\<close>

lemma mod_2_64_small:
  fixes x :: int
  assumes "- (2 ^ 63) \<le> x" and "x < 2 ^ 63"
  shows "x mod 2 ^ 64 = (if 0 \<le> x then x else x + 2 ^ 64)"
proof (cases "0 \<le> x")
  case False
  then have "(x + 2 ^ 64) mod 2 ^ 64 = x + 2 ^ 64"
    using assms by (intro mod_pos_pos_trivial) auto
  with False show ?thesis by simp
qed (use assms in simp)

lemma print_range_uint:
  fixes ptr len :: i32
  shows "uint (scast ptr :: u64) = (if 0 \<le> sint ptr then sint ptr else sint ptr + 2 ^ 64)"
    and "uint (scast ptr + scast len :: u64) =
      (if 0 \<le> sint ptr + sint len then sint ptr + sint len else sint ptr + sint len + 2 ^ 64)"
proof -
  have b: "- (2 ^ 31) \<le> sint x" "sint x < 2 ^ 31" for x :: i32
    using sint_ge [of x] sint_less [of x] by simp_all
  have u: "uint (scast x :: u64) = sint x mod 2 ^ 64" for x :: i32
    by transfer (simp add: take_bit_eq_mod)
  show "uint (scast ptr :: u64) = (if 0 \<le> sint ptr then sint ptr else sint ptr + 2 ^ 64)"
    using b [of ptr] by (simp only: u) (intro mod_2_64_small; simp)
  have "uint (scast ptr + scast len :: u64) = (sint ptr + sint len) mod 2 ^ 64"
    by (simp add: uint_word_ariths u mod_add_eq)
  then show "uint (scast ptr + scast len :: u64) =
      (if 0 \<le> sint ptr + sint len then sint ptr + sint len else sint ptr + sint len + 2 ^ 64)"
    using b [of ptr] b [of len] by (simp only:) (intro mod_2_64_small; simp)
qed

lemma print_range_iff:
  fixes ptr len :: i32
  assumes "length mem < 2 ^ 63"
  shows "(scast ptr :: u64) \<le> scast ptr + scast len \<and> unat (scast ptr + scast len :: u64) \<le> length mem
    \<longleftrightarrow> 0 \<le> sint ptr \<and> 0 \<le> sint len \<and> sint ptr + sint len \<le> int (length mem)"
proof -
  have b: "- (2 ^ 31) \<le> sint x" "sint x < 2 ^ 31" for x :: i32
    using sint_ge [of x] sint_less [of x] by simp_all
  have l: "int (length mem) < 2 ^ 63" using assms by simp
  have m: "unat (scast ptr + scast len :: u64) \<le> length mem \<longleftrightarrow> uint (scast ptr + scast len :: u64) \<le> int (length mem)"
    by (simp only: unat_eq_nat_uint nat_le_iff)
  show ?thesis unfolding m word_le_def print_range_uint
    using b [of ptr] b [of len] l by (auto split: if_splits)
qed

text \<open>\<open>host::print\<close> can read nothing outside the guest's memory: although it does not
  clamp, it yields bytes exactly when pointer and length are non-negative and the range lies
  inside the memory, and then yields that range; every other call traps.\<close>

theorem print_slice_exact:
  assumes "length mem < 2 ^ 63"
  shows "print_slice ptr len (Some mem) =
    (if 0 \<le> sint ptr \<and> 0 \<le> sint len \<and> sint ptr + sint len \<le> int (length mem)
     then Inr (take (clamp0 len) (drop (clamp0 ptr) mem)) else Inl MemoryOutOfBounds)"
proof -
  have "unat (scast ptr + scast len :: u64) - unat (scast ptr :: u64) = clamp0 len \<and>
      unat (scast ptr :: u64) = clamp0 ptr" if "0 \<le> sint ptr" "0 \<le> sint len"
    using that by (simp add: unat_eq_nat_uint print_range_uint clamp0_def nat_diff_distrib' flip: nat_add_distrib)
  then show ?thesis
    using print_range_iff [OF assms, of ptr len] by (auto simp: print_slice_def Let_def)
qed

theorem print_slice_exact_witness:
  "print_slice (- 1) 2 (Some [1, 2, 3]) = Inl MemoryOutOfBounds \<and> print_slice 1 2 (Some [1, 2, 3]) = Inr [2, 3]"
  using print_slice_exact [of "[1, 2, 3]" "- 1" 2] print_slice_exact [of "[1, 2, 3]" 1 2]
  by (simp add: clamp0_def)

end
