(* ===== verification/Utf8.thy ===== *)
theory Utf8
  imports Prelude
begin

text \<open>
  The UTF-8 operations of the standard library that the program calls: \<open>char::encode_utf8\<close>,
  \<open>str::from_utf8\<close> and \<open>String::from_utf8_lossy\<close>, which replaces each maximal invalid
  chunk by U+FFFD. Text is the list of its UTF-8 bytes, so decoding keeps valid chunks as they
  are.
\<close>

definition is_cont :: "u8 \<Rightarrow> bool" where
  "is_cont b \<longleftrightarrow> b AND 0xC0 = 0x80"

text \<open>Reading past the end yields 0, which is no continuation byte.\<close>

definition byte_or_0 :: "bytes \<Rightarrow> nat \<Rightarrow> u8" where
  "byte_or_0 bs i = (if i < length bs then bs ! i else 0)"

definition second_of_3 :: "u8 \<Rightarrow> u8 \<Rightarrow> bool" where
  "second_of_3 b c \<longleftrightarrow>
     (if b = 0xE0 then 0xA0 \<le> c \<and> c \<le> 0xBF
      else if b = 0xED then 0x80 \<le> c \<and> c \<le> 0x9F
      else 0x80 \<le> c \<and> c \<le> 0xBF)"

definition second_of_4 :: "u8 \<Rightarrow> u8 \<Rightarrow> bool" where
  "second_of_4 b c \<longleftrightarrow>
     (if b = 0xF0 then 0x90 \<le> c \<and> c \<le> 0xBF
      else if b = 0xF4 then 0x80 \<le> c \<and> c \<le> 0x8F
      else 0x80 \<le> c \<and> c \<le> 0xBF)"

text \<open>The length of the first chunk and whether it is a character.\<close>

fun utf8_chunk :: "bytes \<Rightarrow> nat \<times> bool" where
  "utf8_chunk [] = (0, True)"
| "utf8_chunk (b # bs) =
     (let c1 = byte_or_0 bs 0; c2 = byte_or_0 bs 1; c3 = byte_or_0 bs 2 in
      if b < 0x80 then (1, True)
      else if 0xC2 \<le> b \<and> b \<le> 0xDF then (if is_cont c1 then (2, True) else (1, False))
      else if 0xE0 \<le> b \<and> b \<le> 0xEF then
        (if \<not> second_of_3 b c1 then (1, False)
         else if \<not> is_cont c2 then (2, False) else (3, True))
      else if 0xF0 \<le> b \<and> b \<le> 0xF4 then
        (if \<not> second_of_4 b c1 then (1, False)
         else if \<not> is_cont c2 then (2, False)
         else if \<not> is_cont c3 then (3, False) else (4, True))
      else (1, False))"

lemma utf8_chunk_pos: "bs \<noteq> [] \<Longrightarrow> 0 < fst (utf8_chunk bs)"
  by (cases bs) (auto simp: Let_def)

lemma utf8_chunk_pos_Cons [simp]: "0 < fst (utf8_chunk (b # bs))"
  by (rule utf8_chunk_pos) simp

declare utf8_chunk.simps(2) [simp del]

function valid_utf8 :: "bytes \<Rightarrow> bool" where
  "valid_utf8 [] = True"
| "valid_utf8 (b # bs) =
     (snd (utf8_chunk (b # bs)) \<and> valid_utf8 (drop (fst (utf8_chunk (b # bs))) (b # bs)))"
  by pat_completeness auto
termination by (relation "measure length") (auto simp del: drop_Cons' simp: Suc_le_eq)

definition replacement_char :: bytes where
  "replacement_char = [0xEF, 0xBF, 0xBD]"

function utf8_lossy_bytes :: "bytes \<Rightarrow> bytes" where
  "utf8_lossy_bytes [] = []"
| "utf8_lossy_bytes (b # bs) =
     (let (n, ok) = utf8_chunk (b # bs)
      in (if ok then take n (b # bs) else replacement_char)
         @ utf8_lossy_bytes (drop n (b # bs)))"
  by pat_completeness auto
termination
proof (relation "measure length", goal_cases)
  case (2 b bs x n y)
  then have "n = fst (utf8_chunk (b # bs))" by (metis fst_conv)
  then show ?case using utf8_chunk_pos_Cons [of b bs] by simp
qed simp

declare valid_utf8.simps(2) [simp del] utf8_lossy_bytes.simps(2) [simp del]

definition from_utf8_lossy :: "bytes \<Rightarrow> string" where
  "from_utf8_lossy bs = text_of_bytes (utf8_lossy_bytes bs)"

definition from_utf8 :: "bytes \<Rightarrow> string option" where
  "from_utf8 bs = (if valid_utf8 bs then Some (text_of_bytes bs) else None)"

definition valid_text :: "string \<Rightarrow> bool" where
  "valid_text s \<longleftrightarrow> valid_utf8 (as_bytes s)"

lemma utf8_lossy_valid: "valid_utf8 bs \<Longrightarrow> utf8_lossy_bytes bs = bs"
proof (induction bs rule: valid_utf8.induct)
  case (2 b bs)
  then show ?case
    by (simp add: valid_utf8.simps(2) utf8_lossy_bytes.simps(2) case_prod_unfold Let_def)
qed simp

lemma from_utf8_lossy_as_bytes: "valid_text s \<Longrightarrow> from_utf8_lossy (as_bytes s) = s"
  by (simp add: valid_text_def from_utf8_lossy_def utf8_lossy_valid)

text \<open>ASCII text is valid.\<close>

lemma valid_utf8_ascii: "\<forall>b \<in> set bs. b < 0x80 \<Longrightarrow> valid_utf8 bs"
proof (induction bs rule: valid_utf8.induct)
  case (2 b bs)
  then have "utf8_chunk (b # bs) = (1, True)" by (simp add: utf8_chunk.simps Let_def)
  with 2 show ?case by (simp add: valid_utf8.simps(2))
qed simp

text \<open>\<open>char::encode_utf8\<close> of a Unicode scalar value.\<close>

definition is_scalar :: "nat \<Rightarrow> bool" where
  "is_scalar c \<longleftrightarrow> c < 0xD800 \<or> 0xE000 \<le> c \<and> c < 0x110000"

definition encode_utf8 :: "nat \<Rightarrow> bytes" where
  "encode_utf8 c =
     (if c < 0x80 then [of_nat c]
      else if c < 0x800 then [of_nat (0xC0 + c div 64), of_nat (0x80 + c mod 64)]
      else if c < 0x10000 then
        [of_nat (0xE0 + c div 4096), of_nat (0x80 + c div 64 mod 64), of_nat (0x80 + c mod 64)]
      else
        [of_nat (0xF0 + c div 262144), of_nat (0x80 + c div 4096 mod 64),
         of_nat (0x80 + c div 64 mod 64), of_nat (0x80 + c mod 64)])"

lemma of_nat_u8_inject:
  assumes "m < 256" and "n < 256"
  shows "(of_nat m :: u8) = of_nat n \<longleftrightarrow> m = n"
proof
  assume "(of_nat m :: u8) = of_nat n"
  then have "unat (of_nat m :: u8) = unat (of_nat n :: u8)" by simp
  then show "m = n" using assms by (simp add: unsigned_of_nat take_bit_nat_eq_self)
qed simp

lemma encode_utf8_length:
  "length (encode_utf8 c) = (if c < 0x80 then 1 else if c < 0x800 then 2 else if c < 0x10000 then 3 else 4)"
  by (simp add: encode_utf8_def)

lemma div_mod_64_inj: "(c::nat) div 64 = d div 64 \<Longrightarrow> c mod 64 = d mod 64 \<Longrightarrow> c = d"
  by (metis div_mult_mod_eq)

lemma u8_field_inject:
  "(of_nat (k + a) :: u8) = of_nat (k + b) \<Longrightarrow> k + a < 256 \<Longrightarrow> k + b < 256 \<Longrightarrow> a = b"
  by (metis of_nat_u8_inject add_left_cancel)

lemma u8_tail_inject: "(of_nat (0x80 + a mod 64) :: u8) = of_nat (0x80 + b mod 64) \<Longrightarrow> a mod 64 = b mod 64"
proof (erule u8_field_inject)
  have m: "x mod 64 < 64" for x :: nat by simp
  show "0x80 + a mod 64 < 256" "0x80 + b mod 64 < 256" using m [of a] m [of b] by linarith+
qed

lemma u8_head_inject:
  "(of_nat (k + a div n) :: u8) = of_nat (k + b div n) \<Longrightarrow> a < n * j \<Longrightarrow> b < n * j \<Longrightarrow> k + j \<le> 256 \<Longrightarrow>
   a div n = b div n"
proof (erule u8_field_inject)
  assume "a < n * j" "b < n * j" "k + j \<le> 256"
  then have "a div n < j" "b div n < j" by (simp_all add: less_mult_imp_div_less mult.commute)
  then show "k + a div n < 256" "k + b div n < 256" using \<open>k + j \<le> 256\<close> by linarith+
qed

lemma encode_utf8_inj:
  assumes "c < 0x110000" and "d < 0x110000" and eq: "encode_utf8 c = encode_utf8 d"
  shows "c = d"
proof -
  have len: "length (encode_utf8 c) = length (encode_utf8 d)" using eq by simp
  consider "c < 0x80" "d < 0x80" | "0x80 \<le> c" "c < 0x800" "0x80 \<le> d" "d < 0x800"
    | "0x800 \<le> c" "c < 0x10000" "0x800 \<le> d" "d < 0x10000" | "0x10000 \<le> c" "0x10000 \<le> d"
    using len by (auto simp: encode_utf8_length split: if_splits)
  then show ?thesis
  proof cases
    case 1
    then show ?thesis using eq by (simp add: encode_utf8_def of_nat_u8_inject)
  next
    case 2
    then have "(of_nat (0xC0 + c div 64) :: u8) = of_nat (0xC0 + d div 64)"
      and t: "(of_nat (0x80 + c mod 64) :: u8) = of_nat (0x80 + d mod 64)"
      using eq by (simp_all add: encode_utf8_def)
    from this(1) 2 have "c div 64 = d div 64" by (intro u8_head_inject [where k = "0xC0" and j = 32]) simp_all
    from div_mod_64_inj [OF this u8_tail_inject [OF t]] show ?thesis .
  next
    case 3
    then have "(of_nat (0xE0 + c div 4096) :: u8) = of_nat (0xE0 + d div 4096)"
      and t1: "(of_nat (0x80 + c div 64 mod 64) :: u8) = of_nat (0x80 + d div 64 mod 64)"
      and t2: "(of_nat (0x80 + c mod 64) :: u8) = of_nat (0x80 + d mod 64)"
      using eq by (simp_all add: encode_utf8_def)
    from this(1) 3 have "c div 4096 = d div 4096" by (intro u8_head_inject [where k = "0xE0" and j = 16]) simp_all
    then have "c div 64 div 64 = d div 64 div 64" by (simp add: div_mult2_eq [symmetric])
    from div_mod_64_inj [OF this u8_tail_inject [OF t1]] u8_tail_inject [OF t2]
    show ?thesis by (rule div_mod_64_inj)
  next
    case 4
    then have "(of_nat (0xF0 + c div 262144) :: u8) = of_nat (0xF0 + d div 262144)"
      and t1: "(of_nat (0x80 + c div 4096 mod 64) :: u8) = of_nat (0x80 + d div 4096 mod 64)"
      and t2: "(of_nat (0x80 + c div 64 mod 64) :: u8) = of_nat (0x80 + d div 64 mod 64)"
      and t3: "(of_nat (0x80 + c mod 64) :: u8) = of_nat (0x80 + d mod 64)"
      using eq by (simp_all add: encode_utf8_def)
    from this(1) assms(1,2) have "c div 262144 = d div 262144"
      by (intro u8_head_inject [where k = "0xF0" and j = 5]) simp_all
    then have "c div 4096 div 64 = d div 4096 div 64" by (simp add: div_mult2_eq [symmetric])
    from div_mod_64_inj [OF this u8_tail_inject [OF t1]]
    have "c div 64 div 64 = d div 64 div 64" by (simp add: div_mult2_eq [symmetric])
    from div_mod_64_inj [OF this u8_tail_inject [OF t2]] u8_tail_inject [OF t3]
    show ?thesis by (rule div_mod_64_inj)
  qed
qed

section \<open>Trimming\<close>

text \<open>\<open>str::trim\<close>: the encodings of the Unicode white-space characters, removed from both ends.\<close>

definition is_white_space :: "bytes \<Rightarrow> bool" where
  "is_white_space bs \<longleftrightarrow>
     bs \<in> {[0x09], [0x0A], [0x0B], [0x0C], [0x0D], [0x20], [0xC2, 0x85], [0xC2, 0xA0],
            [0xE1, 0x9A, 0x80], [0xE2, 0x80, 0xA8], [0xE2, 0x80, 0xA9], [0xE2, 0x80, 0xAF],
            [0xE2, 0x81, 0x9F], [0xE3, 0x80, 0x80]} \<or>
     (length bs = 3 \<and> take 2 bs = [0xE2, 0x80] \<and> 0x80 \<le> bs ! 2 \<and> bs ! 2 \<le> 0x8A)"

definition ws_len :: "(nat \<Rightarrow> bytes) \<Rightarrow> nat" where
  "ws_len f =
     (if is_white_space (f 1) then 1 else if is_white_space (f 2) then 2
      else if is_white_space (f 3) then 3 else 0)"

lemma not_white_space_Nil [simp]: "\<not> is_white_space []"
  by (simp add: is_white_space_def)

lemma ws_len_Nil [simp]: "ws_len (\<lambda>n. []) = 0"
  by (simp add: ws_len_def)

function trim_start_bytes :: "bytes \<Rightarrow> bytes" where
  "trim_start_bytes bs =
     (let n = ws_len (\<lambda>n. take n bs) in if n = 0 then bs else trim_start_bytes (drop n bs))"
  by pat_completeness auto
termination
  by (relation "measure length") (auto simp: neq_Nil_conv intro!: diff_less Nat.gr0I)

function trim_end_bytes :: "bytes \<Rightarrow> bytes" where
  "trim_end_bytes bs =
     (let n = ws_len (\<lambda>n. lastn n bs) in
      if n = 0 then bs else trim_end_bytes (take (length bs - n) bs))"
  by pat_completeness auto
termination
  by (relation "measure length") (auto simp: neq_Nil_conv intro!: diff_less Nat.gr0I)

declare trim_start_bytes.simps [simp del] trim_end_bytes.simps [simp del]

definition trim :: "string \<Rightarrow> string" where
  "trim s = text_of_bytes (trim_end_bytes (trim_start_bytes (as_bytes s)))"

end
