(* ===== verification/Tty.thy ===== *)
theory Tty
  imports Utf8
begin

text \<open>
  The terminal driver, \<open>src/tty.rs\<close>: the events a guest reads and their wire form, the
  translation from crossterm's events, and the output commands the host queues. crossterm draws;
  the model keeps the commands it is given.
\<close>

section \<open>Events\<close>

text \<open>A Rust \<open>char\<close> is its code point.\<close>

datatype tty_event =
    Char nat
  | Enter
  | Backspace
  | Left
  | Right
  | Up
  | Down
  | CtrlC
  | CtrlD
  | Esc
  | Resize u16 u16

definition CHAR_TAG :: u8 where "CHAR_TAG = 1"
definition ENTER_TAG :: u8 where "ENTER_TAG = 2"
definition BACKSPACE_TAG :: u8 where "BACKSPACE_TAG = 3"
definition LEFT_TAG :: u8 where "LEFT_TAG = 4"
definition RIGHT_TAG :: u8 where "RIGHT_TAG = 5"
definition UP_TAG :: u8 where "UP_TAG = 6"
definition DOWN_TAG :: u8 where "DOWN_TAG = 7"
definition CTRL_C_TAG :: u8 where "CTRL_C_TAG = 8"
definition CTRL_D_TAG :: u8 where "CTRL_D_TAG = 9"
definition ESC_TAG :: u8 where "ESC_TAG = 10"
definition RESIZE_TAG :: u8 where "RESIZE_TAG = 11"

lemmas event_kind = CHAR_TAG_def ENTER_TAG_def BACKSPACE_TAG_def LEFT_TAG_def RIGHT_TAG_def
  UP_TAG_def DOWN_TAG_def CTRL_C_TAG_def CTRL_D_TAG_def ESC_TAG_def RESIZE_TAG_def

fun encode_event :: "tty_event \<Rightarrow> bytes" where
  "encode_event (Char c) = CHAR_TAG # encode_utf8 c"
| "encode_event Enter = [ENTER_TAG]"
| "encode_event Backspace = [BACKSPACE_TAG]"
| "encode_event Left = [LEFT_TAG]"
| "encode_event Right = [RIGHT_TAG]"
| "encode_event Up = [UP_TAG]"
| "encode_event Down = [DOWN_TAG]"
| "encode_event CtrlC = [CTRL_C_TAG]"
| "encode_event CtrlD = [CTRL_D_TAG]"
| "encode_event Esc = [ESC_TAG]"
| "encode_event (Resize c r) = RESIZE_TAG # le16 c @ le16 r"

text \<open>crossterm's events, as far as \<open>map_event\<close> looks at them.\<close>

datatype key_code =
    KChar nat | KEnter | KBackspace | KLeft | KRight | KUp | KDown | KEsc | KOther

datatype key_kind = KPress | KRepeat | KRelease

datatype ct_event =
    CtResize u16 u16
  | CtKey key_code bool key_kind
  | CtOther

text \<open>The \<open>bool\<close> of a key event is whether the control modifier is held.\<close>

definition map_event :: "ct_event \<Rightarrow> tty_event option" where
  "map_event ev =
     (case ev of
        CtResize c r \<Rightarrow> Some (Resize c r)
      | CtKey code ctrl kind \<Rightarrow>
          if kind \<noteq> KPress \<and> kind \<noteq> KRepeat then None
          else (case code of
              KChar c \<Rightarrow>
                if c = of_char (CHR ''c'') \<and> ctrl then Some CtrlC
                else if c = of_char (CHR ''d'') \<and> ctrl then Some CtrlD
                else Some (Char c)
            | KEnter \<Rightarrow> Some Enter
            | KBackspace \<Rightarrow> Some Backspace
            | KLeft \<Rightarrow> Some Left
            | KRight \<Rightarrow> Some Right
            | KUp \<Rightarrow> Some Up
            | KDown \<Rightarrow> Some Down
            | KEsc \<Rightarrow> Some Esc
            | KOther \<Rightarrow> None)
      | CtOther \<Rightarrow> None)"

section \<open>Output\<close>

datatype color =
    Black | DarkRed | DarkGreen | DarkYellow | DarkBlue | DarkMagenta | DarkCyan | Grey
  | DarkGrey | Red | Green | Yellow | Blue | Magenta | Cyan | White | ResetColor

datatype attribute = ResetAttr | Bold | Underlined | Reverse

datatype tty_op =
    PrintOp string
  | MoveToOp u16 u16
  | ClearAllOp
  | SetForeground color
  | SetBackground color
  | SetAttribute attribute
  | FlushOp

definition ansi_color :: "i32 \<Rightarrow> color" where
  "ansi_color c =
     (if 0 \<le> sint c \<and> sint c \<le> 15
      then [Black, DarkRed, DarkGreen, DarkYellow, DarkBlue, DarkMagenta, DarkCyan, Grey,
            DarkGrey, Red, Green, Yellow, Blue, Magenta, Cyan, White] ! nat (sint c)
      else ResetColor)"

definition style_attribute :: "i32 \<Rightarrow> attribute" where
  "style_attribute attrs =
     (if attrs = 0 then ResetAttr
      else if attrs AND 1 \<noteq> 0 then Bold
      else if attrs AND 2 \<noteq> 0 then Underlined
      else Reverse)"

definition tty_print :: "string \<Rightarrow> tty_op list \<Rightarrow> tty_op list" where
  "tty_print s out = out @ [PrintOp s]"

definition tty_move_to :: "u16 \<Rightarrow> u16 \<Rightarrow> tty_op list \<Rightarrow> tty_op list" where
  "tty_move_to col row out = out @ [MoveToOp col row]"

definition tty_clear :: "tty_op list \<Rightarrow> tty_op list" where
  "tty_clear out = out @ [ClearAllOp]"

definition tty_style :: "i32 \<Rightarrow> i32 \<Rightarrow> i32 \<Rightarrow> tty_op list \<Rightarrow> tty_op list" where
  "tty_style fg bg attrs out =
     out @ [SetForeground (ansi_color fg), SetBackground (ansi_color bg),
            SetAttribute (style_attribute attrs)]"

definition tty_flush :: "tty_op list \<Rightarrow> tty_op list" where
  "tty_flush out = out @ [FlushOp]"

text \<open>\<open>terminal::size().unwrap_or((80, 24))\<close>\<close>

definition tty_size :: "(u16 \<times> u16) option \<Rightarrow> u16 \<times> u16" where
  "tty_size terminal_size = (case terminal_size of None \<Rightarrow> (80, 24) | Some s \<Rightarrow> s)"

section \<open>Properties\<close>

definition event_ok :: "tty_event \<Rightarrow> bool" where
  "event_ok ev = (case ev of Char c \<Rightarrow> is_scalar c | _ \<Rightarrow> True)"

text \<open>The wire form of input events loses nothing: two events with the same bytes are the
  same event (a character being a Unicode scalar value), and every event fits in five bytes.\<close>

theorem encode_event_faithful:
  assumes "event_ok e1" and "event_ok e2"
  shows "(encode_event e1 = encode_event e2 \<longleftrightarrow> e1 = e2) \<and> length (encode_event e1) \<le> 5"
proof
  have sc: "is_scalar c \<Longrightarrow> c < 0x110000" for c by (auto simp: is_scalar_def)
  show "encode_event e1 = encode_event e2 \<longleftrightarrow> e1 = e2"
  proof
    assume eq: "encode_event e1 = encode_event e2"
    then show "e1 = e2" using assms sc
      by (cases e1; cases e2)
        (auto simp: event_kind event_ok_def dest: le_bytes_inj intro: encode_utf8_inj)
  qed simp
  show "length (encode_event e1) \<le> 5"
    by (cases e1) (simp_all add: encode_utf8_length)
qed

theorem encode_event_faithful_witness:
  "encode_event (Char 233) = [1, 0xC3, 0xA9] \<and> encode_event (Char 233) \<noteq> encode_event (Char 234) \<and>
   encode_event (Resize 258 1) = [11, 2, 1, 1, 0]"
  using encode_event_faithful [of "Char 233" "Char 234"]
  by (simp add: event_ok_def is_scalar_def event_kind encode_utf8_def le_bytes_def upt_rec)

end
