(* ===== verification/Crypto_Utils.thy ===== *)
theory Crypto_Utils
  imports Prelude Utf8
begin

text \<open>
  \<open>src/crypto_utils.rs\<close>: key rendering (\<open>to_hex\<close>, \<open>short_id\<close>,
  \<open>format_public_key\<close>, \<open>public_key_to_ed25519_vk\<close>) and key files. The cryptographic
  primitives and the PEM, PKCS#8, base64 and OpenSSH codecs are crates: they are the fields of
  the records \<open>crypto\<close> and \<open>key_codec\<close>, arguments of every definition that calls them.
  What the program relies on is \<open>ed25519_laws\<close>, the documented behaviour of
  ed25519-dalek.
\<close>

section \<open>The crates as parameters\<close>

text \<open>
  A verifying key is its 32 bytes (\<open>as_bytes\<close>), a signing key its 32 secret bytes.
  \<open>cr_vk_ok\<close> is success of \<open>VerifyingKey::from_bytes\<close>, \<open>cr_sig_ok\<close> success of
  \<open>Signature::from_slice\<close>.
\<close>

record crypto =
  cr_sha256 :: "bytes \<Rightarrow> bytes"
  cr_vk_ok :: "bytes \<Rightarrow> bool"
  cr_sig_ok :: "bytes \<Rightarrow> bool"
  cr_verify :: "bytes \<Rightarrow> bytes \<Rightarrow> bytes \<Rightarrow> bool"
  cr_sign :: "bytes \<Rightarrow> bytes \<Rightarrow> bytes"
  cr_verifying_key :: "bytes \<Rightarrow> bytes"

definition ed25519_laws :: "crypto \<Rightarrow> bool" where
  "ed25519_laws cr \<longleftrightarrow>
     (\<forall>sk. length (cr_verifying_key cr sk) = 32 \<and> cr_vk_ok cr (cr_verifying_key cr sk)) \<and>
     (\<forall>sk m. cr_sig_ok cr (cr_sign cr sk m)) \<and>
     (\<forall>sk m. cr_verify cr (cr_verifying_key cr sk) m (cr_sign cr sk m))"

lemma ed25519_lawsD:
  assumes "ed25519_laws cr"
  shows "length (cr_verifying_key cr sk) = 32" "cr_vk_ok cr (cr_verifying_key cr sk)"
    "cr_sig_ok cr (cr_sign cr sk m)" "cr_verify cr (cr_verifying_key cr sk) m (cr_sign cr sk m)"
  using assms by (auto simp: ed25519_laws_def)

text \<open>A concrete instance of the laws, for the witnesses: a key verifies the padded copy of the
  key and the message.\<close>

definition demo_crypto :: crypto where
  "demo_crypto = \<lparr>cr_sha256 = (\<lambda>m. m), cr_vk_ok = (\<lambda>k. length k = 32),
     cr_sig_ok = (\<lambda>s. length s = 64),
     cr_verify = (\<lambda>k m s. s = take 64 (k @ m @ replicate 64 0)),
     cr_sign = (\<lambda>sk m. take 64 (take 32 (sk @ replicate 32 0) @ m @ replicate 64 0)),
     cr_verifying_key = (\<lambda>sk. take 32 (sk @ replicate 32 0))\<rparr>"

lemma demo_crypto_laws: "ed25519_laws demo_crypto"
  by (auto simp: ed25519_laws_def demo_crypto_def min_def)

section \<open>Rendering keys\<close>

definition hex_digit :: "u8 \<Rightarrow> char" where
  "hex_digit n = ''0123456789abcdef'' ! unat n"

text \<open>\<open>format!("{:02x}", b)\<close>\<close>

definition hex2 :: "u8 \<Rightarrow> string" where
  "hex2 b = [hex_digit (b div 16), hex_digit (b mod 16)]"

definition to_hex :: "bytes \<Rightarrow> string" where
  "to_hex bs = concat (map hex2 bs)"

definition short_id :: "bytes \<Rightarrow> string" where
  "short_id pubkey = to_hex (take (min (length pubkey) 4) pubkey)"

lemma hex_digit_inj:
  assumes "a < 16" and "b < 16" and "hex_digit a = hex_digit b"
  shows "a = b"
proof -
  have "unat a < 16" "unat b < 16" using assms(1,2) by (simp_all add: word_less_nat_alt)
  moreover have "distinct ''0123456789abcdef''" by simp
  ultimately have "unat a = unat b"
    using assms(3) nth_eq_iff_index_eq [of "''0123456789abcdef''" "unat a" "unat b"]
    by (simp add: hex_digit_def)
  then show ?thesis by (simp only: word_unat_eq_iff)
qed

lemma hex2_inj: "hex2 a = hex2 b \<Longrightarrow> a = b"
proof -
  assume eq: "hex2 a = hex2 b"
  have d: "x div 16 < 16" and m: "x mod 16 < 16" for x :: u8
  proof -
    show "x div 16 < 16" "x mod 16 < 16"
      using unat_u8_less [of x] by (simp_all add: word_less_nat_alt unat_div unat_mod)
  qed
  from eq have "hex_digit (a div 16) = hex_digit (b div 16)" "hex_digit (a mod 16) = hex_digit (b mod 16)"
    by (simp_all add: hex2_def)
  then have "a div 16 = b div 16" "a mod 16 = b mod 16"
    using hex_digit_inj d m by blast+
  then show "a = b" by (metis div_mult_mod_eq)
qed

lemma to_hex_Nil [simp]: "to_hex [] = []"
  by (simp add: to_hex_def)

lemma to_hex_Cons: "to_hex (b # bs) = hex2 b @ to_hex bs"
  by (simp add: to_hex_def)

lemma length_to_hex: "length (to_hex bs) = 2 * length bs"
  by (induction bs) (simp_all add: to_hex_Cons hex2_def)

lemma to_hex_inj: "to_hex a = to_hex b \<longleftrightarrow> a = b"
proof
  show "to_hex a = to_hex b \<Longrightarrow> a = b"
  proof (induction a arbitrary: b)
    case Nil
    then have "length (to_hex b) = 0" by (metis list.size(3) to_hex_Nil)
    then show ?case by (simp add: length_to_hex)
  next
    case (Cons x xs)
    have "length (to_hex b) = 2 * length (x # xs)" using Cons.prems length_to_hex by metis
    then obtain y ys where b: "b = y # ys" by (cases b) (auto simp: length_to_hex)
    have "hex2 x = hex2 y" and "to_hex xs = to_hex ys"
      using Cons.prems by (auto simp: b to_hex_Cons hex2_def)
    with Cons.IH b show ?case using hex2_inj by blast
  qed
qed simp

text \<open>Hex rendering identifies a key: the registry key of a peer (\<open>to_hex\<close> of its public
  key) is the same for two keys only if the keys are the same, so two identities never share a
  peer entry, while a short id is only the first eight digits of it.\<close>

theorem hex_identifies_key:
  "(to_hex a = to_hex b \<longleftrightarrow> a = b) \<and> length (to_hex a) = 2 * length a \<and>
   short_id a = take 8 (to_hex a)"
proof -
  have "to_hex (take n a) = take (2 * n) (to_hex a)" for n
  proof (induction a arbitrary: n)
    case (Cons x xs)
    show ?case by (cases n) (simp_all add: to_hex_Cons hex2_def Cons.IH)
  qed simp
  from this [of 4] have "short_id a = take 8 (to_hex a)"
    by (auto simp: short_id_def min_def length_to_hex)
  then show ?thesis by (simp add: to_hex_inj length_to_hex)
qed

section \<open>OpenSSH strings\<close>

text \<open>Rust's \<open>u32::to_be_bytes\<close>.\<close>

definition be32 :: "u32 \<Rightarrow> bytes" where
  "be32 w = rev (le_bytes 4 w)"

text \<open>The wire form inside an \<open>ssh-ed25519\<close> string; \<open>base64_enc\<close> is the crate. The
  empty comment and the trailing space are trimmed away again by the source.\<close>

definition ssh_wire :: "bytes \<Rightarrow> bytes" where
  "ssh_wire vk =
     be32 (of_nat (length ''ssh-ed25519'')) @ as_bytes ''ssh-ed25519'' @
     be32 (of_nat (length vk)) @ vk"

definition format_public_key :: "(bytes \<Rightarrow> string) \<Rightarrow> crypto \<Rightarrow> bytes \<Rightarrow> string" where
  "format_public_key base64_enc cr sk =
     trim (''ssh-ed25519 '' @ base64_enc (ssh_wire (cr_verifying_key cr sk)) @ '' '')"

text \<open>What the ssh-key crate returns for a public key string.\<close>

datatype ssh_key_data = Ed25519 bytes | OtherKey

datatype key_error =
    SshParse
  | NotEd25519
  | BadVerifyingKey
  | ReadFailed
  | PemParse
  | NotPrivateKeyLabel
  | Pkcs8Parse
  | OctetStringParse
  | KeyLength nat

definition public_key_to_ed25519_vk ::
  "(string \<Rightarrow> ssh_key_data option) \<Rightarrow> crypto \<Rightarrow> string \<Rightarrow> key_error + bytes" where
  "public_key_to_ed25519_vk from_openssh cr public_key =
     (case from_openssh public_key of
        None \<Rightarrow> Inl SshParse
      | Some OtherKey \<Rightarrow> Inl NotEd25519
      | Some (Ed25519 k) \<Rightarrow> if cr_vk_ok cr k then Inr k else Inl BadVerifyingKey)"

section \<open>Key files\<close>

text \<open>Reading a file, the PEM parser (tag and contents), the PKCS#8 and OCTET STRING decoders.\<close>

record key_codec =
  kc_read :: "string \<Rightarrow> string option"
  kc_pem :: "string \<Rightarrow> (string \<times> bytes) option"
  kc_pkcs8 :: "bytes \<Rightarrow> bytes option"
  kc_octets :: "bytes \<Rightarrow> bytes option"

definition read_private_key_ed25519_pem_file :: "key_codec \<Rightarrow> string \<Rightarrow> key_error + bytes" where
  "read_private_key_ed25519_pem_file kc keyfile =
     (case kc_read kc keyfile of
        None \<Rightarrow> Inl ReadFailed
      | Some contents \<Rightarrow>
     (case kc_pem kc contents of
        None \<Rightarrow> Inl PemParse
      | Some (tag, der) \<Rightarrow>
          if tag \<noteq> ''PRIVATE KEY'' then Inl NotPrivateKeyLabel
          else
     (case kc_pkcs8 kc der of
        None \<Rightarrow> Inl Pkcs8Parse
      | Some private_key_bytes \<Rightarrow>
     (case kc_octets kc private_key_bytes of
        None \<Rightarrow> Inl OctetStringParse
      | Some key_bytes \<Rightarrow>
          if length key_bytes \<noteq> 32 then Inl (KeyLength (length key_bytes))
          else Inr key_bytes))))"

text \<open>The public reader repeats every step of the private one and derives the verifying key.\<close>

definition read_public_key_ed25519_pem_file ::
  "key_codec \<Rightarrow> crypto \<Rightarrow> string \<Rightarrow> key_error + bytes" where
  "read_public_key_ed25519_pem_file kc cr keyfile =
     (case kc_read kc keyfile of
        None \<Rightarrow> Inl ReadFailed
      | Some contents \<Rightarrow>
     (case kc_pem kc contents of
        None \<Rightarrow> Inl PemParse
      | Some (tag, der) \<Rightarrow>
          if tag \<noteq> ''PRIVATE KEY'' then Inl NotPrivateKeyLabel
          else
     (case kc_pkcs8 kc der of
        None \<Rightarrow> Inl Pkcs8Parse
      | Some private_key_bytes \<Rightarrow>
     (case kc_octets kc private_key_bytes of
        None \<Rightarrow> Inl OctetStringParse
      | Some key_bytes \<Rightarrow>
          if length key_bytes \<noteq> 32 then Inl (KeyLength (length key_bytes))
          else Inr (cr_verifying_key cr key_bytes)))))"

lemma read_public_key_of_private:
  "read_public_key_ed25519_pem_file kc cr f =
     map_sum id (cr_verifying_key cr) (read_private_key_ed25519_pem_file kc f)"
  by (simp add: read_public_key_ed25519_pem_file_def read_private_key_ed25519_pem_file_def
      split: option.splits)

lemma read_private_key_length:
  "read_private_key_ed25519_pem_file kc f = Inr k \<Longrightarrow> length k = 32"
  by (auto simp: read_private_key_ed25519_pem_file_def split: option.splits if_splits)

text \<open>The OpenSSH string is read back to the key it was written from, for any codec pair that
  inverts base64 and the wire form; this is what pinning a peer's key relies on.\<close>

lemma openssh_round_trip:
  assumes "ed25519_laws cr"
    and "\<And>vk. length vk = 32 \<Longrightarrow>
      from_openssh (trim (''ssh-ed25519 '' @ base64_enc (ssh_wire vk) @ '' '')) = Some (Ed25519 vk)"
  shows "public_key_to_ed25519_vk from_openssh cr (format_public_key base64_enc cr sk) =
         Inr (cr_verifying_key cr sk)"
proof -
  have "from_openssh (format_public_key base64_enc cr sk) = Some (Ed25519 (cr_verifying_key cr sk))"
    unfolding format_public_key_def by (rule assms(2)) (rule ed25519_lawsD(1) [OF assms(1)])
  then show ?thesis by (simp add: public_key_to_ed25519_vk_def ed25519_lawsD [OF assms(1)])
qed

end
