(* ===== verification/Identity.thy ===== *)
theory Identity
  imports Crypto_Utils
begin

text \<open>
  Signed identities, \<open>IdentityData\<close> of \<open>src/config.rs\<close>: what is signed, how an identity
  is generated from the configured key, how its self-signature is checked, and the payload
  signatures of fabric messages.
\<close>

section \<open>Operations\<close>

record identity_data =
  id_human_name :: string
  id_generated_at :: u64
  id_validity_s :: u16
  id_key_fmt :: string
  id_public_key :: bytes
  id_signature :: bytes

text \<open>The bytes fed to SHA-256, in the source's order.\<close>

definition identity_hash_input :: "string \<Rightarrow> u64 \<Rightarrow> u16 \<Rightarrow> string \<Rightarrow> bytes \<Rightarrow> bytes" where
  "identity_hash_input human_name generated_at validity_s fmt public_key =
     as_bytes human_name @ le64 generated_at @ le16 validity_s @ as_bytes fmt @ public_key"

definition sign_identity_data ::
  "crypto \<Rightarrow> bytes \<Rightarrow> string \<Rightarrow> u64 \<Rightarrow> u16 \<Rightarrow> string \<Rightarrow> bytes \<Rightarrow> bytes" where
  "sign_identity_data cr signing_key human_name generated_at validity_s fmt public_key =
     cr_sign cr signing_key
       (cr_sha256 cr (identity_hash_input human_name generated_at validity_s fmt public_key))"

text \<open>The two key files are read separately, the public key first.\<close>

definition generate_from_config ::
  "crypto \<Rightarrow> key_codec \<Rightarrow> string \<Rightarrow> string \<Rightarrow> u64 \<Rightarrow> key_error + identity_data" where
  "generate_from_config cr kc name keyfile now =
     (case read_public_key_ed25519_pem_file kc cr keyfile of
        Inl e \<Rightarrow> Inl e
      | Inr public_key \<Rightarrow>
     (case read_private_key_ed25519_pem_file kc keyfile of
        Inl e \<Rightarrow> Inl e
      | Inr private_key \<Rightarrow>
          Inr \<lparr>id_human_name = name, id_generated_at = now, id_validity_s = - 1,
               id_key_fmt = ''ed25519'', id_public_key = public_key,
               id_signature =
                 sign_identity_data cr private_key name now (- 1) ''ed25519'' public_key\<rparr>))"

datatype sig_error = BadKeyLength | BadKey | BadSignatureBytes | SignatureMismatch

text \<open>The tail both checks share: key length, key, signature bytes, verification.\<close>

definition verify_hash :: "crypto \<Rightarrow> bytes \<Rightarrow> bytes \<Rightarrow> bytes \<Rightarrow> sig_error + unit" where
  "verify_hash cr public_key hash signature =
     (if length public_key \<noteq> 32 then Inl BadKeyLength
      else if \<not> cr_vk_ok cr public_key then Inl BadKey
      else if \<not> cr_sig_ok cr signature then Inl BadSignatureBytes
      else if \<not> cr_verify cr public_key hash signature then Inl SignatureMismatch
      else Inr ())"

definition check_self_signature :: "crypto \<Rightarrow> identity_data \<Rightarrow> sig_error + unit" where
  "check_self_signature cr i =
     verify_hash cr (id_public_key i)
       (cr_sha256 cr (identity_hash_input (id_human_name i) (id_generated_at i)
          (id_validity_s i) (id_key_fmt i) (id_public_key i)))
       (id_signature i)"

definition check_self_signature_b :: "crypto \<Rightarrow> identity_data \<Rightarrow> bool" where
  "check_self_signature_b cr i =
     (case check_self_signature cr i of Inl _ \<Rightarrow> False | Inr _ \<Rightarrow> True)"

definition sign_payload :: "crypto \<Rightarrow> bytes \<Rightarrow> bytes \<Rightarrow> bytes \<Rightarrow> bytes" where
  "sign_payload cr signing_key id_bytes payload =
     cr_sign cr signing_key (cr_sha256 cr (id_bytes @ payload))"

definition verify_payload ::
  "crypto \<Rightarrow> identity_data \<Rightarrow> bytes \<Rightarrow> bytes \<Rightarrow> bytes \<Rightarrow> sig_error + unit" where
  "verify_payload cr i id_bytes payload signature =
     verify_hash cr (id_public_key i) (cr_sha256 cr (id_bytes @ payload)) signature"

section \<open>Lemmas\<close>

lemma verify_hash_ok:
  "verify_hash cr k h s = Inr u \<longleftrightarrow>
     length k = 32 \<and> cr_vk_ok cr k \<and> cr_sig_ok cr s \<and> cr_verify cr k h s"
  by (simp add: verify_hash_def)

lemma verify_hash_signed:
  "ed25519_laws cr \<Longrightarrow> verify_hash cr (cr_verifying_key cr sk) h (cr_sign cr sk h) = Inr ()"
  by (simp add: verify_hash_ok ed25519_lawsD)

lemma check_self_signature_key_length:
  "check_self_signature cr i = Inr u \<Longrightarrow> length (id_public_key i) = 32"
  by (simp add: check_self_signature_def verify_hash_ok)

lemma identity_hash_input_inj:
  assumes "identity_hash_input n e v f k = identity_hash_input n' e' v' f' k'"
    and "length n = length n'" and "length f = length f'"
  shows "n = n' \<and> e = e' \<and> v = v' \<and> f = f' \<and> k = k'"
  using assms by (auto simp: identity_hash_input_def dest: le_bytes_inj)

section \<open>Properties\<close>

text \<open>An identity generated from a readable key file passes its own check on every machine,
  carries the key file's public key and the configured name, and a payload signed with that key
  file verifies against it: generation, self-check, signing and verification agree on the signed
  bytes.\<close>

theorem generated_identity_verifies:
  assumes "ed25519_laws cr"
    and "read_private_key_ed25519_pem_file kc keyfile = Inr sk"
  shows "\<exists>i. generate_from_config cr kc name keyfile now = Inr i \<and>
           check_self_signature cr i = Inr () \<and> id_human_name i = name \<and>
           id_public_key i = cr_verifying_key cr sk \<and>
           verify_payload cr i nonce payload (sign_payload cr sk nonce payload) = Inr ()"
proof -
  have "read_public_key_ed25519_pem_file kc cr keyfile = Inr (cr_verifying_key cr sk)"
    by (simp add: read_public_key_of_private assms(2))
  then show ?thesis
    using assms by (simp add: generate_from_config_def check_self_signature_def verify_payload_def
        sign_payload_def sign_identity_data_def verify_hash_signed)
qed

definition demo_key_codec :: key_codec where
  "demo_key_codec = \<lparr>kc_read = (\<lambda>p. if p = ''id.pem'' then Some ''pem'' else None),
     kc_pem = (\<lambda>_. Some (''PRIVATE KEY'', [1])), kc_pkcs8 = (\<lambda>d. Some d),
     kc_octets = (\<lambda>d. Some (replicate 32 7))\<rparr>"

theorem generated_identity_verifies_witness:
  "\<exists>i. generate_from_config demo_crypto demo_key_codec ''node'' ''id.pem'' 9 = Inr i \<and>
       check_self_signature demo_crypto i = Inr () \<and> id_human_name i = ''node''"
  using generated_identity_verifies [OF demo_crypto_laws, of demo_key_codec "''id.pem''" "replicate 32 7" "''node''" 9]
  by (auto simp: read_private_key_ed25519_pem_file_def demo_key_codec_def)

text \<open>What the self-signature binds. With the lengths of the name and of the format hint
  fixed, the signed bytes determine every field, so changing any field of an identity changes what
  has to be signed.\<close>

theorem signed_bytes_bind_fields:
  fixes i j :: identity_data
  assumes "length (id_human_name i) = length (id_human_name j)"
    and "length (id_key_fmt i) = length (id_key_fmt j)"
    and "identity_hash_input (id_human_name i) (id_generated_at i) (id_validity_s i) (id_key_fmt i) (id_public_key i) =
         identity_hash_input (id_human_name j) (id_generated_at j) (id_validity_s j) (id_key_fmt j) (id_public_key j)"
    and "id_signature i = id_signature j"
  shows "i = j"
  using identity_hash_input_inj [OF assms(3,1,2)] assms(4) by (cases i; cases j; simp)

definition demo_identity :: identity_data where
  "demo_identity = \<lparr>id_human_name = ''alice'', id_generated_at = 1760000000, id_validity_s = - 1,
     id_key_fmt = ''ed25519'', id_public_key = replicate 32 7,
     id_signature = cr_sign demo_crypto (replicate 32 7)
       (identity_hash_input ''alice'' 1760000000 (- 1) ''ed25519'' (replicate 32 7))\<rparr>"

theorem signed_bytes_bind_fields_witness:
  "demo_identity = demo_identity\<lparr>id_human_name := ''alice''\<rparr>"
  by (rule signed_bytes_bind_fields) (simp_all add: demo_identity_def)

text \<open>
  The lengths are not part of the signed bytes. Moving every field boundary after the name one
  byte to the right gives another identity with the same signed bytes: one byte of the timestamp
  joins the name, one of the validity the timestamp, one of the format hint the validity.
\<close>

definition shift_fields :: "identity_data \<Rightarrow> identity_data" where
  "shift_fields i =
     i\<lparr>id_human_name := id_human_name i @ [char_of_byte (ucast (id_generated_at i))],
       id_generated_at := drop_bit 8 (id_generated_at i) OR push_bit 56 (ucast (id_validity_s i)),
       id_validity_s := drop_bit 8 (id_validity_s i) OR
         push_bit 8 (ucast (byte_of_char (hd (id_key_fmt i)))),
       id_key_fmt := tl (id_key_fmt i)\<rparr>"

lemma shift_bytes64:
  "ucast e # le64 (drop_bit 8 e OR push_bit 56 (ucast (v :: u16))) = le64 e @ [ucast v]"
proof -
  have u: "[0..<8] = [0, 1, 2, 3, 4, 5, 6, 7::nat]" by (simp add: upt_rec)
  show ?thesis unfolding le_bytes_def u
    by (auto intro!: bit_word_eqI simp: bit_simps)
qed

lemma shift_bytes16:
  "ucast v # le16 (drop_bit 8 v OR push_bit 8 (ucast (b :: u8))) = le16 v @ [b]"
proof -
  have u: "[0..<2] = [0, 1::nat]" by (simp add: upt_rec)
  show ?thesis unfolding le_bytes_def u
    by (auto intro!: bit_word_eqI simp: bit_simps)
qed

lemma shift_fields_input:
  assumes "id_key_fmt i \<noteq> []"
  shows "identity_hash_input (id_human_name (shift_fields i)) (id_generated_at (shift_fields i))
           (id_validity_s (shift_fields i)) (id_key_fmt (shift_fields i)) (id_public_key i) =
         identity_hash_input (id_human_name i) (id_generated_at i) (id_validity_s i) (id_key_fmt i)
           (id_public_key i)"
proof -
  obtain c f where f: "id_key_fmt i = c # f" using assms by (cases "id_key_fmt i") auto
  define e where "e = id_generated_at i"
  define v where "v = id_validity_s i"
  define e' where "e' = drop_bit 8 e OR push_bit 56 (ucast v)"
  define v' where "v' = drop_bit 8 v OR push_bit 8 (ucast (byte_of_char c))"
  have "as_bytes [char_of_byte (ucast e)] @ le64 e' @ le16 v' =
      (ucast e # le64 e') @ le16 v'" by (simp add: as_bytes_def)
  also have "\<dots> = le64 e @ (ucast v # le16 v')"
    by (simp only: e'_def shift_bytes64) simp
  also have "\<dots> = le64 e @ le16 v @ [byte_of_char c]"
    by (simp only: v'_def shift_bytes16)
  finally have "as_bytes [char_of_byte (ucast e)] @ le64 e' @ le16 v' @ as_bytes f @ id_public_key i =
      le64 e @ le16 v @ byte_of_char c # as_bytes f @ id_public_key i"
    by (metis append.assoc append_Cons append_Nil)
  then show ?thesis
    by (simp add: identity_hash_input_def shift_fields_def f as_bytes_Cons
        flip: e_def v_def e'_def v'_def)
qed

text \<open>The converse fails. The signed bytes are the bare concatenation of the fields, and the
  format hint is never compared with anything, so for every identity with a non-empty hint there
  is another one, with a longer name, a different timestamp, the same key and the same signature,
  that the check accepts exactly when it accepts the first: an identity seen on the fabric can be
  replayed under a name its owner never signed.\<close>

theorem signature_does_not_fix_name:
  assumes "id_key_fmt i \<noteq> []"
  shows "check_self_signature cr (shift_fields i) = check_self_signature cr i \<and>
         id_human_name (shift_fields i) \<noteq> id_human_name i \<and>
         id_signature (shift_fields i) = id_signature i \<and>
         id_public_key (shift_fields i) = id_public_key i"
proof -
  have "check_self_signature cr (shift_fields i) = check_self_signature cr i"
    using shift_fields_input [OF assms] by (simp add: check_self_signature_def) (simp add: shift_fields_def)
  then show ?thesis by (simp add: shift_fields_def)
qed

theorem signature_does_not_fix_name_witness:
  "check_self_signature demo_crypto (shift_fields demo_identity) = Inr () \<and>
   id_human_name (shift_fields demo_identity) = ''alice'' @ [CHR 0x00]"
proof -
  have ok: "check_self_signature demo_crypto demo_identity = Inr ()"
    by (simp add: check_self_signature_def verify_hash_ok demo_identity_def demo_crypto_def)
  have "id_key_fmt demo_identity \<noteq> []" by (simp add: demo_identity_def)
  from signature_does_not_fix_name [OF this, of demo_crypto] ok show ?thesis
    by (simp add: shift_fields_def demo_identity_def char_of_byte_def char_of_def)
qed

end
