(* ===== verification/Program.thy ===== *)
theory Program
  imports Identity
begin

text \<open>
  Programs and messages: \<open>ProgramData\<close> and its builder (\<open>src/executor/mod.rs\<close>) and
  \<open>NetworkMessage\<close> (\<open>src/messages/mod.rs\<close>). serde_bare, which turns messages into
  datagrams, is a crate: the record \<open>bare_codec\<close>.
\<close>

record program_data =
  pd_source :: identity_data
  pd_human_name :: string
  pd_wasm_program_bytes :: bytes
  pd_signature :: bytes
  pd_request_uuid :: bytes
  pd_depth_budget :: u8
  pd_visited :: "bytes list"
  pd_arg_list :: "string list"
  pd_arg_map :: "(string \<times> string) list"

record program_data_builder =
  pb_source :: "identity_data option"
  pb_human_name :: string
  pb_wasm_program_bytes :: bytes
  pb_signature :: bytes
  pb_request_uuid :: bytes
  pb_depth_budget :: u8
  pb_visited :: "bytes list"
  pb_arg_list :: "string list"
  pb_arg_map :: "(string \<times> string) list"

definition builder_new :: program_data_builder where
  "builder_new = \<lparr>pb_source = None, pb_human_name = ''UNSET_NAME'', pb_wasm_program_bytes = [],
     pb_signature = [], pb_request_uuid = replicate 16 0, pb_depth_budget = 0, pb_visited = [],
     pb_arg_list = [], pb_arg_map = []\<rparr>"

definition set_args ::
  "string list \<Rightarrow> (string \<times> string) list \<Rightarrow> program_data_builder \<Rightarrow> program_data_builder" where
  "set_args arg_list arg_map b = b\<lparr>pb_arg_list := arg_list, pb_arg_map := arg_map\<rparr>"

definition set_request_context ::
  "bytes \<Rightarrow> u8 \<Rightarrow> bytes list \<Rightarrow> program_data_builder \<Rightarrow> program_data_builder" where
  "set_request_context request_uuid depth_budget visited b =
     b\<lparr>pb_request_uuid := request_uuid, pb_depth_budget := depth_budget, pb_visited := visited\<rparr>"

definition set_source :: "identity_data \<Rightarrow> program_data_builder \<Rightarrow> program_data_builder" where
  "set_source source b = b\<lparr>pb_source := Some source\<rparr>"

definition set_human_name :: "string \<Rightarrow> program_data_builder \<Rightarrow> program_data_builder" where
  "set_human_name name b = b\<lparr>pb_human_name := name\<rparr>"

definition set_wasm_program_bytes :: "bytes \<Rightarrow> program_data_builder \<Rightarrow> program_data_builder" where
  "set_wasm_program_bytes wasm b = b\<lparr>pb_wasm_program_bytes := wasm\<rparr>"

definition set_signature :: "bytes \<Rightarrow> program_data_builder \<Rightarrow> program_data_builder" where
  "set_signature signature b = b\<lparr>pb_signature := signature\<rparr>"

text \<open>\<open>None\<close> is the error "source is None".\<close>

definition builder_build :: "program_data_builder \<Rightarrow> program_data option" where
  "builder_build b =
     (case pb_source b of
        None \<Rightarrow> None
      | Some source \<Rightarrow>
          Some \<lparr>pd_source = source, pd_human_name = pb_human_name b,
            pd_wasm_program_bytes = pb_wasm_program_bytes b, pd_signature = pb_signature b,
            pd_request_uuid = pb_request_uuid b, pd_depth_budget = pb_depth_budget b,
            pd_visited = pb_visited b, pd_arg_list = pb_arg_list b, pd_arg_map = pb_arg_map b\<rparr>)"

lemmas builder_defs = builder_new_def set_args_def set_request_context_def set_source_def
  set_human_name_def set_wasm_program_bytes_def set_signature_def builder_build_def

section \<open>Messages\<close>

datatype network_message =
    ExecuteRequest program_data
  | BasicInsecureProgramStdout u64 bytes
  | BasicInsecureProgramExit u64 u32
  | BasicReturnMap u64 bytes bytes
  | BasicReturnList u64 bytes bytes
  | SignedFabricMessage identity_data bytes bytes bytes

record bare_codec =
  ba_to_vec :: "network_message \<Rightarrow> bytes option"
  ba_from_slice :: "bytes \<Rightarrow> network_message option"

definition bare_round_trips :: "bare_codec \<Rightarrow> network_message \<Rightarrow> bool" where
  "bare_round_trips ba m \<longleftrightarrow> (\<forall>b. ba_to_vec ba m = Some b \<longrightarrow> ba_from_slice ba b = Some m)"

text \<open>A codec for the witnesses: one message and its bytes.\<close>

definition demo_bare :: "network_message \<Rightarrow> bytes \<Rightarrow> bare_codec" where
  "demo_bare m b = \<lparr>ba_to_vec = (\<lambda>n. if n = m then Some b else None),
     ba_from_slice = (\<lambda>c. if c = b then Some m else None)\<rparr>"

lemma demo_bare_round_trips: "bare_round_trips (demo_bare m b) n"
  by (simp add: bare_round_trips_def demo_bare_def)

end
