(* ===== verification/Cbor.thy ===== *)
theory Cbor
  imports Prelude
begin

text \<open>
  The CBOR values the program builds and matches on (\<open>serde_cbor::Value\<close>), and its encoder
  and decoder as a parameter: serde_cbor is a crate. A map is the association list of a
  \<open>BTreeMap\<close>. The program relies on decoding what it encoded, stated for the value at hand
  (\<open>cbor_round_trips\<close>).
\<close>

datatype cbor =
    CNull
  | CBool bool
  | CInteger int
  | CFloat u64
  | CBytes bytes
  | CText string
  | CArray "cbor list"
  | CMap "(cbor \<times> cbor) list"
  | CTag u64 cbor

record cbor_codec =
  cb_to_vec :: "cbor \<Rightarrow> bytes option"
  cb_from_slice :: "bytes \<Rightarrow> cbor option"

definition cbor_round_trips :: "cbor_codec \<Rightarrow> cbor \<Rightarrow> bool" where
  "cbor_round_trips cb v \<longleftrightarrow> (\<forall>b. cb_to_vec cb v = Some b \<longrightarrow> cb_from_slice cb b = Some v)"

text \<open>\<open>map.get(&Value::Integer(k))\<close>\<close>

definition cbor_get :: "int \<Rightarrow> (cbor \<times> cbor) list \<Rightarrow> cbor option" where
  "cbor_get k m = map_of m (CInteger k)"

text \<open>A codec for the witnesses: it knows two values, and decodes what it encodes.\<close>

definition demo_codec :: "cbor \<Rightarrow> bytes \<Rightarrow> cbor_codec" where
  "demo_codec v b = \<lparr>cb_to_vec = (\<lambda>w. if w = v then Some b else None),
     cb_from_slice = (\<lambda>c. if c = b then Some v else None)\<rparr>"

lemma demo_codec_round_trips: "cbor_round_trips (demo_codec v b) w"
  by (simp add: cbor_round_trips_def demo_codec_def)

end
