(* ===== verification/Discovery.thy ===== *)
theory Discovery
  imports Cbor Crypto_Utils
begin

text \<open>
  The rules of recursive discovery, \<open>src/discovery.rs\<close>: the per-edge depth budget and the
  signed node attestation.
\<close>

section \<open>Depth budgets\<close>

definition TRUSTED_FORWARD_DEPTH :: u8 where "TRUSTED_FORWARD_DEPTH = 8"
definition UNTRUSTED_FORWARD_DEPTH :: u8 where "UNTRUSTED_FORWARD_DEPTH = 2"

definition trust_cap :: "bool \<Rightarrow> u8" where
  "trust_cap trusted = (if trusted then TRUSTED_FORWARD_DEPTH else UNTRUSTED_FORWARD_DEPTH)"

definition initial_depth_budget :: "bool \<Rightarrow> u8" where
  "initial_depth_budget origin_trusts_peer = trust_cap origin_trusts_peer"

definition child_depth_budget :: "u8 \<Rightarrow> bool \<Rightarrow> u8" where
  "child_depth_budget parent_remaining forwarder_trusts_peer =
     (if parent_remaining = 0 then 0
      else min (parent_remaining - 1) (trust_cap forwarder_trusts_peer))"

lemmas depth_defs = trust_cap_def TRUSTED_FORWARD_DEPTH_def UNTRUSTED_FORWARD_DEPTH_def
  initial_depth_budget_def

text \<open>
  The contract of a budget rule: a grant is one less than the granter's budget at most and never
  above the cap of the edge. Any such rule ends every chain.
\<close>

locale depth_rule =
  fixes grant :: "u8 \<Rightarrow> bool \<Rightarrow> u8" and cap :: "bool \<Rightarrow> u8"
  assumes grant_exact: "unat (grant b t) = min (unat b - 1) (unat (cap t))"
begin

lemma grant_decreases: "b \<noteq> 0 \<Longrightarrow> grant b t < b"
proof -
  assume "b \<noteq> 0"
  then have "0 < unat b" by (simp add: unat_gt_0)
  then show ?thesis using grant_exact [of b t] by (simp add: word_less_nat_alt)
qed

text \<open>The budget after the edges \<open>ts\<close> still covers \<open>k\<close> hops exactly when the first
  budget covers all of them and every edge's cap covers what followed it.\<close>

lemma chain_exact:
  "0 < k \<Longrightarrow> k \<le> unat (fold (\<lambda>t b. grant b t) ts b) \<longleftrightarrow>
     k + length ts \<le> unat b \<and>
     (\<forall>j < length ts. k + (length ts - 1 - j) \<le> unat (cap (ts ! j)))"
proof (induction ts arbitrary: k rule: rev_induct)
  case (snoc t ts)
  let ?x = "unat (fold (\<lambda>t b. grant b t) ts b)"
  have "k \<le> unat (fold (\<lambda>t b. grant b t) (ts @ [t]) b) \<longleftrightarrow> k + 1 \<le> ?x \<and> k \<le> unat (cap t)"
    using snoc.prems by (auto simp: grant_exact)
  also have "k + 1 \<le> ?x \<longleftrightarrow> k + 1 + length ts \<le> unat b \<and>
      (\<forall>j < length ts. k + 1 + (length ts - 1 - j) \<le> unat (cap (ts ! j)))"
    by (rule snoc.IH) simp
  finally show ?case by (auto simp: nth_append less_Suc_eq Suc_diff_Suc)
qed simp

lemma chain_ends:
  assumes "unat b \<le> length ts"
  shows "fold (\<lambda>t b. grant b t) ts b = 0"
  using chain_exact [of 1 ts b] assms by (simp add: Suc_le_eq unat_gt_0)

end

interpretation dr: depth_rule child_depth_budget trust_cap
proof
  fix b t
  show "unat (child_depth_budget b t) = min (unat b - 1) (unat (trust_cap t))"
    by (auto simp: child_depth_budget_def min_def word_le_nat_alt unat_minus_one)
qed

section \<open>Node attestations\<close>

definition HOSTNAME :: int where "HOSTNAME = 1"
definition PUBKEY :: int where "PUBKEY = 2"
definition EPOCH_S :: int where "EPOCH_S = 3"
definition SIGNATURE :: int where "SIGNATURE = 4"

lemmas attest_keys = HOSTNAME_def PUBKEY_def EPOCH_S_def SIGNATURE_def

definition ATTESTATION_WINDOW_HALF_S :: u64 where "ATTESTATION_WINDOW_HALF_S = 30"

definition attestation_signing_bytes :: "string \<Rightarrow> bytes \<Rightarrow> u64 \<Rightarrow> bytes" where
  "attestation_signing_bytes hostname pubkey epoch_s =
     as_bytes (''weverywhere-node-attest-v1'' @ [CHR 0x0A]) @ as_bytes hostname @ [0x0A] @
     pubkey @ [0x0A] @ le64 epoch_s"

definition attestation_value :: "string \<Rightarrow> bytes \<Rightarrow> u64 \<Rightarrow> bytes \<Rightarrow> cbor" where
  "attestation_value hostname pubkey epoch_s signature =
     CMap [(CInteger HOSTNAME, CText hostname), (CInteger PUBKEY, CBytes pubkey),
           (CInteger EPOCH_S, CInteger (uint epoch_s)), (CInteger SIGNATURE, CBytes signature)]"

definition build_attestation_cbor ::
  "cbor_codec \<Rightarrow> string \<Rightarrow> bytes \<Rightarrow> u64 \<Rightarrow> bytes \<Rightarrow> bytes option" where
  "build_attestation_cbor cb hostname pubkey epoch_s signature =
     cb_to_vec cb (attestation_value hostname pubkey epoch_s signature)"

record verified_node =
  vn_hostname :: string
  vn_pubkey :: bytes
  vn_epoch_s :: u64

definition attestation_time_ok :: "u64 \<Rightarrow> u64 \<Rightarrow> bool" where
  "attestation_time_ok epoch_s now_epoch_s =
     (let diff = (if now_epoch_s < epoch_s then epoch_s - now_epoch_s else now_epoch_s - epoch_s)
      in diff \<le> ATTESTATION_WINDOW_HALF_S)"

datatype attestation_error =
    CborDecode
  | NotACborMap
  | MissingHostname
  | MissingPubkey
  | InvalidEpoch
  | MissingSignature
  | PubkeyNot32Bytes
  | BadPubkey
  | BadSignature
  | DoesNotVerify

text \<open>\<open>*i as u64\<close> of a non-negative \<open>i128\<close> keeps the low 64 bits.\<close>

definition verify_attestation_cbor ::
  "crypto \<Rightarrow> cbor_codec \<Rightarrow> bytes \<Rightarrow> attestation_error + verified_node" where
  "verify_attestation_cbor cr cb bs =
     (case cb_from_slice cb bs of
        None \<Rightarrow> Inl CborDecode
      | Some (CMap m) \<Rightarrow>
     (case cbor_get HOSTNAME m of
        Some (CText hostname) \<Rightarrow>
     (case cbor_get PUBKEY m of
        Some (CBytes pubkey) \<Rightarrow>
     (case cbor_get EPOCH_S m of
        Some (CInteger i) \<Rightarrow>
          if i < 0 then Inl InvalidEpoch
          else let epoch_s = (word_of_int i :: u64) in
     (case cbor_get SIGNATURE m of
        Some (CBytes signature) \<Rightarrow>
          if length pubkey \<noteq> 32 then Inl PubkeyNot32Bytes
          else if \<not> cr_vk_ok cr pubkey then Inl BadPubkey
          else if \<not> cr_sig_ok cr signature then Inl BadSignature
          else if \<not> cr_verify cr pubkey (attestation_signing_bytes hostname pubkey epoch_s) signature
          then Inl DoesNotVerify
          else Inr \<lparr>vn_hostname = hostname, vn_pubkey = pubkey, vn_epoch_s = epoch_s\<rparr>
      | _ \<Rightarrow> Inl MissingSignature)
      | _ \<Rightarrow> Inl InvalidEpoch)
      | _ \<Rightarrow> Inl MissingPubkey)
      | _ \<Rightarrow> Inl MissingHostname)
      | Some _ \<Rightarrow> Inl NotACborMap)"

lemma verify_attestation_map:
  assumes "cb_from_slice cb bs = Some (attestation_value h k e s)"
  shows "verify_attestation_cbor cr cb bs =
     (if length k \<noteq> 32 then Inl PubkeyNot32Bytes
      else if \<not> cr_vk_ok cr k then Inl BadPubkey
      else if \<not> cr_sig_ok cr s then Inl BadSignature
      else if \<not> cr_verify cr k (attestation_signing_bytes h k e) s then Inl DoesNotVerify
      else Inr \<lparr>vn_hostname = h, vn_pubkey = k, vn_epoch_s = e\<rparr>)"
  using assms
  by (simp add: verify_attestation_cbor_def attestation_value_def cbor_get_def attest_keys Let_def)

lemma attestation_signing_bytes_inj:
  assumes "attestation_signing_bytes h k e = attestation_signing_bytes h' k' e'"
    and "length k = length k'"
  shows "h = h' \<and> k = k' \<and> e = e'"
proof -
  from assms have "length h = length h'"
    by (auto simp: attestation_signing_bytes_def dest: arg_cong [where f = length])
  with assms show ?thesis
    by (auto simp: attestation_signing_bytes_def dest: le_bytes_inj)
qed

section \<open>Properties\<close>

text \<open>How far a discovery program can travel. After the edges \<open>ts\<close>, starting with the
  edge \<open>t0\<close> from the origin, the budget still covers more than \<open>k\<close> hops exactly when every
  edge on the path, the first included, has a cap (8 trusted, 2 untrusted) above \<open>k\<close> plus the
  number of hops taken since that edge. In particular no path is longer than eight forwards, and an
  untrusted edge leaves at most two.\<close>

theorem forwarding_depth_exact:
  "k < unat (fold (\<lambda>t b. child_depth_budget b t) ts (initial_depth_budget t0)) \<longleftrightarrow>
   (\<forall>j < length (t0 # ts). k + (length ts - j) < unat (trust_cap ((t0 # ts) ! j)))"
  (is "?l \<longleftrightarrow> ?r")
proof -
  have "?l \<longleftrightarrow> Suc k + length ts \<le> unat (trust_cap t0) \<and>
      (\<forall>j < length ts. Suc k + (length ts - 1 - j) \<le> unat (trust_cap (ts ! j)))"
    using dr.chain_exact [of "Suc k" ts "initial_depth_budget t0"]
    by (simp add: Suc_le_eq initial_depth_budget_def)
  also have "\<dots> \<longleftrightarrow> ?r"
    unfolding All_less_Suc2 list.size nth_Cons_0 nth_Cons_Suc
    by (auto simp: Suc_le_eq All_less_Suc2)
  finally show ?thesis .
qed

theorem forwarding_depth_exact_witness:
  "fold (\<lambda>t b. child_depth_budget b t) [True, False, True] (initial_depth_budget True) = 1 \<and>
   fold (\<lambda>t b. child_depth_budget b t) [True, True, True, True, True, True, True, True] (initial_depth_budget True) = 0 \<and>
   \<not> 0 < unat (fold (\<lambda>t b. child_depth_budget b t) [False, True, True] (initial_depth_budget True))"
proof -
  have "\<not> 0 < unat (fold (\<lambda>t b. child_depth_budget b t) [False, True, True] (initial_depth_budget True))"
    unfolding forwarding_depth_exact
    by (auto simp: depth_defs intro!: exI [of _ 1])
  then show ?thesis by (simp add: child_depth_budget_def depth_defs)
qed

text \<open>The timestamp test is symmetric and exact: an attestation is in time when its clock and
  the verifier's differ by at most 30 seconds either way, for all 64-bit clock values.\<close>

theorem attestation_time_exact:
  "attestation_time_ok e n \<longleftrightarrow> \<bar>uint e - uint n\<bar> \<le> 30"
proof -
  have sub: "uint (a - b) = uint a - uint b" if "b \<le> a" for a b :: u64
    using that by (simp only: uint_minus_simple_alt)
  have le: "d \<le> 30 \<longleftrightarrow> uint d \<le> 30" for d :: u64
    by (simp only: word_le_def) simp
  show ?thesis
  proof (cases "n < e")
    case True
    then have "uint (e - n) = uint e - uint n" and "uint n < uint e"
      by (simp_all only: sub order.strict_implies_order word_less_def)
    then show ?thesis
      using True by (simp only: attestation_time_ok_def ATTESTATION_WINDOW_HALF_S_def Let_def le) simp
  next
    case False
    then have "e \<le> n" by simp
    then have "uint (n - e) = uint n - uint e" and "uint e \<le> uint n"
      by (simp_all only: sub word_le_def)
    then show ?thesis
      using False by (simp only: attestation_time_ok_def ATTESTATION_WINDOW_HALF_S_def Let_def le) simp
  qed
qed

text \<open>An honest node's attestation is accepted. What a node builds and signs with its key over
  its hostname, public key and clock decodes and verifies to exactly these three values, whatever
  the hostname contains.\<close>

theorem attestation_round_trip:
  assumes "ed25519_laws cr"
    and "cbor_round_trips cb (attestation_value h (cr_verifying_key cr sk) e
           (cr_sign cr sk (attestation_signing_bytes h (cr_verifying_key cr sk) e)))"
    and "build_attestation_cbor cb h (cr_verifying_key cr sk) e
           (cr_sign cr sk (attestation_signing_bytes h (cr_verifying_key cr sk) e)) = Some bs"
  shows "verify_attestation_cbor cr cb bs =
    Inr \<lparr>vn_hostname = h, vn_pubkey = cr_verifying_key cr sk, vn_epoch_s = e\<rparr>"
proof -
  have "cb_from_slice cb bs = Some (attestation_value h (cr_verifying_key cr sk) e
      (cr_sign cr sk (attestation_signing_bytes h (cr_verifying_key cr sk) e)))"
    using assms(2,3) by (simp add: cbor_round_trips_def build_attestation_cbor_def)
  from verify_attestation_map [OF this, of cr] ed25519_lawsD [OF assms(1)]
  show ?thesis by simp
qed

theorem attestation_round_trip_witness:
  "\<exists>cb bs. verify_attestation_cbor demo_crypto cb bs =
     Inr \<lparr>vn_hostname = ''n1'', vn_pubkey = replicate 32 7, vn_epoch_s = 5\<rparr>"
proof -
  let ?sk = "replicate 32 7"
  let ?v = "attestation_value ''n1'' (cr_verifying_key demo_crypto ?sk) 5
    (cr_sign demo_crypto ?sk (attestation_signing_bytes ''n1'' (cr_verifying_key demo_crypto ?sk) 5))"
  have "build_attestation_cbor (demo_codec ?v [1]) ''n1'' (cr_verifying_key demo_crypto ?sk) 5
    (cr_sign demo_crypto ?sk (attestation_signing_bytes ''n1'' (cr_verifying_key demo_crypto ?sk) 5)) = Some [1]"
    by (simp add: build_attestation_cbor_def demo_codec_def)
  from attestation_round_trip [OF demo_crypto_laws demo_codec_round_trips this]
  have "verify_attestation_cbor demo_crypto (demo_codec ?v [1]) [1] =
     Inr \<lparr>vn_hostname = ''n1'', vn_pubkey = replicate 32 7, vn_epoch_s = 5\<rparr>"
    by (simp add: demo_crypto_def)
  then show ?thesis by blast
qed

text \<open>C18: no attestation speaks for another key. Whatever bytes are accepted, the node they name
  has a 32-byte key, and a signature inside the attestation verifies under that very key over the
  canonical bytes of exactly the reported hostname, key and time; and these bytes are those of no
  other hostname, key of the same length and time.\<close>

theorem attestation_sound:
  assumes "verify_attestation_cbor cr cb bs = Inr n"
  shows "length (vn_pubkey n) = 32 \<and> cr_vk_ok cr (vn_pubkey n) \<and>
    (\<exists>m s. cb_from_slice cb bs = Some (CMap m) \<and> cbor_get SIGNATURE m = Some (CBytes s) \<and>
       cr_verify cr (vn_pubkey n)
         (attestation_signing_bytes (vn_hostname n) (vn_pubkey n) (vn_epoch_s n)) s) \<and>
    (\<forall>h k e. attestation_signing_bytes h k e =
        attestation_signing_bytes (vn_hostname n) (vn_pubkey n) (vn_epoch_s n) \<and> length k = 32 \<longrightarrow>
        h = vn_hostname n \<and> k = vn_pubkey n \<and> e = vn_epoch_s n)"
proof -
  have *: "length (vn_pubkey n) = 32 \<and> cr_vk_ok cr (vn_pubkey n) \<and>
    (\<exists>m s. cb_from_slice cb bs = Some (CMap m) \<and> cbor_get SIGNATURE m = Some (CBytes s) \<and>
       cr_verify cr (vn_pubkey n)
         (attestation_signing_bytes (vn_hostname n) (vn_pubkey n) (vn_epoch_s n)) s)"
    using assms unfolding verify_attestation_cbor_def Let_def
    by (force split: option.splits cbor.splits if_splits)
  then show ?thesis using attestation_signing_bytes_inj by metis
qed

theorem attestation_sound_witness:
  "\<exists>cb bs n. verify_attestation_cbor demo_crypto cb bs = Inr n \<and> length (vn_pubkey n) = 32"
proof -
  let ?k = "replicate 32 7"
  let ?v = "attestation_value ''n1'' ?k 5 (cr_sign demo_crypto ?k (attestation_signing_bytes ''n1'' ?k 5))"
  have "cb_from_slice (demo_codec ?v [1]) [1] = Some ?v" by (simp add: demo_codec_def)
  from verify_attestation_map [OF this, of demo_crypto]
  have "verify_attestation_cbor demo_crypto (demo_codec ?v [1]) [1] =
     Inr \<lparr>vn_hostname = ''n1'', vn_pubkey = ?k, vn_epoch_s = 5\<rparr>"
    by (simp add: demo_crypto_def)
  from this attestation_sound [OF this] show ?thesis by blast
qed

end
