(* ===== verification/Host_Api.thy ===== *)
theory Host_Api
  imports Message_Store Guest_Memory Tty Program Discovery
begin

text \<open>
  The \<open>host::*\<close> imports a running program may call, bound in \<open>Executor::create_pid\<close> of
  \<open>src/executor/mod.rs\<close>. \<open>rp_store\<close> is the read-only part of \<open>RPStoreData\<close>
  (snapshotted at spawn), \<open>host_state\<close> what the calls change: the guest's memory, the message
  store shared with the node, the return slot, and the channels to the launcher. Each import is
  one definition; \<open>host_step\<close> dispatches a call, and \<open>host_run\<close> runs the calls a guest
  makes until one traps.
\<close>

section \<open>State\<close>

text \<open>A channel to the launcher: absent, with its receiver gone, or open.\<close>

datatype sink = NoSink | ClosedSink | OpenSink

text \<open>
  \<open>rp_readable\<close>: whether \<open>try_read\<close> on the running program succeeds, which it does not
  while the program is being instantiated.
\<close>

record rp_store =
  rp_readable :: bool
  rp_program_is_trusted :: bool
  rp_hostname :: string
  rp_peer_reports :: "string list"
  rp_signing_key :: "bytes option"
  rp_our_pubkey :: bytes
  rp_caller_pubkey :: bytes
  rp_caller_name :: string
  rp_trusted_pubkeys :: "bytes list"
  rp_replicate_tx :: sink
  rp_fabric_send_tx :: sink
  rp_identity_data :: "identity_data option"
  rp_tty :: bool
  rp_depth :: u32
  rp_node_addr :: "string option"
  rp_arg_list :: "string list"
  rp_arg_map :: "(string \<times> string) list"

record replicate_request =
  rr_arg_list :: "string list"
  rr_arg_map :: "(string \<times> string) list"

record host_state =
  hs_memory :: memory
  hs_messages :: message_store
  hs_map :: "bytes option"
  hs_forward_uuid :: "bytes option"
  hs_replicated :: "replicate_request list"
  hs_fabric_sent :: "bytes list"
  hs_stdout :: "bytes list"
  hs_tty_out :: "tty_op list"

text \<open>What one call gets from outside: the clock, the random source, the terminal.\<close>

record host_env =
  he_now :: u64
  he_random :: "nat \<Rightarrow> bytes"
  he_terminal_size :: "(u16 \<times> u16) option"
  he_next_event :: "tty_event option"

text \<open>The crates a call uses.\<close>

record crates =
  ck_crypto :: crypto
  ck_cbor :: cbor_codec
  ck_bare :: bare_codec

type_synonym host_result = "trap + (host_state \<times> i64)"

section \<open>Helpers\<close>

text \<open>A filled guest buffer: the new memory and the count, as \<open>i32\<close>.\<close>

definition write_out :: "i32 \<Rightarrow> i32 \<Rightarrow> bytes \<Rightarrow> host_state \<Rightarrow> host_result" where
  "write_out ptr cap src hs =
     map_sum id (\<lambda>(m, n). (hs\<lparr>hs_memory := m\<rparr>, scast n)) (write_guest_bytes ptr cap src (hs_memory hs))"

definition return_i32 :: "i32 \<Rightarrow> host_state \<Rightarrow> host_result" where
  "return_i32 x hs = Inr (hs, scast x)"

definition with_guest_bytes ::
  "i32 \<Rightarrow> i32 \<Rightarrow> host_state \<Rightarrow> (bytes \<Rightarrow> host_result) \<Rightarrow> host_result" where
  "with_guest_bytes ptr len hs k =
     (case read_guest_bytes ptr len (hs_memory hs) of Inl t \<Rightarrow> Inl t | Inr bs \<Rightarrow> k bs)"

text \<open>\<open>list.get(index as usize)\<close> with a signed index: a negative one is out of range.\<close>

definition get_index :: "'a list \<Rightarrow> i32 \<Rightarrow> 'a option" where
  "get_index xs index =
     (let i = unat (scast index :: u64) in if i < length xs then Some (xs ! i) else None)"

definition write_text_option :: "i32 \<Rightarrow> i32 \<Rightarrow> string option \<Rightarrow> host_state \<Rightarrow> host_result" where
  "write_text_option ptr cap v hs =
     (case v of Some s \<Rightarrow> write_out ptr cap (as_bytes s) hs | None \<Rightarrow> return_i32 (- 1) hs)"

definition message_value :: "stored_message \<Rightarrow> cbor" where
  "message_value m =
     CMap [(CInteger 1, CInteger (uint (sm_seq m))), (CInteger 2, CText (sm_from_name m)),
           (CInteger 3, CBytes (sm_from_pubkey m)), (CInteger 4, CInteger (uint (sm_epoch_s m))),
           (CInteger 5, CBytes (sm_text m))]"

text \<open>The shrinking loop: \<open>n\<close> is the number of messages tried.\<close>

definition encode_prefix :: "cbor_codec \<Rightarrow> stored_message list \<Rightarrow> nat \<Rightarrow> bytes" where
  "encode_prefix cb msgs n =
     (case cb_to_vec cb (CArray (map message_value (take n msgs))) of None \<Rightarrow> [] | Some b \<Rightarrow> b)"

fun encode_messages_loop :: "cbor_codec \<Rightarrow> stored_message list \<Rightarrow> nat \<Rightarrow> nat \<Rightarrow> bytes" where
  "encode_messages_loop cb msgs cap 0 = encode_prefix cb msgs 0"
| "encode_messages_loop cb msgs cap (Suc n) =
     (if length (encode_prefix cb msgs (Suc n)) \<le> cap then encode_prefix cb msgs (Suc n)
      else encode_messages_loop cb msgs cap n)"

definition encode_messages_cbor :: "cbor_codec \<Rightarrow> stored_message list \<Rightarrow> nat \<Rightarrow> bytes" where
  "encode_messages_cbor cb msgs cap = encode_messages_loop cb msgs cap (length msgs)"

fun text_of_item :: "cbor \<Rightarrow> string" where
  "text_of_item (CText s) = s"
| "text_of_item (CBytes b) = from_utf8_lossy b"
| "text_of_item _ = []"

definition as_texts :: "cbor option \<Rightarrow> string list" where
  "as_texts v = (case v of Some (CArray items) \<Rightarrow> map text_of_item items | _ \<Rightarrow> [])"

text \<open>\<open>chunks(2)\<close>, keeping the full ones.\<close>

fun pair_up :: "'a list \<Rightarrow> ('a \<times> 'a) list" where
  "pair_up (k # v # rest) = (k, v) # pair_up rest"
| "pair_up _ = []"

definition decode_replicate_args :: "cbor_codec \<Rightarrow> bytes \<Rightarrow> string list \<times> (string \<times> string) list" where
  "decode_replicate_args cb bs =
     (case cb_from_slice cb bs of
        Some (CMap m) \<Rightarrow> (as_texts (cbor_get 1 m), pair_up (as_texts (cbor_get 2 m)))
      | _ \<Rightarrow> ([], []))"

section \<open>The imports\<close>

text \<open>Writing to the launcher's stdout fails only into the log; the guest gets no result.\<close>

definition host_print :: "i32 \<Rightarrow> i32 \<Rightarrow> host_state \<Rightarrow> host_result" where
  "host_print ptr len hs =
     (case print_slice ptr len (hs_memory hs) of
        Inl t \<Rightarrow> Inl t
      | Inr data \<Rightarrow> Inr (hs\<lparr>hs_stdout := hs_stdout hs @ [data]\<rparr>, 0))"

definition host_trusts_me :: "rp_store \<Rightarrow> host_state \<Rightarrow> host_result" where
  "host_trusts_me d hs =
     (let program_is_trusted = (if rp_readable d then rp_program_is_trusted d else False)
      in return_i32 (if program_is_trusted then 1 else 0) hs)"

definition host_hostname :: "rp_store \<Rightarrow> i32 \<Rightarrow> i32 \<Rightarrow> host_state \<Rightarrow> host_result" where
  "host_hostname d ptr cap hs = write_out ptr cap (as_bytes (rp_hostname d)) hs"

definition host_random :: "host_env \<Rightarrow> i32 \<Rightarrow> i32 \<Rightarrow> host_state \<Rightarrow> host_result" where
  "host_random e ptr len hs = write_out ptr len (he_random e (clamp0 len)) hs"

definition host_peer_count :: "rp_store \<Rightarrow> host_state \<Rightarrow> host_result" where
  "host_peer_count d hs = return_i32 (of_nat (length (rp_peer_reports d))) hs"

definition host_peer_report :: "rp_store \<Rightarrow> i32 \<Rightarrow> i32 \<Rightarrow> i32 \<Rightarrow> host_state \<Rightarrow> host_result" where
  "host_peer_report d index ptr cap hs =
     write_text_option ptr cap (get_index (rp_peer_reports d) index) hs"

definition host_caller_pubkey :: "rp_store \<Rightarrow> i32 \<Rightarrow> i32 \<Rightarrow> host_state \<Rightarrow> host_result" where
  "host_caller_pubkey d ptr cap hs = write_out ptr cap (rp_caller_pubkey d) hs"

definition host_depth :: "rp_store \<Rightarrow> host_state \<Rightarrow> host_result" where
  "host_depth d hs = return_i32 (ucast (rp_depth d)) hs"

definition host_arg_len :: "rp_store \<Rightarrow> host_state \<Rightarrow> host_result" where
  "host_arg_len d hs = return_i32 (of_nat (length (rp_arg_list d))) hs"

definition host_arg_get :: "rp_store \<Rightarrow> i32 \<Rightarrow> i32 \<Rightarrow> i32 \<Rightarrow> host_state \<Rightarrow> host_result" where
  "host_arg_get d index ptr cap hs = write_text_option ptr cap (get_index (rp_arg_list d) index) hs"

definition host_arg_map_len :: "rp_store \<Rightarrow> host_state \<Rightarrow> host_result" where
  "host_arg_map_len d hs = return_i32 (of_nat (length (rp_arg_map d))) hs"

definition host_arg_map_key :: "rp_store \<Rightarrow> i32 \<Rightarrow> i32 \<Rightarrow> i32 \<Rightarrow> host_state \<Rightarrow> host_result" where
  "host_arg_map_key d index ptr cap hs =
     write_text_option ptr cap (map_option fst (get_index (rp_arg_map d) index)) hs"

text \<open>The first pair with the key, which is read lossily as UTF-8.\<close>

definition host_arg_map_get ::
  "rp_store \<Rightarrow> i32 \<Rightarrow> i32 \<Rightarrow> i32 \<Rightarrow> i32 \<Rightarrow> host_state \<Rightarrow> host_result" where
  "host_arg_map_get d key_ptr key_len ptr cap hs =
     with_guest_bytes key_ptr key_len hs (\<lambda>key.
       write_text_option ptr cap (map_of (rp_arg_map d) (from_utf8_lossy key)) hs)"

definition host_messages_push ::
  "rp_store \<Rightarrow> host_env \<Rightarrow> i32 \<Rightarrow> i32 \<Rightarrow> i32 \<Rightarrow> i32 \<Rightarrow> host_state \<Rightarrow> host_result" where
  "host_messages_push d e id_ptr id_len text_ptr text_len hs =
     with_guest_bytes id_ptr id_len hs (\<lambda>id_bytes.
     with_guest_bytes text_ptr text_len hs (\<lambda>text.
       let (store, seq) = ms_push (rp_caller_name d) (rp_caller_pubkey d) id_bytes text (he_now e)
                            (hs_messages hs)
       in Inr (hs\<lparr>hs_messages := store\<rparr>, ucast seq)))"

definition host_messages_read :: "crates \<Rightarrow> i64 \<Rightarrow> i32 \<Rightarrow> i32 \<Rightarrow> host_state \<Rightarrow> host_result" where
  "host_messages_read c after_seq ptr cap hs =
     (let after_u = (if sint after_seq < 0 then 0 else ucast after_seq);
          msgs = ms_read_after after_u (hs_messages hs);
          n = clamp0 cap
      in write_out ptr (of_nat n) (encode_messages_cbor (ck_cbor c) msgs n) hs)"

definition host_trusts_key :: "rp_store \<Rightarrow> i32 \<Rightarrow> i32 \<Rightarrow> host_state \<Rightarrow> host_result" where
  "host_trusts_key d pubkey_ptr pubkey_len hs =
     with_guest_bytes pubkey_ptr pubkey_len hs (\<lambda>key.
       return_i32 (if key \<in> set (rp_trusted_pubkeys d) then 1 else 0) hs)"

text \<open>Every scope means the whole fabric.\<close>

definition host_replicate ::
  "rp_store \<Rightarrow> crates \<Rightarrow> i32 \<Rightarrow> i32 \<Rightarrow> i32 \<Rightarrow> host_state \<Rightarrow> host_result" where
  "host_replicate d c scope args_ptr args_len hs =
     with_guest_bytes args_ptr args_len hs (\<lambda>args.
       let (arg_list, arg_map) = decode_replicate_args (ck_cbor c) args;
           req = \<lparr>rr_arg_list = arg_list, rr_arg_map = arg_map\<rparr>
       in (case rp_replicate_tx d of
             OpenSink \<Rightarrow> return_i32 0 (hs\<lparr>hs_replicated := hs_replicated hs @ [req]\<rparr>)
           | ClosedSink \<Rightarrow> return_i32 (- 1) hs
           | NoSink \<Rightarrow> return_i32 (- 1) hs))"

text \<open>The major type of the first CBOR item must be 4 (list) or 5 (map).\<close>

definition list_or_map :: "bytes \<Rightarrow> bool" where
  "list_or_map payload =
     (case payload of [] \<Rightarrow> False | b # _ \<Rightarrow> drop_bit 5 b = 4 \<or> drop_bit 5 b = 5)"

definition host_messages_send ::
  "rp_store \<Rightarrow> host_env \<Rightarrow> crates \<Rightarrow> i32 \<Rightarrow> i32 \<Rightarrow> host_state \<Rightarrow> host_result" where
  "host_messages_send d e c cbor_ptr cbor_len hs =
     with_guest_bytes cbor_ptr cbor_len hs (\<lambda>payload.
       if \<not> list_or_map payload then return_i32 (- 2) hs
       else (case (rp_identity_data d, rp_signing_key d, rp_fabric_send_tx d) of
           (Some source, Some signing_key, tx) \<Rightarrow>
             if tx = NoSink then return_i32 (- 1) hs
             else (let id_bytes = he_random e 16;
                       signature = sign_payload (ck_crypto c) signing_key id_bytes payload
                   in (case ba_to_vec (ck_bare c)
                              (SignedFabricMessage source id_bytes payload signature) of
                         None \<Rightarrow> return_i32 (- 3) hs
                       | Some bs \<Rightarrow>
                           if tx = OpenSink
                           then return_i32 0 (hs\<lparr>hs_fabric_sent := hs_fabric_sent hs @ [bs]\<rparr>)
                           else return_i32 (- 1) hs))
         | _ \<Rightarrow> return_i32 (- 1) hs))"

subsection \<open>The terminal\<close>

definition host_tty_available :: "rp_store \<Rightarrow> host_state \<Rightarrow> host_result" where
  "host_tty_available d hs = return_i32 (if rp_tty d then 1 else 0) hs"

definition host_tty_size :: "rp_store \<Rightarrow> host_env \<Rightarrow> i32 \<Rightarrow> host_state \<Rightarrow> host_result" where
  "host_tty_size d e ptr hs =
     (if \<not> rp_tty d then return_i32 (- 1) hs
      else (let (cols, rows) = tty_size (he_terminal_size e)
            in write_out ptr 4 (le16 cols @ le16 rows) hs))"

text \<open>\<open>he_next_event\<close> is what the wait of at most \<open>timeout_ms\<close> yields.\<close>

definition host_tty_next_event ::
  "rp_store \<Rightarrow> host_env \<Rightarrow> i32 \<Rightarrow> i32 \<Rightarrow> i32 \<Rightarrow> host_state \<Rightarrow> host_result" where
  "host_tty_next_event d e ptr cap timeout_ms hs =
     (if \<not> rp_tty d then return_i32 (- 1) hs
      else (case he_next_event e of
              Some ev \<Rightarrow> write_out ptr cap (encode_event ev) hs
            | None \<Rightarrow> return_i32 0 hs))"

definition tty_call :: "rp_store \<Rightarrow> (tty_op list \<Rightarrow> tty_op list) \<Rightarrow> host_state \<Rightarrow> host_result" where
  "tty_call d f hs =
     (if rp_tty d then return_i32 0 (hs\<lparr>hs_tty_out := f (hs_tty_out hs)\<rparr>)
      else return_i32 (- 1) hs)"

definition host_tty_print :: "rp_store \<Rightarrow> i32 \<Rightarrow> i32 \<Rightarrow> host_state \<Rightarrow> host_result" where
  "host_tty_print d ptr len hs =
     with_guest_bytes ptr len hs (\<lambda>bs. tty_call d (tty_print (from_utf8_lossy bs)) hs)"

definition host_tty_move :: "rp_store \<Rightarrow> i32 \<Rightarrow> i32 \<Rightarrow> host_state \<Rightarrow> host_result" where
  "host_tty_move d col row hs =
     tty_call d (tty_move_to (of_nat (clamp0 col)) (of_nat (clamp0 row))) hs"

definition host_tty_clear :: "rp_store \<Rightarrow> host_state \<Rightarrow> host_result" where
  "host_tty_clear d hs = tty_call d tty_clear hs"

definition host_tty_style :: "rp_store \<Rightarrow> i32 \<Rightarrow> i32 \<Rightarrow> i32 \<Rightarrow> host_state \<Rightarrow> host_result" where
  "host_tty_style d fg bg attrs hs = tty_call d (tty_style fg bg attrs) hs"

definition host_tty_flush :: "rp_store \<Rightarrow> host_state \<Rightarrow> host_result" where
  "host_tty_flush d hs = tty_call d tty_flush hs"

subsection \<open>Discovery\<close>

definition host_node_addr :: "rp_store \<Rightarrow> i32 \<Rightarrow> i32 \<Rightarrow> host_state \<Rightarrow> host_result" where
  "host_node_addr d ptr cap hs = write_text_option ptr cap (rp_node_addr d) hs"

definition host_signed_attestation ::
  "rp_store \<Rightarrow> host_env \<Rightarrow> crates \<Rightarrow> i32 \<Rightarrow> i32 \<Rightarrow> host_state \<Rightarrow> host_result" where
  "host_signed_attestation d e c ptr cap hs =
     (let cbor_bytes =
        (case rp_signing_key d of
           Some sk \<Rightarrow>
             let msg = attestation_signing_bytes (rp_hostname d) (rp_our_pubkey d) (he_now e);
                 sig = cr_sign (ck_crypto c) sk msg
             in build_attestation_cbor (ck_cbor c) (rp_hostname d) (rp_our_pubkey d) (he_now e) sig
         | None \<Rightarrow> None)
      in (case cbor_bytes of Some bs \<Rightarrow> write_out ptr cap bs hs | None \<Rightarrow> return_i32 (- 1) hs))"

definition host_return_map :: "i32 \<Rightarrow> i32 \<Rightarrow> host_state \<Rightarrow> host_result" where
  "host_return_map ptr len hs =
     with_guest_bytes ptr len hs (\<lambda>bs. return_i32 0 (hs\<lparr>hs_map := Some bs\<rparr>))"

definition host_set_forward_uuid :: "i32 \<Rightarrow> i32 \<Rightarrow> host_state \<Rightarrow> host_result" where
  "host_set_forward_uuid ptr len hs =
     with_guest_bytes ptr len hs (\<lambda>bs.
       if length bs = 16 then return_i32 0 (hs\<lparr>hs_forward_uuid := Some bs\<rparr>)
       else return_i32 0 hs)"

end
