(* ===== verification/Guest_Calls.thy ===== *)
theory Guest_Calls
  imports Host_Api
begin

text \<open>
  What a guest can do: the linker's table of imports (\<open>host_step\<close>), a run of calls until one
  traps (\<open>host_run\<close>), and the properties every run keeps: the guest writes only into the
  buffers it named, only the verified caller is stamped on messages, and only validly signed
  messages of the node leave it.
\<close>

section \<open>Calls and runs\<close>

datatype host_call =
    CPrint i32 i32
  | CTrustsMe
  | CHostname i32 i32
  | CRandom i32 i32
  | CPeerCount
  | CPeerReport i32 i32 i32
  | CCallerPubkey i32 i32
  | CDepth
  | CArgLen
  | CArgGet i32 i32 i32
  | CArgMapLen
  | CArgMapKey i32 i32 i32
  | CArgMapGet i32 i32 i32 i32
  | CMessagesPush i32 i32 i32 i32
  | CMessagesRead i64 i32 i32
  | CTrustsKey i32 i32
  | CReplicate i32 i32 i32
  | CMessagesSend i32 i32
  | CTtyAvailable
  | CTtySize i32
  | CTtyNextEvent i32 i32 i32
  | CTtyPrint i32 i32
  | CTtyMove i32 i32
  | CTtyClear
  | CTtyStyle i32 i32 i32
  | CTtyFlush
  | CNodeAddr i32 i32
  | CSignedAttestation i32 i32
  | CReturnMap i32 i32
  | CSetForwardUuid i32 i32

fun host_step ::
  "crates \<Rightarrow> rp_store \<Rightarrow> host_env \<Rightarrow> host_call \<Rightarrow> host_state \<Rightarrow> host_result" where
  "host_step c d e (CPrint ptr len) hs = host_print ptr len hs"
| "host_step c d e CTrustsMe hs = host_trusts_me d hs"
| "host_step c d e (CHostname ptr cap) hs = host_hostname d ptr cap hs"
| "host_step c d e (CRandom ptr len) hs = host_random e ptr len hs"
| "host_step c d e CPeerCount hs = host_peer_count d hs"
| "host_step c d e (CPeerReport i ptr cap) hs = host_peer_report d i ptr cap hs"
| "host_step c d e (CCallerPubkey ptr cap) hs = host_caller_pubkey d ptr cap hs"
| "host_step c d e CDepth hs = host_depth d hs"
| "host_step c d e CArgLen hs = host_arg_len d hs"
| "host_step c d e (CArgGet i ptr cap) hs = host_arg_get d i ptr cap hs"
| "host_step c d e CArgMapLen hs = host_arg_map_len d hs"
| "host_step c d e (CArgMapKey i ptr cap) hs = host_arg_map_key d i ptr cap hs"
| "host_step c d e (CArgMapGet kp kl ptr cap) hs = host_arg_map_get d kp kl ptr cap hs"
| "host_step c d e (CMessagesPush ip il xp xl) hs = host_messages_push d e ip il xp xl hs"
| "host_step c d e (CMessagesRead a ptr cap) hs = host_messages_read c a ptr cap hs"
| "host_step c d e (CTrustsKey ptr len) hs = host_trusts_key d ptr len hs"
| "host_step c d e (CReplicate scope ptr len) hs = host_replicate d c scope ptr len hs"
| "host_step c d e (CMessagesSend ptr len) hs = host_messages_send d e c ptr len hs"
| "host_step c d e CTtyAvailable hs = host_tty_available d hs"
| "host_step c d e (CTtySize ptr) hs = host_tty_size d e ptr hs"
| "host_step c d e (CTtyNextEvent ptr cap ms) hs = host_tty_next_event d e ptr cap ms hs"
| "host_step c d e (CTtyPrint ptr len) hs = host_tty_print d ptr len hs"
| "host_step c d e (CTtyMove col row) hs = host_tty_move d col row hs"
| "host_step c d e CTtyClear hs = host_tty_clear d hs"
| "host_step c d e (CTtyStyle fg bg at) hs = host_tty_style d fg bg at hs"
| "host_step c d e CTtyFlush hs = host_tty_flush d hs"
| "host_step c d e (CNodeAddr ptr cap) hs = host_node_addr d ptr cap hs"
| "host_step c d e (CSignedAttestation ptr cap) hs = host_signed_attestation d e c ptr cap hs"
| "host_step c d e (CReturnMap ptr len) hs = host_return_map ptr len hs"
| "host_step c d e (CSetForwardUuid ptr len) hs = host_set_forward_uuid ptr len hs"

text \<open>A trap ends the program; what its calls did before stays. The guest may change its own
  memory between calls, so each call comes with the memory it finds.\<close>

fun host_run ::
  "crates \<Rightarrow> rp_store \<Rightarrow> (host_env \<times> memory \<times> host_call) list \<Rightarrow> host_state \<Rightarrow> host_state" where
  "host_run c d [] hs = hs"
| "host_run c d ((e, mem, call) # calls) hs =
     (case host_step c d e call (hs\<lparr>hs_memory := mem\<rparr>) of
        Inl _ \<Rightarrow> hs\<lparr>hs_memory := mem\<rparr>
      | Inr (hs', r) \<Rightarrow> host_run c d calls hs')"

text \<open>The buffer a call names for its result.\<close>

fun out_buffer :: "host_call \<Rightarrow> nat \<times> nat" where
  "out_buffer (CHostname ptr cap) = (clamp0 ptr, clamp0 cap)"
| "out_buffer (CRandom ptr len) = (clamp0 ptr, clamp0 len)"
| "out_buffer (CPeerReport i ptr cap) = (clamp0 ptr, clamp0 cap)"
| "out_buffer (CCallerPubkey ptr cap) = (clamp0 ptr, clamp0 cap)"
| "out_buffer (CArgGet i ptr cap) = (clamp0 ptr, clamp0 cap)"
| "out_buffer (CArgMapKey i ptr cap) = (clamp0 ptr, clamp0 cap)"
| "out_buffer (CArgMapGet kp kl ptr cap) = (clamp0 ptr, clamp0 cap)"
| "out_buffer (CMessagesRead a ptr cap) = (clamp0 ptr, clamp0 cap)"
| "out_buffer (CTtySize ptr) = (clamp0 ptr, 4)"
| "out_buffer (CTtyNextEvent ptr cap ms) = (clamp0 ptr, clamp0 cap)"
| "out_buffer (CNodeAddr ptr cap) = (clamp0 ptr, clamp0 cap)"
| "out_buffer (CSignedAttestation ptr cap) = (clamp0 ptr, clamp0 cap)"
| "out_buffer _ = (0, 0)"

lemmas host_defs = host_print_def host_trusts_me_def host_hostname_def host_random_def
  host_peer_count_def host_peer_report_def host_caller_pubkey_def host_depth_def host_arg_len_def
  host_arg_get_def host_arg_map_len_def host_arg_map_key_def host_arg_map_get_def
  host_messages_read_def host_trusts_key_def host_tty_available_def host_tty_size_def
  host_tty_next_event_def host_tty_print_def host_tty_move_def host_tty_clear_def
  host_tty_style_def host_tty_flush_def host_node_addr_def host_signed_attestation_def
  host_return_map_def host_set_forward_uuid_def

section \<open>How the combinators end\<close>

lemma write_out_Inr:
  "write_out ptr cap src hs = Inr (hs', r) \<longleftrightarrow>
     (\<exists>m n. write_guest_bytes ptr cap src (hs_memory hs) = Inr (m, n) \<and>
            hs' = hs\<lparr>hs_memory := m\<rparr> \<and> r = scast n)"
  by (cases "write_guest_bytes ptr cap src (hs_memory hs)") (auto simp: write_out_def)

lemma return_i32_Inr: "return_i32 x hs = Inr (hs', r) \<longleftrightarrow> hs' = hs \<and> r = scast x"
  by (auto simp: return_i32_def)

lemma with_guest_bytes_Inr:
  "with_guest_bytes ptr len hs k = Inr y \<longleftrightarrow>
     (\<exists>bs. read_guest_bytes ptr len (hs_memory hs) = Inr bs \<and> k bs = Inr y)"
  by (auto simp: with_guest_bytes_def split: sum.splits)

lemma write_text_option_Inr:
  "write_text_option ptr cap v hs = Inr (hs', r) \<longleftrightarrow>
     (case v of None \<Rightarrow> hs' = hs \<and> r = scast (- 1 :: i32)
      | Some s \<Rightarrow> write_out ptr cap (as_bytes s) hs = Inr (hs', r))"
  by (auto simp: write_text_option_def return_i32_Inr split: option.splits)

lemma tty_call_Inr:
  "tty_call d f hs = Inr (hs', r) \<longleftrightarrow>
     (if rp_tty d then hs' = hs\<lparr>hs_tty_out := f (hs_tty_out hs)\<rparr> \<and> r = 0
      else hs' = hs \<and> r = scast (- 1 :: i32))"
  by (auto simp: tty_call_def return_i32_Inr)

lemmas call_ends = write_out_Inr return_i32_Inr with_guest_bytes_Inr write_text_option_Inr tty_call_Inr

text \<open>What a call may do: write its buffer, or leave the memory alone and change one channel.\<close>

definition contained :: "nat \<times> nat \<Rightarrow> memory \<Rightarrow> memory \<Rightarrow> bool" where
  "contained buf m m' \<longleftrightarrow> mem_size m' = mem_size m \<and>
     (\<forall>i. i < fst buf \<or> fst buf + snd buf \<le> i \<longrightarrow> mem_byte m' i = mem_byte m i)"

lemma contained_refl [simp]: "contained buf m m"
  by (simp add: contained_def)

lemma contained_write:
  assumes "write_guest_bytes ptr cap src m = Inr (m', n)" and "clamp0 cap = k"
  shows "contained (clamp0 ptr, k) m m'"
  using gm.wr_size [OF assms(1)] gm.wr_frame [OF assms(1)] assms(2) by (auto simp: contained_def)

lemma clamp0_clamp0 [simp]: "clamp0 (of_nat (clamp0 cap)) = clamp0 cap"
  using clamp0_bound [of cap] by (intro clamp0_of_nat) simp

lemma clamp0_4: "clamp0 4 = 4"
  using clamp0_of_nat [of 4] by simp

lemma host_messages_push_Inr:
  assumes "host_messages_push d e ip il xp xl hs = Inr (hs', r)"
  shows "\<exists>q. pr_name q = rp_caller_name d \<and> pr_pubkey q = rp_caller_pubkey d \<and> pr_epoch q = he_now e \<and>
    hs' = hs\<lparr>hs_messages := fst (ms_push_req q (hs_messages hs))\<rparr>"
proof -
  from assms obtain i x where
    "hs' = hs\<lparr>hs_messages :=
       fst (ms_push (rp_caller_name d) (rp_caller_pubkey d) i x (he_now e) (hs_messages hs))\<rparr>"
    by (force simp: host_messages_push_def with_guest_bytes_Inr case_prod_unfold Let_def)
  then show ?thesis
    by (intro exI [of _ "\<lparr>pr_name = rp_caller_name d, pr_pubkey = rp_caller_pubkey d, pr_id = i,
        pr_text = x, pr_epoch = he_now e\<rparr>"]) (simp add: ms_push_req_def)
qed

lemma host_replicate_Inr:
  assumes "host_replicate d c scope p l hs = Inr (hs', r)"
  shows "\<exists>reqs. hs' = hs\<lparr>hs_replicated := hs_replicated hs @ reqs\<rparr>"
proof -
  from assms obtain req where
    "hs' = hs \<or> hs' = hs\<lparr>hs_replicated := hs_replicated hs @ [req]\<rparr>"
    by (cases "rp_replicate_tx d")
      (auto simp: host_replicate_def with_guest_bytes_Inr return_i32_Inr case_prod_unfold Let_def)
  then show ?thesis
    by (auto intro: exI [of _ "[]"] exI [of _ "[req]"])
qed

lemma host_messages_send_Inr:
  assumes "host_messages_send d e c p l hs = Inr (hs', r)"
  shows "hs' = hs \<or>
    (\<exists>i k payload bs. rp_identity_data d = Some i \<and> rp_signing_key d = Some k \<and>
       rp_fabric_send_tx d = OpenSink \<and> list_or_map payload \<and>
       ba_to_vec (ck_bare c) (SignedFabricMessage i (he_random e 16) payload
         (sign_payload (ck_crypto c) k (he_random e 16) payload)) = Some bs \<and>
       hs' = hs\<lparr>hs_fabric_sent := hs_fabric_sent hs @ [bs]\<rparr>)"
  using assms
  by (auto simp: host_messages_send_def with_guest_bytes_Inr return_i32_Inr Let_def
      split: if_splits option.splits)

text \<open>The other calls change the memory, the terminal, the return slot or nothing.\<close>

definition quiet :: "nat \<times> nat \<Rightarrow> host_state \<Rightarrow> host_state \<Rightarrow> bool" where
  "quiet buf hs hs' \<longleftrightarrow> contained buf (hs_memory hs) (hs_memory hs') \<and>
     hs_messages hs' = hs_messages hs \<and> hs_fabric_sent hs' = hs_fabric_sent hs \<and>
     hs_replicated hs' = hs_replicated hs"

named_theorems quiet_intros

lemma quiet_refl [quiet_intros]: "quiet buf hs hs"
  by (simp add: quiet_def)

lemma quiet_out [quiet_intros]:
  "write_out ptr cap src hs = Inr (hs', r) \<Longrightarrow> quiet (clamp0 ptr, clamp0 cap) hs hs'"
  by (auto simp: write_out_Inr quiet_def intro: contained_write)

lemma quiet_return [quiet_intros]: "return_i32 x hs = Inr (hs', r) \<Longrightarrow> quiet buf hs hs'"
  by (simp add: return_i32_Inr quiet_refl)

lemma quiet_text [quiet_intros]:
  "write_text_option ptr cap v hs = Inr (hs', r) \<Longrightarrow> quiet (clamp0 ptr, clamp0 cap) hs hs'"
  by (cases v) (auto simp: write_text_option_def intro: quiet_out quiet_return)

lemma quiet_tty [quiet_intros]: "tty_call d f hs = Inr (hs', r) \<Longrightarrow> quiet buf hs hs'"
  by (auto simp: tty_call_Inr quiet_def split: if_splits)

lemma host_step_other:
  assumes "host_step c d e call hs = Inr (hs', r)"
    and "\<And>ip il xp xl. call \<noteq> CMessagesPush ip il xp xl"
    and "\<And>s p l. call \<noteq> CReplicate s p l" and "\<And>p l. call \<noteq> CMessagesSend p l"
  shows "quiet (out_buffer call) hs hs'"
proof (cases call)
  case (CPrint p l)
  then show ?thesis using assms(1) by (auto simp: host_print_def quiet_def split: sum.splits)
next
  case (CTtySize p)
  then show ?thesis
    using assms(1) quiet_out [of p 4] 
    by (auto simp: host_tty_size_def clamp0_4 case_prod_unfold Let_def split: if_splits intro: quiet_return)
next
  case (CMessagesRead a p l)
  then show ?thesis
    using assms(1) quiet_out [of p "of_nat (clamp0 l)"]
    by (auto simp: host_messages_read_def Let_def)
next
  case (CReturnMap p l)
  then show ?thesis
    using assms(1) by (auto simp: host_return_map_def call_ends quiet_def)
next
  case (CSetForwardUuid p l)
  then show ?thesis
    using assms(1) by (auto simp: host_set_forward_uuid_def call_ends quiet_def split: if_splits)
next
  case (CSignedAttestation p l)
  then show ?thesis
    using assms(1)
    by (auto simp: host_signed_attestation_def Let_def split: option.splits intro: quiet_intros)
qed (use assms in \<open>auto simp: host_defs with_guest_bytes_Inr split: if_splits option.splits
      intro: quiet_intros\<close>)

lemma host_step_contained:
  assumes "host_step c d e call hs = Inr (hs', r)"
  shows "contained (out_buffer call) (hs_memory hs) (hs_memory hs')"
  using assms host_step_other [OF assms]
  by (cases call)
    (auto simp: quiet_def dest!: host_messages_push_Inr host_replicate_Inr host_messages_send_Inr)

lemma host_step_messages:
  assumes "host_step c d e call hs = Inr (hs', r)"
  shows "hs_messages hs' = hs_messages hs \<or>
    (\<exists>q. pr_name q = rp_caller_name d \<and> pr_pubkey q = rp_caller_pubkey d \<and> pr_epoch q = he_now e \<and>
         hs_messages hs' = fst (ms_push_req q (hs_messages hs)))"
  using assms host_step_other [OF assms]
  by (cases call)
    (auto simp: quiet_def dest!: host_messages_push_Inr host_replicate_Inr host_messages_send_Inr)

lemma host_step_sent:
  assumes "host_step c d e call hs = Inr (hs', r)"
  shows "hs_fabric_sent hs' = hs_fabric_sent hs \<or>
    (\<exists>i k payload bs. rp_identity_data d = Some i \<and> rp_signing_key d = Some k \<and>
       rp_fabric_send_tx d = OpenSink \<and> list_or_map payload \<and>
       ba_to_vec (ck_bare c) (SignedFabricMessage i (he_random e 16) payload
         (sign_payload (ck_crypto c) k (he_random e 16) payload)) = Some bs \<and>
       hs_fabric_sent hs' = hs_fabric_sent hs @ [bs])"
proof (cases "\<exists>p l. call = CMessagesSend p l")
  case True
  with assms show ?thesis by (fastforce dest: host_messages_send_Inr)
next
  case False
  with assms host_step_other [OF assms] show ?thesis
    by (cases call) (auto simp: quiet_def dest!: host_messages_push_Inr host_replicate_Inr)
qed

section \<open>Runs\<close>

lemma ms_run_Cons: "fst (ms_run (q # qs) s) = fst (ms_run qs (fst (ms_push_req q s)))"
  by (simp add: case_prod_unfold Let_def)

lemma host_run_messages:
  "\<exists>qs. hs_messages (host_run c d calls hs) = fst (ms_run qs (hs_messages hs)) \<and>
     list_all (\<lambda>q. pr_name q = rp_caller_name d \<and> pr_pubkey q = rp_caller_pubkey d) qs"
proof (induction c d calls hs rule: host_run.induct)
  case (1 c d hs)
  show ?case by (rule exI [of _ "[]"]) simp
next
  case (2 c d e mem call calls hs)
  show ?case
  proof (cases "host_step c d e call (hs\<lparr>hs_memory := mem\<rparr>)")
    case (Inl t)
    then show ?thesis by (intro exI [of _ "[]"]) simp
  next
    case (Inr y)
    obtain hs' r where y: "y = (hs', r)" by (cases y)
    obtain qs where qs: "hs_messages (host_run c d calls hs') = fst (ms_run qs (hs_messages hs'))"
      "list_all (\<lambda>q. pr_name q = rp_caller_name d \<and> pr_pubkey q = rp_caller_pubkey d) qs"
      using "2.IH" [OF Inr y [symmetric]] by blast
    from host_step_messages [OF Inr [unfolded y]] show ?thesis
    proof
      assume "hs_messages hs' = hs_messages (hs\<lparr>hs_memory := mem\<rparr>)"
      with qs show ?thesis by (auto simp: Inr y)
    next
      assume "\<exists>q. pr_name q = rp_caller_name d \<and> pr_pubkey q = rp_caller_pubkey d \<and>
        pr_epoch q = he_now e \<and>
        hs_messages hs' = fst (ms_push_req q (hs_messages (hs\<lparr>hs_memory := mem\<rparr>)))"
      then obtain q where "pr_name q = rp_caller_name d \<and> pr_pubkey q = rp_caller_pubkey d"
        "hs_messages hs' = fst (ms_push_req q (hs_messages hs))" by auto
      with qs show ?thesis
        by (intro exI [of _ "q # qs"]) (simp add: Inr y ms_run_Cons del: ms_run.simps)
    qed
  qed
qed

lemma set_pop_while_over: "set (pop_while_over n xs) \<subseteq> set xs"
  by (simp add: pop_while_over_lastn set_lastn_subset)

lemma ms_push_req_stored:
  assumes "m \<in> set (ms_msgs (fst (ms_push_req q s)))"
  shows "m \<in> set (ms_msgs s) \<or> sm_from_name m = pr_name q \<and> sm_from_pubkey m = pr_pubkey q"
  using assms set_pop_while_over
  by (fastforce simp: ms_push_req_def ms_push_def ms_append_def Let_def split: if_splits)

lemma ms_run_stored:
  assumes "m \<in> set (ms_msgs (fst (ms_run qs s)))"
    and "list_all (\<lambda>q. pr_name q = name \<and> pr_pubkey q = key) qs"
  shows "m \<in> set (ms_msgs s) \<or> sm_from_name m = name \<and> sm_from_pubkey m = key"
  using assms
proof (induction qs arbitrary: s)
  case (Cons q qs)
  from Cons.prems have "m \<in> set (ms_msgs (fst (ms_run qs (fst (ms_push_req q s)))))"
    by (simp add: ms_run_Cons del: ms_run.simps)
  from Cons.IH [OF this] Cons.prems(2) ms_push_req_stored [of m q s] show ?case by auto
qed simp

lemma host_run_sent:
  assumes "bs \<in> set (hs_fabric_sent (host_run c d calls hs))"
  shows "bs \<in> set (hs_fabric_sent hs) \<or>
    (\<exists>i k nonce payload. rp_identity_data d = Some i \<and> rp_signing_key d = Some k \<and>
       list_or_map payload \<and> ba_to_vec (ck_bare c) (SignedFabricMessage i nonce payload
         (sign_payload (ck_crypto c) k nonce payload)) = Some bs)"
  using assms
proof (induction c d calls hs rule: host_run.induct)
  case (2 c d e mem call calls hs)
  show ?case
  proof (cases "host_step c d e call (hs\<lparr>hs_memory := mem\<rparr>)")
    case (Inr y)
    obtain hs' r where y: "y = (hs', r)" by (cases y)
    have "bs \<in> set (hs_fabric_sent (host_run c d calls hs'))" using "2.prems" by (simp add: Inr y)
    from "2.IH" [OF Inr y [symmetric] this] host_step_sent [OF Inr [unfolded y]] show ?thesis by auto
  qed (use 2 in simp)
qed simp

section \<open>Pages of messages\<close>

lemma encode_messages_loop_page:
  "\<exists>k \<le> n. encode_messages_loop cb msgs cap n = encode_prefix cb msgs k \<and>
     (k = 0 \<or> length (encode_prefix cb msgs k) \<le> cap) \<and>
     (\<forall>j. k < j \<and> j \<le> n \<longrightarrow> cap < length (encode_prefix cb msgs j))"
proof (induction n)
  case (Suc n)
  show ?case
  proof (cases "length (encode_prefix cb msgs (Suc n)) \<le> cap")
    case True
    then show ?thesis by (intro exI [of _ "Suc n"]) simp
  next
    case False
    from Suc obtain k where "k \<le> n" "encode_messages_loop cb msgs cap n = encode_prefix cb msgs k"
      "k = 0 \<or> length (encode_prefix cb msgs k) \<le> cap"
      "\<forall>j. k < j \<and> j \<le> n \<longrightarrow> cap < length (encode_prefix cb msgs j)" by blast
    with False show ?thesis by (intro exI [of _ k]) (auto simp: le_Suc_eq)
  qed
qed simp

text \<open>\<open>page_of cb msgs cap n\<close>: the first \<open>n\<close> messages are the largest page that fits.\<close>

definition page_of :: "cbor_codec \<Rightarrow> stored_message list \<Rightarrow> nat \<Rightarrow> nat \<Rightarrow> bool" where
  "page_of cb msgs cap n \<longleftrightarrow> n \<le> length msgs \<and>
     (n = 0 \<or> length (encode_prefix cb msgs n) \<le> cap) \<and>
     (\<forall>j. n < j \<and> j \<le> length msgs \<longrightarrow> cap < length (encode_prefix cb msgs j))"

lemma encode_messages_cbor_page:
  "\<exists>n. page_of cb msgs cap n \<and> encode_messages_cbor cb msgs cap = encode_prefix cb msgs n"
  using encode_messages_loop_page [of "length msgs" cb msgs cap]
  by (auto simp: encode_messages_cbor_def page_of_def)

lemma ucast_scast_i32 [simp]: "(ucast (scast (x :: i32) :: i64) :: i32) = x"
  by (rule bit_word_eqI) (simp add: bit_simps)

lemma host_messages_read_page:
  assumes "host_messages_read c a ptr cap hs = Inr (hs', r)"
    and "length (encode_prefix (ck_cbor c) msgs 0) \<le> clamp0 cap"
    and "msgs = ms_read_after (if sint a < 0 then 0 else ucast a) (hs_messages hs)"
  shows "\<exists>n. page_of (ck_cbor c) msgs (clamp0 cap) n \<and>
     read_guest_bytes ptr (ucast r) (hs_memory hs') = Inr (encode_prefix (ck_cbor c) msgs n) \<and>
     hs_messages hs' = hs_messages hs \<and> mem_size (hs_memory hs') = mem_size (hs_memory hs)"
proof -
  obtain n where n: "page_of (ck_cbor c) msgs (clamp0 cap) n"
    "encode_messages_cbor (ck_cbor c) msgs (clamp0 cap) = encode_prefix (ck_cbor c) msgs n"
    using encode_messages_cbor_page by blast
  then have le: "length (encode_prefix (ck_cbor c) msgs n) \<le> clamp0 cap"
    using assms(2) by (auto simp: page_of_def)
  from assms(1,3) n obtain m k where w: "write_guest_bytes ptr (of_nat (clamp0 cap))
      (encode_prefix (ck_cbor c) msgs n) (hs_memory hs) = Inr (m, k)"
    and hs': "hs' = hs\<lparr>hs_memory := m\<rparr>" "r = scast k"
    by (auto simp: host_messages_read_def Let_def write_out_Inr)
  from gm.wr_rd_all [OF w] gm.wr_size [OF w] le hs' n show ?thesis by auto
qed

section \<open>A reader\<close>

text \<open>
  How a program follows the log: ask for what is after the highest number seen, decode the page
  found in the buffer, go on from its last number. One page per round.
\<close>

fun seq_of :: "cbor \<Rightarrow> i64 \<Rightarrow> i64" where
  "seq_of (CMap m) a = (case cbor_get 1 m of Some (CInteger i) \<Rightarrow> word_of_int i | _ \<Rightarrow> a)"
| "seq_of _ a = a"

fun follow_log ::
  "crates \<Rightarrow> i32 \<Rightarrow> i32 \<Rightarrow> nat \<Rightarrow> i64 \<Rightarrow> host_state \<Rightarrow> cbor list option" where
  "follow_log c ptr cap 0 a hs = Some []"
| "follow_log c ptr cap (Suc rounds) a hs =
     (case host_messages_read c a ptr cap hs of
        Inl t \<Rightarrow> None
      | Inr (hs', r) \<Rightarrow>
     (case read_guest_bytes ptr (ucast r) (hs_memory hs') of
        Inl t \<Rightarrow> None
      | Inr bs \<Rightarrow>
     (case cb_from_slice (ck_cbor c) bs of
        Some (CArray vs) \<Rightarrow>
          map_option ((@) vs)
            (follow_log c ptr cap rounds (if vs = [] then a else seq_of (last vs) a) hs')
      | _ \<Rightarrow> None)))"

definition pages_decode :: "cbor_codec \<Rightarrow> stored_message list \<Rightarrow> bool" where
  "pages_decode cb msgs \<longleftrightarrow>
     (\<forall>p. (\<exists>i n. p = take n (drop i msgs)) \<longrightarrow>
        (\<exists>b. cb_to_vec cb (CArray (map message_value p)) = Some b \<and>
             cb_from_slice cb b = Some (CArray (map message_value p))))"

lemma seq_of_message [simp]: "seq_of (message_value m) a = sm_seq m"
  by (simp add: message_value_def cbor_get_def)

lemma sint_small: "(w :: i64) < 2 ^ 63 \<Longrightarrow> 0 \<le> sint w"
proof -
  assume "w < 2 ^ 63"
  then have "uint w < 2 ^ 63" by (simp add: word_less_def)
  moreover have "- (2 ^ 63) \<le> uint w" by (rule order_trans [of _ 0]) simp_all
  ultimately have "sint w = uint w"
    using signed_take_bit_int_eq_self [of 63 "uint w"] by (simp add: sint_uint)
  then show "0 \<le> sint w" by simp
qed

abbreviation seq_sorted :: "stored_message list \<Rightarrow> bool" where
  "seq_sorted \<equiv> sorted_wrt (\<lambda>x y. sm_seq x < sm_seq y)"

lemma filter_after_nth:
  assumes "seq_sorted L" and "0 < n" and "n \<le> length L"
  shows "filter (\<lambda>m. sm_seq (L ! (n - 1)) < sm_seq m) L = drop n L"
proof -
  have "filter (\<lambda>m. sm_seq (L ! (n - 1)) < sm_seq m) (take n L) = []"
  proof -
    have "\<not> sm_seq (L ! (n - 1)) < sm_seq (L ! i)" if "i < n" for i
      using assms sorted_wrt_nth_less [OF assms(1), of i "n - 1"] that
      by (cases "i = n - 1") (auto intro: order.asym)
    then show ?thesis using assms(3) by (force simp: filter_empty_conv in_set_conv_nth)
  qed
  moreover have "filter (\<lambda>m. sm_seq (L ! (n - 1)) < sm_seq m) (drop n L) = drop n L"
    using assms sorted_wrt_nth_less [OF assms(1), of "n - 1"]
    by (auto simp: filter_id_conv in_set_conv_nth)
  ultimately show ?thesis by (metis append_take_drop_id filter_append append_Nil)
qed

lemma read_after_page:
  assumes "seq_sorted (ms_msgs s)" and "0 < n" and "n \<le> length (ms_read_after a s)"
  shows "ms_read_after (sm_seq (ms_read_after a s ! (n - 1))) s = drop n (ms_read_after a s)"
proof -
  let ?L = "ms_read_after a s"
  have mem: "?L ! (n - 1) \<in> set ?L" using assms(2,3) by simp
  then have "a < sm_seq (?L ! (n - 1))" by (simp add: ms_read_after_def)
  then have "ms_read_after (sm_seq (?L ! (n - 1))) s = filter (\<lambda>m. sm_seq (?L ! (n - 1)) < sm_seq m) ?L"
    by (auto simp: ms_read_after_def intro!: filter_cong dest: order.strict_trans)
  also have "\<dots> = drop n ?L"
    using assms by (intro filter_after_nth) (simp_all add: ms_read_after_def sorted_wrt_filter)
  finally show ?thesis .
qed

lemma page_of_progress:
  assumes "page_of cb msgs cap n" and "msgs \<noteq> []" and "length (encode_prefix cb [hd msgs] 1) \<le> cap"
  shows "0 < n"
proof (rule ccontr)
  assume "\<not> 0 < n"
  then have "cap < length (encode_prefix cb msgs 1)"
    using assms(1,2) by (cases msgs) (auto simp: page_of_def)
  moreover have "take 1 msgs = take 1 [hd msgs]" using assms(2) by (cases msgs) auto
  ultimately show False using assms(3) by (simp add: encode_prefix_def)
qed

lemma pages_decode_drop: "pages_decode cb msgs \<Longrightarrow> pages_decode cb (drop n msgs)"
  by (simp add: pages_decode_def) blast

lemma pages_decode_prefix:
  "pages_decode cb msgs \<Longrightarrow>
   cb_from_slice cb (encode_prefix cb msgs n) = Some (CArray (map message_value (take n msgs)))"
  by (fastforce simp: pages_decode_def encode_prefix_def dest: spec [of _ "take n msgs"]
      intro: exI [of _ 0])

text \<open>The buffer lies in the memory, and the empty page and every single message fit it.\<close>

definition buffer_ok :: "crates \<Rightarrow> i32 \<Rightarrow> i32 \<Rightarrow> stored_message list \<Rightarrow> memory \<Rightarrow> bool" where
  "buffer_ok c ptr cap msgs mem \<longleftrightarrow>
     clamp0 ptr + clamp0 cap \<le> mem_size mem \<and> 0 < mem_size mem \<and>
     length (encode_prefix (ck_cbor c) [] 0) \<le> clamp0 cap \<and>
     list_all (\<lambda>m. length (encode_prefix (ck_cbor c) [m] 1) \<le> clamp0 cap) msgs"

lemma host_messages_read_ok:
  assumes "clamp0 ptr + clamp0 cap \<le> mem_size (hs_memory hs)" and "0 < mem_size (hs_memory hs)"
  shows "\<exists>hs' r. host_messages_read c a ptr cap hs = Inr (hs', r)"
proof -
  let ?bs = "encode_messages_cbor (ck_cbor c)
    (ms_read_after (if sint a < 0 then 0 else ucast a) (hs_messages hs)) (clamp0 cap)"
  have "clamp0 ptr + min (length ?bs) (clamp0 (of_nat (clamp0 cap))) \<le> mem_size (hs_memory hs)"
    using assms(1) by simp
  from gm.wr_ok [OF this assms(2)] show ?thesis
    by (auto simp: host_messages_read_def Let_def write_out_def)
qed

lemma follow_log_all:
  assumes "buffer_ok c ptr cap msgs (hs_memory hs)" and "pages_decode (ck_cbor c) msgs"
    and "seq_sorted (ms_msgs (hs_messages hs))"
    and "list_all (\<lambda>m. sm_seq m < 2 ^ 63) (ms_msgs (hs_messages hs))"
    and "0 \<le> sint a" and "msgs = ms_read_after a (hs_messages hs)" and "length msgs \<le> rounds"
  shows "follow_log c ptr cap rounds a hs = Some (map message_value msgs)"
  using assms
proof (induction rounds arbitrary: a hs msgs)
  case (Suc rounds)
  obtain hs' r where rd: "host_messages_read c a ptr cap hs = Inr (hs', r)"
    using host_messages_read_ok [of ptr cap hs c a] Suc.prems(1) by (auto simp: buffer_ok_def)
  have e0: "encode_prefix (ck_cbor c) msgs 0 = encode_prefix (ck_cbor c) [] 0"
    by (simp add: encode_prefix_def)
  have fits: "length (encode_prefix (ck_cbor c) msgs 0) \<le> clamp0 cap"
    using Suc.prems(1) by (simp add: buffer_ok_def e0)
  have af: "msgs = ms_read_after (if sint a < 0 then 0 else ucast a) (hs_messages hs)"
    using Suc.prems(5,6) by simp
  obtain n where n: "page_of (ck_cbor c) msgs (clamp0 cap) n"
    and bs: "read_guest_bytes ptr (ucast r) (hs_memory hs') = Inr (encode_prefix (ck_cbor c) msgs n)"
    and same: "hs_messages hs' = hs_messages hs" "mem_size (hs_memory hs') = mem_size (hs_memory hs)"
    using host_messages_read_page [OF rd fits af] by blast
  let ?a = "if take n msgs = [] then a else seq_of (last (map message_value (take n msgs))) a"
  have step: "follow_log c ptr cap (Suc rounds) a hs =
      map_option ((@) (map message_value (take n msgs))) (follow_log c ptr cap rounds ?a hs')"
    using Suc.prems(2) by (simp add: rd bs pages_decode_prefix)
  show ?case
  proof (cases "msgs = []")
    case True
    have "follow_log c ptr cap rounds a hs' = Some (map message_value [])"
      by (rule Suc.IH) (use Suc.prems True same in \<open>simp_all add: buffer_ok_def\<close>)
    then show ?thesis using step True by simp
  next
    case False
    have "0 < n"
      by (rule page_of_progress [OF n False]) (use Suc.prems(1) False in \<open>cases msgs; simp add: buffer_ok_def\<close>)
    moreover have le: "n \<le> length msgs" using n by (simp add: page_of_def)
    ultimately have nth: "?a = sm_seq (msgs ! (n - 1))"
      using False by (simp add: last_map last_conv_nth)
    have "msgs ! (n - 1) \<in> set (ms_msgs (hs_messages hs))"
      using Suc.prems(6) le \<open>0 < n\<close> nth_mem [of "n - 1" msgs] by (auto simp: ms_read_after_def)
    then have pos: "0 \<le> sint ?a"
      using Suc.prems(4) nth by (simp only: list_all_iff) (blast intro: sint_small)
    have rest: "drop n msgs = ms_read_after ?a (hs_messages hs')"
      using read_after_page [OF Suc.prems(3) \<open>0 < n\<close>, of a] le Suc.prems(6) same nth by simp
    have "follow_log c ptr cap rounds ?a hs' = Some (map message_value (drop n msgs))"
      by (rule Suc.IH [OF _ pages_decode_drop [OF Suc.prems(2)] _ _ pos rest])
        (use Suc.prems same le \<open>0 < n\<close> in \<open>auto simp: buffer_ok_def list_all_iff dest: in_set_dropD\<close>)
    then show ?thesis using step by (simp add: map_append [symmetric] del: map_append)
  qed
qed simp

lemma of_nat_u64_less: "i < j \<Longrightarrow> j < 2 ^ 64 \<Longrightarrow> (of_nat i :: u64) < of_nat j"
  by (simp add: of_nat_word_less_iff take_bit_nat_eq_self)

lemma ms_run_seqs:
  assumes "length rs < 2 ^ 63"
  shows "seq_sorted (ms_msgs (fst (ms_run rs (ms_new cap))))"
    and "list_all (\<lambda>m. sm_seq m < 2 ^ 63) (ms_msgs (fst (ms_run rs (ms_new cap))))"
proof -
  let ?s = "fst (ms_run rs (ms_new cap))" and ?a = "fst (sl_run 4096 rs sl_init)"
  have R: "ms_refines ?s ?a" by (rule ms_refines_run)
  have len: "length (sl_log ?a) < 2 ^ 63"
    using sl_run_log_length [of 4096 rs sl_init] assms by (simp add: sl_init_def)
  have m: "ms_msgs ?s = drop (length (sl_log ?a) - ms_cap ?s) (sl_log ?a)"
    using R by (simp add: ms_refines_def lastn_def)
  have "seq_sorted (sl_log ?a)"
    unfolding sorted_wrt_iff_nth_less using len
    by (auto simp: sl_seqs [OF R] simp del: of_nat_Suc of_nat_add intro!: of_nat_u64_less)
  then show "seq_sorted (ms_msgs ?s)" by (simp add: m sorted_wrt_drop)
  have "sm_seq (sl_log ?a ! i) < 2 ^ 63" if "i < length (sl_log ?a)" for i
    using of_nat_u64_less [of "i + 1" "2 ^ 63"] that len by (simp add: sl_seqs [OF R])
  then show "list_all (\<lambda>m. sm_seq m < 2 ^ 63) (ms_msgs ?s)"
    by (auto simp: m list_all_iff in_set_conv_nth)
qed

section \<open>Properties\<close>

text \<open>Concrete parameters for the witnesses: the program of \<open>demo_identity\<close> on a node with the
  same key, and a CBOR codec that writes a list as its length, enough for empty pages and pages
  of one.\<close>

definition demo_store :: rp_store where
  "demo_store = \<lparr>rp_readable = True, rp_program_is_trusted = True, rp_hostname = ''n1'',
     rp_peer_reports = [], rp_signing_key = Some (replicate 32 7), rp_our_pubkey = replicate 32 7,
     rp_caller_pubkey = replicate 32 7, rp_caller_name = ''alice'',
     rp_trusted_pubkeys = [replicate 32 7], rp_replicate_tx = OpenSink, rp_fabric_send_tx = OpenSink,
     rp_identity_data = Some demo_identity, rp_tty = False, rp_depth = 0, rp_node_addr = None,
     rp_arg_list = [], rp_arg_map = []\<rparr>"

definition demo_env :: host_env where
  "demo_env = \<lparr>he_now = 9, he_random = (\<lambda>n. replicate n 3), he_terminal_size = None,
     he_next_event = None\<rparr>"

definition demo_host :: "bytes \<Rightarrow> host_state" where
  "demo_host mem = \<lparr>hs_memory = Some mem, hs_messages = ms_new 4, hs_map = None,
     hs_forward_uuid = None, hs_replicated = [], hs_fabric_sent = [], hs_stdout = [], hs_tty_out = []\<rparr>"

definition demo_sent :: network_message where
  "demo_sent = SignedFabricMessage demo_identity (replicate 16 3) [0x80]
     (sign_payload demo_crypto (replicate 32 7) (replicate 16 3) [0x80])"

definition demo_crates :: "cbor_codec \<Rightarrow> crates" where
  "demo_crates cb = \<lparr>ck_crypto = demo_crypto, ck_cbor = cb, ck_bare = demo_bare demo_sent [5]\<rparr>"

text \<open>C3: the sandbox. Whatever import a guest calls with whatever pointers and lengths, a call
  that does not trap keeps the size of the guest's memory and changes no byte outside the one
  buffer the call names for its result (no byte at all for a call that has none).\<close>

theorem host_calls_contained:
  assumes "host_step c d e call hs = Inr (hs', r)"
    and "out_buffer call = (start, cap)"
  shows "mem_size (hs_memory hs') = mem_size (hs_memory hs) \<and>
         (\<forall>i. i < start \<or> start + cap \<le> i \<longrightarrow> mem_byte (hs_memory hs') i = mem_byte (hs_memory hs) i)"
  using host_step_contained [OF assms(1)] assms(2) by (simp add: contained_def)

theorem host_calls_contained_witness:
  "\<exists>hs'. host_step (demo_crates (demo_codec CNull [])) demo_store demo_env (CHostname 1 5) (demo_host [0, 0, 0, 0]) =
      Inr (hs', 2) \<and> mem_size (hs_memory hs') = 4 \<and> mem_byte (hs_memory hs') 0 = Some 0 \<and>
    hs_memory hs' = Some [0, 0x6E, 0x31, 0]"
proof -
  have cl: "clamp0 1 = 1" "clamp0 5 = 5" using clamp0_of_nat [of 1] clamp0_of_nat [of 5] by simp_all
  let ?hs = "(demo_host [0, 0, 0, 0])\<lparr>hs_memory := Some [0, 0x6E, 0x31, 0]\<rparr>"
  have st: "host_step (demo_crates (demo_codec CNull [])) demo_store demo_env (CHostname 1 5)
      (demo_host [0, 0, 0, 0]) = Inr (?hs, 2)"
    by (simp add: host_hostname_def write_out_def write_guest_bytes_def cl demo_store_def demo_host_def
        as_bytes_def byte_of_char_def Let_def)
  from host_calls_contained [OF st] st show ?thesis by (simp add: cl demo_host_def mem_size_def mem_byte_def)
qed

text \<open>C4: no program can forge a sender. Whatever calls a program makes, from whatever memory,
  the message store of the node afterwards is the one before with some pushes, each stamped with
  the name and key of the program's verified source; so a stored message is an old one or bears
  exactly that name and key.\<close>

theorem messages_carry_verified_sender:
  assumes "m \<in> set (ms_msgs (hs_messages (host_run c d calls hs)))"
    and "m \<notin> set (ms_msgs (hs_messages hs))"
  shows "sm_from_name m = rp_caller_name d \<and> sm_from_pubkey m = rp_caller_pubkey d"
proof -
  obtain qs where "hs_messages (host_run c d calls hs) = fst (ms_run qs (hs_messages hs))"
    and qs: "list_all (\<lambda>q. pr_name q = rp_caller_name d \<and> pr_pubkey q = rp_caller_pubkey d) qs"
    using host_run_messages by blast
  with assms(1) have "m \<in> set (ms_msgs (fst (ms_run qs (hs_messages hs))))" by simp
  from ms_run_stored [OF this qs] assms(2) show ?thesis by simp
qed

theorem messages_carry_verified_sender_witness:
  "\<exists>m. m \<in> set (ms_msgs (hs_messages (host_run (demo_crates (demo_codec CNull [])) demo_store
       [(demo_env, Some [0x41, 0x42], CMessagesPush 0 1 1 1)] (demo_host [])))) \<and>
     sm_text m = [0x42] \<and> sm_from_name m = ''alice'' \<and> sm_from_pubkey m = replicate 32 7"
proof -
  let ?hs = "host_run (demo_crates (demo_codec CNull [])) demo_store
       [(demo_env, Some [0x41, 0x42], CMessagesPush 0 1 1 1)] (demo_host [])"
  let ?m = "\<lparr>sm_seq = 1, sm_from_name = ''alice'', sm_from_pubkey = replicate 32 7, sm_text = [0x42],
     sm_epoch_s = 9\<rparr>"
  have cl: "clamp0 1 = 1" "clamp0 0 = 0" using clamp0_of_nat [of 1] clamp0_of_nat [of 0] by simp_all
  have m: "?m \<in> set (ms_msgs (hs_messages ?hs))"
    by (simp add: host_messages_push_def with_guest_bytes_def read_guest_bytes_def cl demo_store_def
        demo_host_def demo_env_def ms_push_def ms_new_def ms_remember_def ms_append_def dedup_key_def Let_def)
  have "?m \<notin> set (ms_msgs (hs_messages (demo_host [])))" by (simp add: demo_host_def ms_new_def)
  from messages_carry_verified_sender [OF m this] m show ?thesis
    by (intro exI [of _ ?m]) simp
qed

text \<open>Only genuine messages leave a node. Every datagram a program queues for the fabric
  decodes to a signed message whose source is the node's own identity, whose payload is a CBOR list
  or map, and whose signature verifies against that identity; a node without identity, key or open
  channel queues nothing.\<close>

theorem queued_messages_are_signed:
  assumes "ed25519_laws (ck_crypto c)"
    and "\<And>m. bare_round_trips (ck_bare c) m"
    and "\<And>i k. rp_identity_data d = Some i \<Longrightarrow> rp_signing_key d = Some k \<Longrightarrow>
           id_public_key i = cr_verifying_key (ck_crypto c) k"
    and "bs \<in> set (hs_fabric_sent (host_run c d calls hs))" and "bs \<notin> set (hs_fabric_sent hs)"
  shows "\<exists>i nonce payload signature. rp_identity_data d = Some i \<and>
     ba_from_slice (ck_bare c) bs = Some (SignedFabricMessage i nonce payload signature) \<and>
     list_or_map payload \<and> verify_payload (ck_crypto c) i nonce payload signature = Inr ()"
proof -
  obtain i k nonce payload where ik: "rp_identity_data d = Some i" "rp_signing_key d = Some k"
    and l: "list_or_map payload" and b: "ba_to_vec (ck_bare c) (SignedFabricMessage i nonce payload
         (sign_payload (ck_crypto c) k nonce payload)) = Some bs"
    using host_run_sent [OF assms(4)] assms(5) by blast
  have "verify_payload (ck_crypto c) i nonce payload (sign_payload (ck_crypto c) k nonce payload) = Inr ()"
    using verify_hash_signed [OF assms(1)] assms(3) [OF ik] by (simp add: verify_payload_def sign_payload_def)
  with assms(2) b l ik show ?thesis unfolding bare_round_trips_def by blast
qed

theorem queued_messages_are_signed_witness:
  "\<exists>i nonce payload signature. rp_identity_data demo_store = Some i \<and>
     ba_from_slice (demo_bare demo_sent [5]) [5] = Some (SignedFabricMessage i nonce payload signature) \<and>
     list_or_map payload \<and> verify_payload demo_crypto i nonce payload signature = Inr ()"
proof -
  let ?c = "demo_crates (demo_codec CNull [])"
  have cl: "clamp0 1 = 1" "clamp0 0 = 0" using clamp0_of_nat [of 1] clamp0_of_nat [of 0] by simp_all
  have own: "id_public_key demo_identity = cr_verifying_key demo_crypto (replicate 32 7)"
    by (simp add: demo_identity_def demo_crypto_def)
  have lm: "list_or_map [0x80]" by (simp add: list_or_map_def)
  have sent: "[5] \<in> set (hs_fabric_sent (host_run ?c demo_store
      [(demo_env, Some [0x80], CMessagesSend 0 1)] (demo_host [])))"
    using lm by (simp add: host_messages_send_def with_guest_bytes_def read_guest_bytes_def cl demo_store_def
        demo_host_def demo_env_def demo_crates_def demo_bare_def demo_sent_def return_i32_def Let_def)
  have "\<exists>i nonce payload signature. rp_identity_data demo_store = Some i \<and>
     ba_from_slice (ck_bare ?c) [5] = Some (SignedFabricMessage i nonce payload signature) \<and>
     list_or_map payload \<and> verify_payload (ck_crypto ?c) i nonce payload signature = Inr ()"
    by (rule queued_messages_are_signed [OF _ _ _ sent])
      (auto simp: demo_crates_def demo_crypto_laws demo_bare_round_trips demo_host_def demo_store_def own)
  then show ?thesis by (simp add: demo_crates_def)
qed

text \<open>A page of messages. A successful \<open>messages_read\<close> leaves in the guest's buffer the CBOR
  array of a prefix of the messages after the given number, oldest first; the prefix is the longest
  one that fits the buffer (larger prefixes all exceed it), the reported length is the array's, and
  the store is not changed.\<close>

theorem messages_read_longest_prefix:
  assumes "host_messages_read c a ptr cap hs = Inr (hs', r)"
    and "length (encode_prefix (ck_cbor c) msgs 0) \<le> clamp0 cap"
    and "msgs = ms_read_after (if sint a < 0 then 0 else ucast a) (hs_messages hs)"
  shows "\<exists>n \<le> length msgs.
     read_guest_bytes ptr (ucast r) (hs_memory hs') = Inr (encode_prefix (ck_cbor c) msgs n) \<and>
     length (encode_prefix (ck_cbor c) msgs n) \<le> clamp0 cap \<and>
     (\<forall>j. n < j \<and> j \<le> length msgs \<longrightarrow> clamp0 cap < length (encode_prefix (ck_cbor c) msgs j)) \<and>
     hs_messages hs' = hs_messages hs"
  using host_messages_read_page [OF assms] assms(2) by (auto simp: page_of_def)


text \<open>The converse: a message too large for the reader's buffer stops the reader for good. When
  no prefix that contains the next message fits, every round returns an empty page and the reader
  never sees that message or any after it.\<close>

theorem oversized_message_blocks:
  assumes "msgs = ms_read_after a (hs_messages hs)" and "0 \<le> sint a"
    and "\<forall>j. 0 < j \<and> j \<le> length msgs \<longrightarrow> clamp0 cap < length (encode_prefix (ck_cbor c) msgs j)"
    and "length (encode_prefix (ck_cbor c) [] 0) \<le> clamp0 cap"
    and "cb_from_slice (ck_cbor c) (encode_prefix (ck_cbor c) [] 0) = Some (CArray [])"
    and "clamp0 ptr + clamp0 cap \<le> mem_size (hs_memory hs)" and "0 < mem_size (hs_memory hs)"
  shows "follow_log c ptr cap rounds a hs = Some []"
  using assms(1,6,7)
proof (induction rounds arbitrary: hs)
  case (Suc rounds)
  obtain hs' r where rd: "host_messages_read c a ptr cap hs = Inr (hs', r)"
    using host_messages_read_ok [of ptr cap hs c a] Suc.prems by auto
  have e0: "encode_prefix (ck_cbor c) msgs 0 = encode_prefix (ck_cbor c) [] 0"
    by (simp add: encode_prefix_def)
  have fits: "length (encode_prefix (ck_cbor c) msgs 0) \<le> clamp0 cap" using assms(4) by (simp only: e0)
  have af: "msgs = ms_read_after (if sint a < 0 then 0 else ucast a) (hs_messages hs)"
    using Suc.prems(1) assms(2) by simp
  obtain n where n: "page_of (ck_cbor c) msgs (clamp0 cap) n"
    and bs: "read_guest_bytes ptr (ucast r) (hs_memory hs') = Inr (encode_prefix (ck_cbor c) msgs n)"
    and same: "hs_messages hs' = hs_messages hs" "mem_size (hs_memory hs') = mem_size (hs_memory hs)"
    using host_messages_read_page [OF rd fits af] by blast
  have "n = 0"
  proof (rule ccontr)
    assume "n \<noteq> 0"
    with n assms(3) show False by (fastforce simp: page_of_def)
  qed
  with bs Suc.IH [of hs'] Suc.prems same rd e0 assms(5) show ?case by simp
qed simp

text \<open>Two messages, and a codec that knows the four pages they make.\<close>

definition demo_m1 :: stored_message where "demo_m1 = sl_message 1 (demo_req 1 1)"
definition demo_m2 :: stored_message where "demo_m2 = sl_message 2 (demo_req 2 1)"

definition demo_pages :: "(cbor \<times> bytes) list" where
  "demo_pages = [(CArray [], [0x80]), (CArray [message_value demo_m1], [0x81, 1]),
     (CArray [message_value demo_m2], [0x81, 2]),
     (CArray [message_value demo_m1, message_value demo_m2], [0x82, 1, 2])]"

definition page_codec :: cbor_codec where
  "page_codec = \<lparr>cb_to_vec = map_of demo_pages,
     cb_from_slice = map_of (map (\<lambda>(v, b). (b, v)) demo_pages)\<rparr>"

definition demo_full_host :: host_state where
  "demo_full_host = (demo_host [0, 0, 0, 0])\<lparr>hs_messages := fst (ms_run [demo_req 1 1, demo_req 2 1] (ms_new 4))\<rparr>"

lemma demo_values: "message_value demo_m1 \<noteq> message_value demo_m2"
  by (simp add: message_value_def demo_m1_def demo_m2_def sl_message_def demo_req_def)

lemma demo_full_msgs:
  "ms_msgs (hs_messages demo_full_host) = [demo_m1, demo_m2]" "hs_memory demo_full_host = Some [0, 0, 0, 0]"
  by (simp_all add: demo_full_host_def demo_m1_def demo_m2_def demo_run_simps demo_host_def)

lemma demo_read_after: "ms_read_after 0 (hs_messages demo_full_host) = [demo_m1, demo_m2]"
  unfolding ms_read_after_def demo_full_msgs by (simp add: demo_m1_def demo_m2_def sl_message_def)

lemma demo_prefixes:
  "encode_prefix page_codec msgs 0 = [0x80]"
  "encode_prefix page_codec [demo_m1] 1 = [0x81, 1]" "encode_prefix page_codec [demo_m2] 1 = [0x81, 2]"
  "encode_prefix page_codec [demo_m1, demo_m2] 1 = [0x81, 1]"
  "encode_prefix page_codec [demo_m1, demo_m2] 2 = [0x82, 1, 2]"
  using demo_values by (simp_all add: encode_prefix_def page_codec_def demo_pages_def)

lemma demo_pages_decode: "pages_decode page_codec [demo_m1, demo_m2]"
  unfolding pages_decode_def
proof (intro allI impI, elim exE)
  fix p n i
  assume "p = take n (drop i [demo_m1, demo_m2])"
  then have "p \<in> {[], [demo_m1], [demo_m2], [demo_m1, demo_m2]}"
    by (cases n; cases i) (auto simp: take_Cons' drop_Cons')
  then consider "p = []" | "p = [demo_m1]" | "p = [demo_m2]" | "p = [demo_m1, demo_m2]" by blast
  then show "\<exists>b. cb_to_vec page_codec (CArray (map message_value p)) = Some b \<and>
      cb_from_slice page_codec b = Some (CArray (map message_value p))"
    using demo_values by cases (simp_all add: page_codec_def demo_pages_def)
qed

lemma demo_clamps: "clamp0 0 = 0" "clamp0 1 = 1" "clamp0 2 = 2"
  using clamp0_of_nat [of 0] clamp0_of_nat [of 1] clamp0_of_nat [of 2] by simp_all

theorem messages_read_longest_prefix_witness:
  "\<exists>hs' r. host_messages_read (demo_crates page_codec) 0 0 2 demo_full_host = Inr (hs', r) \<and>
     read_guest_bytes 0 (ucast r) (hs_memory hs') = Inr [0x81, 1]"
proof -
  obtain hs' r where rd: "host_messages_read (demo_crates page_codec) 0 0 2 demo_full_host = Inr (hs', r)"
    using host_messages_read_ok [of 0 2 demo_full_host "demo_crates page_codec" 0]
    by (auto simp: demo_clamps demo_full_msgs mem_size_def)
  have ck: "ck_cbor (demo_crates page_codec) = page_codec" by (simp add: demo_crates_def)
  have f: "length (encode_prefix (ck_cbor (demo_crates page_codec)) [demo_m1, demo_m2] 0) \<le> clamp0 2"
    by (simp add: ck demo_prefixes demo_clamps)
  have af: "[demo_m1, demo_m2] = ms_read_after (if sint (0 :: i64) < 0 then 0 else ucast (0 :: i64))
      (hs_messages demo_full_host)"
    by (simp add: demo_read_after)
  obtain n where n: "n \<le> length [demo_m1, demo_m2]"
    "read_guest_bytes 0 (ucast r) (hs_memory hs') = Inr (encode_prefix page_codec [demo_m1, demo_m2] n)"
    "length (encode_prefix page_codec [demo_m1, demo_m2] n) \<le> 2"
    "\<forall>j. n < j \<and> j \<le> length [demo_m1, demo_m2] \<longrightarrow>
      2 < length (encode_prefix page_codec [demo_m1, demo_m2] j)"
    using messages_read_longest_prefix [OF rd f af, unfolded ck demo_clamps] by blast
  have len: "length [demo_m1, demo_m2] = 2" by simp
  have l1: "\<not> 2 < length (encode_prefix page_codec [demo_m1, demo_m2] 1)"
    and l2: "\<not> length (encode_prefix page_codec [demo_m1, demo_m2] 2) \<le> 2"
    by (simp_all only: demo_prefixes) simp_all
  have "\<not> n < 1" using spec [OF n(4), of 1] l1 len by linarith
  moreover have "n \<noteq> 2" using n(3) l2 by blast
  ultimately have "n = 1" using n(1) len by linarith
  then have "read_guest_bytes 0 (ucast r) (hs_memory hs') = Inr [0x81, 1]"
    using n(2) by (simp only: demo_prefixes)
  with rd show ?thesis by blast
qed


theorem oversized_message_blocks_witness:
  "follow_log (demo_crates page_codec) 0 1 100 0 demo_full_host = Some [] \<and>
   ms_read_after 0 (hs_messages demo_full_host) \<noteq> []"
proof -
  have l: "1 < length (encode_prefix page_codec [demo_m1, demo_m2] 1)"
    "1 < length (encode_prefix page_codec [demo_m1, demo_m2] 2)"
    by (simp_all only: demo_prefixes) simp_all
  have "0 < j \<and> j \<le> 2 \<longrightarrow> 1 < length (encode_prefix page_codec [demo_m1, demo_m2] j)" for j
  proof
    assume "0 < j \<and> j \<le> 2"
    then have "j = 1 \<or> j = 2" by linarith
    with l show "1 < length (encode_prefix page_codec [demo_m1, demo_m2] j)" by blast
  qed
  then have "follow_log (demo_crates page_codec) 0 1 100 0 demo_full_host = Some []"
    by (intro oversized_message_blocks [of "[demo_m1, demo_m2]"])
      (simp_all add: demo_read_after demo_clamps demo_crates_def demo_prefixes demo_full_msgs
        mem_size_def numeral_2_eq_2, simp add: page_codec_def demo_pages_def)
  then show ?thesis by (simp add: demo_read_after)
qed

text \<open>A program's copy gets the arguments it asked for: the CBOR a guest builds from a list and
  named pairs decodes to exactly these.\<close>

definition replicate_args_value :: "string list \<Rightarrow> (string \<times> string) list \<Rightarrow> cbor" where
  "replicate_args_value xs kvs =
     CMap [(CInteger 1, CArray (map CText xs)),
           (CInteger 2, CArray (map CText (concat (map (\<lambda>(k, v). [k, v]) kvs))))]"

lemma pair_up_flat: "pair_up (concat (map (\<lambda>(k, v). [k, v]) kvs)) = kvs"
  by (induction kvs) auto

lemma pair_up_odd: "pair_up (concat (map (\<lambda>(k, v). [k, v]) kvs) @ [x]) = kvs"
  by (induction kvs) auto

lemma map_text_of_item [simp]: "map text_of_item (map CText xs) = xs"
  by (induction xs) simp_all

text \<open>A replicated copy runs with the arguments its parent asked for. For every list and every
  sequence of named pairs, keys repeated or not, the CBOR map the host API documents queues one
  request with exactly that list and these pairs in order, when the channel is open; when it is
  not, nothing is queued and the answer is -1.\<close>

theorem replicate_round_trip:
  assumes "cb_from_slice (ck_cbor c) bs = Some (replicate_args_value xs kvs)"
    and "read_guest_bytes ptr len (hs_memory hs) = Inr bs"
  shows "host_replicate d c scope ptr len hs =
    (if rp_replicate_tx d = OpenSink
     then Inr (hs\<lparr>hs_replicated := hs_replicated hs @ [\<lparr>rr_arg_list = xs, rr_arg_map = kvs\<rparr>]\<rparr>, 0)
     else Inr (hs, - 1))"
proof -
  have dec: "decode_replicate_args (ck_cbor c) bs = (xs, kvs)"
    using assms(1) by (simp add: decode_replicate_args_def replicate_args_value_def as_texts_def
        cbor_get_def pair_up_flat del: map_map)
  have "scast (- 1 :: i32) = (- 1 :: i64)" by simp
  with dec show ?thesis
    using assms(2) by (cases "rp_replicate_tx d")
      (auto simp: host_replicate_def with_guest_bytes_def return_i32_def)
qed

theorem replicate_round_trip_witness:
  "host_replicate demo_store
     (demo_crates (demo_codec (replicate_args_value [''a''] [(''mode'', ''ui''), (''mode'', ''x'')]) [0xA2, 1])) 0 1 2
     (demo_host [0, 0xA2, 1, 0]) =
   Inr ((demo_host [0, 0xA2, 1, 0])\<lparr>hs_replicated :=
     [\<lparr>rr_arg_list = [''a''], rr_arg_map = [(''mode'', ''ui''), (''mode'', ''x'')]\<rparr>]\<rparr>, 0)"
proof -
  let ?c = "demo_crates (demo_codec (replicate_args_value [''a''] [(''mode'', ''ui''), (''mode'', ''x'')]) [0xA2, 1])"
  have f: "cb_from_slice (ck_cbor ?c) [0xA2, 1] = Some (replicate_args_value [''a''] [(''mode'', ''ui''), (''mode'', ''x'')])"
    by (simp add: demo_crates_def demo_codec_def)
  have "read_guest_bytes 1 2 (hs_memory (demo_host [0, 0xA2, 1, 0])) = Inr [0xA2, 1]"
    by (simp add: demo_host_def read_guest_bytes_def demo_clamps numeral_2_eq_2)
  from replicate_round_trip [OF f this, of demo_store 0] show ?thesis
    by (simp add: demo_store_def demo_host_def)
qed

end
