(* ===== verification/Net.thy ===== *)
theory Net
  imports Prelude
begin

text \<open>
  Addresses and \<open>src/net_utils.rs\<close>: which of a peer's hosts is used, which local address
  faces a caller, and the textual form of addresses (the standard library's \<open>Display\<close>).
  DNS and what the machine says of its interfaces are the environment's: arguments.
\<close>

section \<open>Addresses\<close>

type_synonym u128 = "128 word"

datatype ip_addr = V4 u32 | V6 u128

datatype socket_addr = SockV4 u32 u16 | SockV6 u128 u16 u32 u32

fun is_ipv4 :: "ip_addr \<Rightarrow> bool" where
  "is_ipv4 (V4 _) = True"
| "is_ipv4 (V6 _) = False"

fun sock_ip :: "socket_addr \<Rightarrow> ip_addr" where
  "sock_ip (SockV4 a _) = V4 a"
| "sock_ip (SockV6 a _ _ _) = V6 a"

fun sock_of :: "ip_addr \<Rightarrow> u16 \<Rightarrow> socket_addr" where
  "sock_of (V4 a) port = SockV4 a port"
| "sock_of (V6 a) port = SockV6 a port 0 0"

fun is_loopback :: "ip_addr \<Rightarrow> bool" where
  "is_loopback (V4 a) \<longleftrightarrow> drop_bit 24 a = 127"
| "is_loopback (V6 a) \<longleftrightarrow> a = 1"

fun is_unspecified :: "ip_addr \<Rightarrow> bool" where
  "is_unspecified (V4 a) \<longleftrightarrow> a = 0"
| "is_unspecified (V6 a) \<longleftrightarrow> a = 0"

fun is_multicast :: "ip_addr \<Rightarrow> bool" where
  "is_multicast (V4 a) \<longleftrightarrow> drop_bit 28 a = 0xE"
| "is_multicast (V6 a) \<longleftrightarrow> drop_bit 120 a = 0xFF"

subsection \<open>Display\<close>

definition digit_char :: "nat \<Rightarrow> char" where
  "digit_char d = ''0123456789abcdef'' ! d"

fun show_base :: "nat \<Rightarrow> nat \<Rightarrow> string" where
  "show_base b n = (if b < 2 \<or> n < b then [digit_char n] else show_base b (n div b) @ [digit_char (n mod b)])"

declare show_base.simps [simp del]

definition show_nat :: "nat \<Rightarrow> string" where "show_nat = show_base 10"

definition show_ipv4 :: "u32 \<Rightarrow> string" where
  "show_ipv4 a =
     (let octet = (\<lambda>i. show_nat (unat (drop_bit i a AND 0xFF)))
      in octet 24 @ ''.'' @ octet 16 @ ''.'' @ octet 8 @ ''.'' @ octet 0)"

definition segments :: "u128 \<Rightarrow> nat list" where
  "segments a = map (\<lambda>i. unat (drop_bit (112 - 16 * i) a AND 0xFFFF)) [0..<8]"

text \<open>The longest run of zero segments, the first of the longest: start and length.\<close>

fun zero_runs :: "nat \<Rightarrow> nat list \<Rightarrow> (nat \<times> nat) list" where
  "zero_runs i [] = []"
| "zero_runs i (s # ss) = (i, length (takeWhile (\<lambda>x. x = 0) (s # ss))) # zero_runs (Suc i) ss"

definition longest_run :: "nat list \<Rightarrow> nat \<times> nat" where
  "longest_run ss = fold (\<lambda>(i, l) (bi, bl). if bl < l then (i, l) else (bi, bl)) (zero_runs 0 ss) (0, 0)"

fun join :: "string \<Rightarrow> string list \<Rightarrow> string" where
  "join sep [] = []"
| "join sep [s] = s"
| "join sep (s # ss) = s @ sep @ join sep ss"

definition show_ipv6 :: "u128 \<Rightarrow> string" where
  "show_ipv6 a =
     (let ss = segments a; (start, len) = longest_run ss; hex = (\<lambda>xs. join '':'' (map (show_base 16) xs)) in
      if drop_bit 32 a = 0xFFFF then ''::ffff:'' @ show_ipv4 (ucast a)
      else if 1 < len then hex (take start ss) @ ''::'' @ hex (drop (start + len) ss)
      else hex ss)"

fun show_ip :: "ip_addr \<Rightarrow> string" where
  "show_ip (V4 a) = show_ipv4 a"
| "show_ip (V6 a) = show_ipv6 a"

fun show_socket_addr :: "socket_addr \<Rightarrow> string" where
  "show_socket_addr (SockV4 a port) = show_ipv4 a @ '':'' @ show_nat (unat port)"
| "show_socket_addr (SockV6 a port flow scope) =
     ''['' @ show_ipv6 a @ (if scope = 0 then [] else ''%'' @ show_nat (unat scope)) @ '']:'' @ show_nat (unat port)"

section \<open>net_utils\<close>

text \<open>
  \<open>lookup_host\<close> is the resolver: the addresses of a host and port, or an error (\<open>None\<close>).
  The first candidate with at least one address wins.
\<close>

fun resolve_peer_addr ::
  "(string \<Rightarrow> u16 \<Rightarrow> socket_addr list option) \<Rightarrow> string list \<Rightarrow> u16 \<Rightarrow> socket_addr option" where
  "resolve_peer_addr lookup_host [] port = None"
| "resolve_peer_addr lookup_host (host # hosts) port =
     (case lookup_host host port of
        Some (addr # _) \<Rightarrow> Some addr
      | Some [] \<Rightarrow> resolve_peer_addr lookup_host hosts port
      | None \<Rightarrow> resolve_peer_addr lookup_host hosts port)"

definition leading_zeros :: "'a::len word \<Rightarrow> nat" where
  "leading_zeros w = length (takeWhile (\<lambda>i. \<not> bit w i) (rev [0..<LENGTH('a)]))"

fun common_prefix_bits :: "ip_addr \<Rightarrow> ip_addr \<Rightarrow> nat" where
  "common_prefix_bits (V4 a) (V4 b) = leading_zeros (a XOR b)"
| "common_prefix_bits (V6 a) (V6 b) = leading_zeros (a XOR b)"
| "common_prefix_bits _ _ = 0"

fun same_family :: "ip_addr \<Rightarrow> ip_addr \<Rightarrow> bool" where
  "same_family (V4 _) (V4 _) = True"
| "same_family (V6 _) (V6 _) = True"
| "same_family _ _ = False"

type_synonym interface = "u32 \<times> string \<times> ip_addr list"

text \<open>What the system answers about an interface: index, name, and its addresses or an error. An error of
  the whole enumeration leaves no interface, an error of one leaves that interface without address.\<close>

type_synonym system_interface = "u32 \<times> string \<times> ip_addr list option"

definition getifs_addrs_to_first_IpAddr :: "ip_addr list option \<Rightarrow> ip_addr list" where
  "getifs_addrs_to_first_IpAddr addrs = (case addrs of Some addrs \<Rightarrow> addrs | None \<Rightarrow> [])"

definition get_interfaces :: "system_interface list option \<Rightarrow> interface list" where
  "get_interfaces interfaces =
     map (\<lambda>(index, name, addrs). (index, name, getifs_addrs_to_first_IpAddr addrs))
       (case interfaces of Some ifs \<Rightarrow> ifs | None \<Rightarrow> [])"

text \<open>One address of the scan: skipped, or taken when it beats the best prefix so far.\<close>

definition facing_step :: "ip_addr \<Rightarrow> ip_addr \<Rightarrow> (nat \<times> ip_addr) option \<Rightarrow> (nat \<times> ip_addr) option" where
  "facing_step peer addr best =
     (if \<not> same_family addr peer \<or> is_unspecified addr then best
      else if is_loopback addr \<and> \<not> is_loopback peer then best
      else let bits = common_prefix_bits addr peer in
        case best of
          None \<Rightarrow> Some (bits, addr)
        | Some (best_bits, _) \<Rightarrow> if best_bits < bits then Some (bits, addr) else best)"

definition local_addr_facing :: "interface list \<Rightarrow> ip_addr \<Rightarrow> ip_addr option" where
  "local_addr_facing interfaces peer =
     map_option snd
       (fold (\<lambda>(_, _, addrs) best. fold (facing_step peer) addrs best) interfaces None)"

definition eligible_facing :: "ip_addr \<Rightarrow> ip_addr \<Rightarrow> bool" where
  "eligible_facing peer addr \<longleftrightarrow>
     same_family addr peer \<and> \<not> is_unspecified addr \<and> (is_loopback addr \<longrightarrow> is_loopback peer)"

lemma facing_fold_concat:
  "fold (\<lambda>(_, _, addrs) best. fold (facing_step peer) addrs best) ifs b =
   fold (facing_step peer) (concat (map (snd \<circ> snd) ifs)) b"
  by (induction ifs arbitrary: b) (auto simp: fold_append)

text \<open>The scan keeps an eligible address of the longest prefix.\<close>

definition facing_best :: "ip_addr \<Rightarrow> ip_addr set \<Rightarrow> (nat \<times> ip_addr) option \<Rightarrow> bool" where
  "facing_best peer A best \<longleftrightarrow>
     (case best of
        None \<Rightarrow> \<forall>a \<in> A. \<not> eligible_facing peer a
      | Some (bits, a) \<Rightarrow> a \<in> A \<and> eligible_facing peer a \<and> bits = common_prefix_bits a peer \<and>
          (\<forall>a' \<in> A. eligible_facing peer a' \<longrightarrow> common_prefix_bits a' peer \<le> bits))"

lemma facing_step_eligible:
  "facing_step peer a b =
     (if eligible_facing peer a \<and> (\<forall>n c. b = Some (n, c) \<longrightarrow> n < common_prefix_bits a peer)
      then Some (common_prefix_bits a peer, a) else b)"
  by (cases b) (auto simp: facing_step_def eligible_facing_def Let_def)

lemma facing_step_best:
  assumes "facing_best peer A b"
  shows "facing_best peer (insert a A) (facing_step peer a b)"
proof (cases b)
  case None
  with assms show ?thesis by (auto simp: facing_best_def facing_step_eligible)
next
  case (Some p)
  then obtain n c where b: "b = Some (n, c)" by (cases p) auto
  with assms have "c \<in> A" "eligible_facing peer c" "n = common_prefix_bits c peer"
    and le: "\<forall>a' \<in> A. eligible_facing peer a' \<longrightarrow> common_prefix_bits a' peer \<le> n"
    by (auto simp: facing_best_def)
  then show ?thesis
    by (auto simp: b facing_best_def facing_step_eligible intro: order_trans less_imp_le)
qed

lemma facing_fold_best:
  "facing_best peer A b \<Longrightarrow> facing_best peer (A \<union> set addrs) (fold (facing_step peer) addrs b)"
proof (induction addrs arbitrary: A b)
  case (Cons a addrs)
  from Cons.IH [OF facing_step_best [OF Cons.prems, of a]] show ?case by simp
qed simp

text \<open>The address a node reports about itself: an address of one of its own interfaces, of
  the caller's family, not the unspecified one, a loopback one only for a loopback caller, and
  none of the other candidates shares a longer prefix with the caller; \<open>None\<close> exactly when
  there is no candidate.\<close>

theorem local_addr_facing_best:
  "facing_best peer (set (concat (map (snd \<circ> snd) interfaces)))
     (map_option (\<lambda>a. (common_prefix_bits a peer, a)) (local_addr_facing interfaces peer))"
proof -
  let ?A = "set (concat (map (snd \<circ> snd) interfaces))"
  let ?b = "fold (facing_step peer) (concat (map (snd \<circ> snd) interfaces)) None"
  have "facing_best peer {} None" by (simp add: facing_best_def)
  from facing_fold_best [OF this, of "concat (map (snd \<circ> snd) interfaces)"]
  have b: "facing_best peer ?A ?b" by simp
  then have "map_option (\<lambda>a. (common_prefix_bits a peer, a)) (map_option snd ?b) = ?b"
    by (auto simp: facing_best_def split: option.splits)
  then show ?thesis using b by (simp add: local_addr_facing_def facing_fold_concat)
qed

text \<open>An interface whose addresses cannot be read does not hide the others.\<close>

lemma unreadable_interface_skipped:
  "local_addr_facing (get_interfaces (Some (xs @ (index, name, None) # ys))) peer =
   local_addr_facing (get_interfaces (Some (xs @ ys))) peer"
  by (simp add: local_addr_facing_def get_interfaces_def getifs_addrs_to_first_IpAddr_def)

end
