(* ===== verification/Executor.thy ===== *)
theory Executor
  imports Guest_Calls Net
begin

text \<open>
  The executor's own state and operations (\<open>Executor\<close> in \<open>src/executor/mod.rs\<close>): trusted
  keys, observed peers, the start of a program and the snapshot it runs on. wasmtime is a crate:
  whether an engine can be built for a configuration and a module compiles are the fields of
  \<open>wasm_engine\<close>. When a started program ends is the subject of \<open>Lifecycle\<close>.
\<close>

section \<open>State\<close>

record peer_info =
  pi_human_name :: string
  pi_pubkey :: bytes
  pi_last_addr :: socket_addr
  pi_trusted :: bool
  pi_last_seen_epoch_s :: u64

record running_program =
  run_data :: program_data
  run_pid :: u64
  run_program_is_trusted :: bool
  run_spawn_error :: "string option"

record executor =
  ex_next_pid :: u64
  ex_untrusted_allowed_instructions :: u64
  ex_trusted_allowed_instructions :: u64
  ex_running_programs :: "(u64, running_program) dashmap"
  ex_pid_last_exit_code :: "(u64, u32) dashmap"
  ex_trusted_keys :: "(string, bytes) dashmap"
  ex_hostname :: string
  ex_peers :: "(string, peer_info) dashmap"
  ex_messages :: message_store
  ex_identity_signing_key :: "bytes option"
  ex_identity_pubkey :: bytes
  ex_identity_data :: "identity_data option"

record exec_options =
  eo_node_addr :: "string option"
  eo_replicate_tx :: sink
  eo_fabric_send_tx :: sink
  eo_tty :: bool
  eo_uncapped_fuel :: bool

definition exec_options_default :: exec_options where
  "exec_options_default = \<lparr>eo_node_addr = None, eo_replicate_tx = NoSink, eo_fabric_send_tx = NoSink,
     eo_tty = False, eo_uncapped_fuel = False\<rparr>"

record wasm_engine =
  we_engine_ok :: bool
  we_module_ok :: "bytes \<Rightarrow> bool"

section \<open>Construction\<close>

text \<open>\<open>Path::file_name\<close>: the last component, unless that is \<open>..\<close> or there is none.\<close>

fun path_components_from :: "string \<Rightarrow> string \<Rightarrow> string list" where
  "path_components_from acc [] = [rev acc]"
| "path_components_from acc (c # cs) =
     (if c = CHR ''/'' then rev acc # path_components_from [] cs else path_components_from (c # acc) cs)"

definition path_file_name :: "string \<Rightarrow> string option" where
  "path_file_name p =
     (let cs = filter (\<lambda>x. x \<noteq> [] \<and> x \<noteq> ''.'') (path_components_from [] p) in
      if cs = [] \<or> last cs = ''..'' then None else Some (last cs))"

text \<open>The \<open>hostname\<close> command: its stdout when it ran and succeeded.\<close>

definition get_hostname :: "bytes option \<Rightarrow> string" where
  "get_hostname command_output =
     (case command_output of
        Some stdout \<Rightarrow> let name = trim (from_utf8_lossy stdout) in
          if name = [] then ''unknown-host'' else name
      | None \<Rightarrow> ''unknown-host'')"

definition executor_new ::
  "crypto \<Rightarrow> key_codec \<Rightarrow> string \<Rightarrow> string \<Rightarrow> bytes option \<Rightarrow> u64 \<Rightarrow> executor" where
  "executor_new cr kc name keyfile command_output now =
     (let hostname = get_hostname command_output;
          signing_key = (case read_private_key_ed25519_pem_file kc keyfile of Inr k \<Rightarrow> Some k | Inl _ \<Rightarrow> None)
      in \<lparr>ex_next_pid = 0, ex_untrusted_allowed_instructions = 16 * 1024,
          ex_trusted_allowed_instructions = - 1, ex_running_programs = [], ex_pid_last_exit_code = [],
          ex_trusted_keys = [], ex_hostname = hostname, ex_peers = [], ex_messages = ms_new 4096,
          ex_identity_signing_key = signing_key,
          ex_identity_pubkey = (case signing_key of Some k \<Rightarrow> cr_verifying_key cr k | None \<Rightarrow> []),
          ex_identity_data =
            (case generate_from_config cr kc name keyfile now of Inr i \<Rightarrow> Some i | Inl _ \<Rightarrow> None)\<rparr>)"

definition add_trusted_key :: "string \<Rightarrow> bytes \<Rightarrow> executor \<Rightarrow> executor" where
  "add_trusted_key name key ex = ex\<lparr>ex_trusted_keys := dm_insert name key (ex_trusted_keys ex)\<rparr>"

text \<open>The startup task: trust our own key, under the key file's name.\<close>

definition executor_startup :: "crypto \<Rightarrow> key_codec \<Rightarrow> string \<Rightarrow> executor \<Rightarrow> executor" where
  "executor_startup cr kc keyfile ex =
     (case read_public_key_ed25519_pem_file kc cr keyfile of
        Inr our_pub_key \<Rightarrow>
          add_trusted_key
            (case path_file_name keyfile of Some f \<Rightarrow> from_utf8_lossy (as_bytes f) | None \<Rightarrow> ''SELF'')
            our_pub_key ex
      | Inl e \<Rightarrow> ex)"

section \<open>Trust and peers\<close>

definition trusts_pubkey :: "bytes \<Rightarrow> executor \<Rightarrow> bool" where
  "trusts_pubkey pubkey ex = list_ex (\<lambda>key. key = pubkey) (dm_values (ex_trusted_keys ex))"

definition observed_targets :: "executor \<Rightarrow> (socket_addr \<times> bytes) list" where
  "observed_targets ex = map (\<lambda>p. (pi_last_addr p, pi_pubkey p)) (dm_values (ex_peers ex))"

definition note_peer :: "u64 \<Rightarrow> socket_addr \<Rightarrow> identity_data \<Rightarrow> executor \<Rightarrow> executor" where
  "note_peer now addr source ex =
     (let trusted = list_ex (\<lambda>key. id_public_key source = key) (dm_values (ex_trusted_keys ex))
      in ex\<lparr>ex_peers := dm_insert (to_hex (id_public_key source))
           \<lparr>pi_human_name = id_human_name source, pi_pubkey = id_public_key source,
            pi_last_addr = addr, pi_trusted = trusted, pi_last_seen_epoch_s = now\<rparr> (ex_peers ex)\<rparr>)"

definition record_fabric_message ::
  "string \<Rightarrow> bytes \<Rightarrow> bytes \<Rightarrow> bytes \<Rightarrow> u64 \<Rightarrow> executor \<Rightarrow> executor \<times> u64" where
  "record_fabric_message from_name from_pubkey id_bytes payload epoch_s ex =
     (let (store, seq) = ms_push from_name from_pubkey id_bytes payload epoch_s (ex_messages ex)
      in (ex\<lparr>ex_messages := store\<rparr>, seq))"

section \<open>Starting a program\<close>

definition peer_report_line :: "peer_info \<Rightarrow> string" where
  "peer_report_line p =
     pi_human_name p @ [CHR 0x09] @ show_socket_addr (pi_last_addr p) @ [CHR 0x09] @
     (if pi_trusted p then ''1'' else ''0'') @ [CHR 0x09] @ to_hex (pi_pubkey p)"

text \<open>What the program sees for its whole run. It is running when its imports are called, so the
  lock on it can be taken.\<close>

definition spawn_snapshot :: "executor \<Rightarrow> program_data \<Rightarrow> bool \<Rightarrow> exec_options \<Rightarrow> rp_store" where
  "spawn_snapshot ex program program_is_trusted opts =
     \<lparr>rp_readable = True, rp_program_is_trusted = program_is_trusted, rp_hostname = ex_hostname ex,
      rp_peer_reports = map peer_report_line (dm_values (ex_peers ex)),
      rp_signing_key = ex_identity_signing_key ex, rp_our_pubkey = ex_identity_pubkey ex,
      rp_caller_pubkey = id_public_key (pd_source program),
      rp_caller_name = id_human_name (pd_source program),
      rp_trusted_pubkeys = dm_values (ex_trusted_keys ex),
      rp_replicate_tx = eo_replicate_tx opts, rp_fabric_send_tx = eo_fabric_send_tx opts,
      rp_identity_data = ex_identity_data ex, rp_tty = eo_tty opts,
      rp_depth = of_nat (length (pd_visited program)), rp_node_addr = eo_node_addr opts,
      rp_arg_list = pd_arg_list program, rp_arg_map = pd_arg_map program\<rparr>"

definition FUEL :: nat where "FUEL = 128000"

definition create_next_pid :: "executor \<Rightarrow> executor \<times> u64" where
  "create_next_pid ex = (ex\<lparr>ex_next_pid := ex_next_pid ex + 1\<rparr>, ex_next_pid ex)"

datatype exec_error = BadSourceSignature sig_error | EngineFailed | ModuleFailed

record spawned =
  sp_pid :: u64
  sp_store :: rp_store
  sp_fuel :: "nat option"

text \<open>
  Everything up to the return of the pid, on the order the caller sees: the pid is taken even when
  the engine or the module fails; the entry in the table is made after the task was started.
\<close>

definition create_pid ::
  "wasm_engine \<Rightarrow> program_data \<Rightarrow> bool \<Rightarrow> exec_options \<Rightarrow> executor \<Rightarrow> executor \<times> (exec_error + spawned)" where
  "create_pid we program program_is_trusted opts ex =
     (let (ex1, pid) = create_next_pid ex in
      if \<not> we_engine_ok we then (ex1, Inl EngineFailed)
      else if \<not> we_module_ok we (pd_wasm_program_bytes program) then (ex1, Inl ModuleFailed)
      else (ex1\<lparr>ex_running_programs := dm_insert pid
                 \<lparr>run_data = program, run_pid = pid, run_program_is_trusted = program_is_trusted,
                  run_spawn_error = None\<rparr> (ex_running_programs ex1)\<rparr>,
            Inr \<lparr>sp_pid = pid, sp_store = spawn_snapshot ex1 program program_is_trusted opts,
                 sp_fuel = (if eo_uncapped_fuel opts then None else Some FUEL)\<rparr>))"

definition begin_exec ::
  "crypto \<Rightarrow> wasm_engine \<Rightarrow> program_data \<Rightarrow> exec_options \<Rightarrow> executor \<Rightarrow> executor \<times> (exec_error + spawned)" where
  "begin_exec cr we program opts ex =
     (case check_self_signature cr (pd_source program) of
        Inl e \<Rightarrow> (ex, Inl (BadSourceSignature e))
      | Inr _ \<Rightarrow>
          let is_trusted = fold (\<lambda>key t. if id_public_key (pd_source program) = key then True else t)
                             (dm_values (ex_trusted_keys ex)) False
          in create_pid we program is_trusted opts ex)"

text \<open>What an ended program leaves: its entry goes, its exit code comes.\<close>

definition finish_pid :: "u64 \<Rightarrow> u32 \<Rightarrow> executor \<Rightarrow> executor" where
  "finish_pid pid code ex =
     ex\<lparr>ex_running_programs := dm_remove pid (ex_running_programs ex),
        ex_pid_last_exit_code := dm_insert pid code (ex_pid_last_exit_code ex)\<rparr>"

section \<open>Lemmas\<close>

lemma any_key_fold: "fold (\<lambda>key t. if k = key then True else t) ks b \<longleftrightarrow> b \<or> k \<in> set ks"
  by (induction ks arbitrary: b) auto

lemma trusts_pubkey_iff: "trusts_pubkey k ex \<longleftrightarrow> k \<in> set (dm_values (ex_trusted_keys ex))"
  by (auto simp: trusts_pubkey_def list_ex_iff)

lemma begin_exec_eq:
  "begin_exec cr we p opts ex =
     (case check_self_signature cr (pd_source p) of
        Inl e \<Rightarrow> (ex, Inl (BadSourceSignature e))
      | Inr _ \<Rightarrow> create_pid we p (trusts_pubkey (id_public_key (pd_source p)) ex) opts ex)"
  unfolding begin_exec_def any_key_fold Let_def trusts_pubkey_iff
  by (cases "check_self_signature cr (pd_source p)") simp_all

lemma create_pid_eq:
  "create_pid we p t opts ex =
     (let ex1 = ex\<lparr>ex_next_pid := ex_next_pid ex + 1\<rparr> in
      if we_engine_ok we \<and> we_module_ok we (pd_wasm_program_bytes p)
      then (ex1\<lparr>ex_running_programs := dm_insert (ex_next_pid ex)
                 \<lparr>run_data = p, run_pid = ex_next_pid ex, run_program_is_trusted = t,
                  run_spawn_error = None\<rparr> (ex_running_programs ex)\<rparr>,
            Inr \<lparr>sp_pid = ex_next_pid ex, sp_store = spawn_snapshot ex p t opts,
                 sp_fuel = (if eo_uncapped_fuel opts then None else Some FUEL)\<rparr>)
      else (ex1, Inl (if we_engine_ok we then ModuleFailed else EngineFailed)))"
  by (simp add: create_pid_def create_next_pid_def spawn_snapshot_def Let_def)

lemma note_peer_fields [simp]:
  "ex_trusted_keys (note_peer now addr source ex) = ex_trusted_keys ex"
  "ex_messages (note_peer now addr source ex) = ex_messages ex"
  "ex_running_programs (note_peer now addr source ex) = ex_running_programs ex"
  "ex_next_pid (note_peer now addr source ex) = ex_next_pid ex"
  "ex_identity_data (note_peer now addr source ex) = ex_identity_data ex"
  "ex_identity_pubkey (note_peer now addr source ex) = ex_identity_pubkey ex"
  "ex_identity_signing_key (note_peer now addr source ex) = ex_identity_signing_key ex"
  by (simp_all add: note_peer_def Let_def)

lemma ex_peers_note_peer:
  "ex_peers (note_peer now addr source ex) = dm_insert (to_hex (id_public_key source))
     \<lparr>pi_human_name = id_human_name source, pi_pubkey = id_public_key source, pi_last_addr = addr,
      pi_trusted = trusts_pubkey (id_public_key source) ex, pi_last_seen_epoch_s = now\<rparr> (ex_peers ex)"
proof -
  have "list_ex ((=) (id_public_key source)) ks \<longleftrightarrow> id_public_key source \<in> set ks" for ks
    by (auto simp: list_ex_iff)
  then show ?thesis by (simp add: note_peer_def Let_def trusts_pubkey_iff)
qed

text \<open>Notes of a run: who was heard from where.\<close>

type_synonym sighting = "u64 \<times> socket_addr \<times> identity_data"

definition note_all :: "sighting list \<Rightarrow> executor \<Rightarrow> executor" where
  "note_all xs ex = fold (\<lambda>(now, addr, source). note_peer now addr source) xs ex"

fun last_sighting :: "bytes \<Rightarrow> sighting list \<Rightarrow> sighting option" where
  "last_sighting k [] = None"
| "last_sighting k ((now, addr, source) # xs) =
     (case last_sighting k xs of
        Some x \<Rightarrow> Some x
      | None \<Rightarrow> if id_public_key source = k then Some (now, addr, source) else None)"

definition peer_of_sighting :: "executor \<Rightarrow> sighting \<Rightarrow> peer_info" where
  "peer_of_sighting ex x =
     (case x of (now, addr, source) \<Rightarrow>
        \<lparr>pi_human_name = id_human_name source, pi_pubkey = id_public_key source, pi_last_addr = addr,
         pi_trusted = trusts_pubkey (id_public_key source) ex, pi_last_seen_epoch_s = now\<rparr>)"

lemma note_all_trusted [simp]: "ex_trusted_keys (note_all xs ex) = ex_trusted_keys ex"
  unfolding note_all_def by (induction xs arbitrary: ex) auto

lemma note_all_get:
  "dm_get (to_hex k) (ex_peers (note_all xs ex)) =
     (case last_sighting k xs of
        Some x \<Rightarrow> Some (peer_of_sighting ex x)
      | None \<Rightarrow> dm_get (to_hex k) (ex_peers ex))"
  unfolding note_all_def
proof (induction xs arbitrary: ex)
  case (Cons x xs)
  obtain now addr source where x: "x = (now, addr, source)" by (cases x)
  have tk: "trusts_pubkey j (note_peer now addr source ex) = trusts_pubkey j ex" for j
    by (simp add: trusts_pubkey_iff)
  have ps: "peer_of_sighting (note_peer now addr source ex) y = peer_of_sighting ex y" for y
    by (cases y) (simp add: peer_of_sighting_def tk)
  show ?case
    by (auto simp: x Cons.IH ex_peers_note_peer dm.get_ins to_hex_inj ps tk peer_of_sighting_def split: option.split)
qed simp

lemma note_all_ok: "dm_ok (ex_peers ex) \<Longrightarrow> dm_ok (ex_peers (note_all xs ex))"
  unfolding note_all_def
  by (induction xs arbitrary: ex) (auto simp: ex_peers_note_peer dm.ok_ins)

lemma note_all_keys:
  assumes "\<And>h. dm_get h (ex_peers ex) = None" and "dm_get h (ex_peers (note_all xs ex)) = Some p"
  shows "h = to_hex (pi_pubkey p)"
  using assms unfolding note_all_def
proof (induction xs arbitrary: p rule: rev_induct)
  case (snoc x xs)
  obtain now addr source where x: "x = (now, addr, source)" by (cases x)
  from snoc show ?case
    by (auto simp: x ex_peers_note_peer dm.get_ins split: if_splits)
qed simp

section \<open>Properties\<close>

text \<open>When a program runs and with what rights. A request is started exactly when its source's
  self-signature is valid, an engine can be made and the module compiles. A bad signature leaves the
  executor as it was. A started program gets the next pid; it counts as trusted exactly when the
  source's key is among the trusted keys at that moment; it sees the verified name and key, the
  request's arguments, the length of its path as depth, and a bounded amount of fuel unless
  the launcher lifted it; and starting it changes no key, peer or message.\<close>

theorem begin_exec_exact:
  fixes p :: program_data and ex :: executor
  defines "trusted \<equiv> id_public_key (pd_source p) \<in> set (dm_values (ex_trusted_keys ex))"
  shows "begin_exec cr we p opts ex =
    (case check_self_signature cr (pd_source p) of
       Inl e \<Rightarrow> (ex, Inl (BadSourceSignature e))
     | Inr _ \<Rightarrow>
         if we_engine_ok we \<and> we_module_ok we (pd_wasm_program_bytes p)
         then (ex\<lparr>ex_next_pid := ex_next_pid ex + 1,
                  ex_running_programs := dm_insert (ex_next_pid ex)
                    \<lparr>run_data = p, run_pid = ex_next_pid ex, run_program_is_trusted = trusted,
                     run_spawn_error = None\<rparr> (ex_running_programs ex)\<rparr>,
               Inr \<lparr>sp_pid = ex_next_pid ex, sp_store = spawn_snapshot ex p trusted opts,
                    sp_fuel = (if eo_uncapped_fuel opts then None else Some 128000)\<rparr>)
         else (ex\<lparr>ex_next_pid := ex_next_pid ex + 1\<rparr>,
               Inl (if we_engine_ok we then ModuleFailed else EngineFailed)))"
  by (simp add: begin_exec_eq create_pid_eq trusts_pubkey_iff trusted_def FUEL_def Let_def
      split: sum.split)

text \<open>Nothing binds a program to the identity it claims. Replace the bytes, the name, the
  signature, the arguments and the request context of an accepted request by anything that
  compiles, keep the captured source identity: it is accepted too, under the same pid, as trusted
  as before, and its calls are stamped with the same verified name and key. The \<open>signature\<close> field
  that should bind them is never read.\<close>

theorem program_not_bound_to_source:
  assumes "begin_exec cr we p opts ex = (ex1, Inr sp)"
    and "pd_source q = pd_source p" and "we_module_ok we (pd_wasm_program_bytes q)"
  shows "\<exists>ex2 sq. begin_exec cr we q opts ex = (ex2, Inr sq) \<and> sp_pid sq = sp_pid sp \<and>
    rp_program_is_trusted (sp_store sq) = rp_program_is_trusted (sp_store sp) \<and>
    rp_caller_name (sp_store sq) = rp_caller_name (sp_store sp) \<and>
    rp_caller_pubkey (sp_store sq) = rp_caller_pubkey (sp_store sp)"
  using assms
  by (auto simp: begin_exec_eq create_pid_eq Let_def spawn_snapshot_def split: sum.splits if_splits)

definition demo_program :: program_data where
  "demo_program = \<lparr>pd_source = demo_identity, pd_human_name = ''chat'', pd_wasm_program_bytes = [0],
     pd_signature = [], pd_request_uuid = replicate 16 0, pd_depth_budget = 0, pd_visited = [],
     pd_arg_list = [], pd_arg_map = []\<rparr>"

definition demo_engine :: wasm_engine where
  "demo_engine = \<lparr>we_engine_ok = True, we_module_ok = (\<lambda>b. b \<noteq> [])\<rparr>"

definition demo_executor :: executor where
  "demo_executor = executor_startup demo_crypto demo_key_codec ''id.pem''
     (executor_new demo_crypto demo_key_codec ''bob'' ''id.pem'' None 9)"

lemma demo_identity_ok: "check_self_signature demo_crypto demo_identity = Inr ()"
  by (simp add: check_self_signature_def verify_hash_ok demo_identity_def demo_crypto_def)

lemma demo_executor_trusts: "trusts_pubkey (replicate 32 7) demo_executor"
proof -
  have "read_public_key_ed25519_pem_file demo_key_codec demo_crypto ''id.pem'' = Inr (replicate 32 7)"
    by (simp add: read_public_key_ed25519_pem_file_def demo_key_codec_def demo_crypto_def)
  then show ?thesis
    by (simp add: demo_executor_def executor_startup_def add_trusted_key_def executor_new_def
        trusts_pubkey_iff dm_values_def dm_insert_def Let_def)
qed

theorem program_not_bound_to_source_witness:
  "\<exists>ex2 sq. begin_exec demo_crypto demo_engine (demo_program\<lparr>pd_wasm_program_bytes := [6, 6, 6]\<rparr>)
      exec_options_default demo_executor = (ex2, Inr sq) \<and>
    rp_program_is_trusted (sp_store sq) \<and> rp_caller_name (sp_store sq) = ''alice''"
proof -
  have src: "pd_source demo_program = demo_identity" "pd_wasm_program_bytes demo_program = [0]"
    by (simp_all add: demo_program_def)
  have key: "id_public_key demo_identity = replicate 32 7" "id_human_name demo_identity = ''alice''"
    by (simp_all add: demo_identity_def)
  obtain ex1 sp where st: "begin_exec demo_crypto demo_engine demo_program exec_options_default demo_executor = (ex1, Inr sp)"
    and sp: "rp_program_is_trusted (sp_store sp)" "rp_caller_name (sp_store sp) = ''alice''"
    by (simp add: begin_exec_eq create_pid_eq src demo_identity_ok demo_engine_def Let_def
        spawn_snapshot_def key demo_executor_trusts)
  from program_not_bound_to_source [OF st, of "demo_program\<lparr>pd_wasm_program_bytes := [6, 6, 6]\<rparr>"] sp
  show ?thesis by (auto simp: demo_engine_def)
qed

text \<open>The neighbour table. After any sequence of sightings on a fresh table, the forwarding
  targets are exactly the keys seen, each once, with the address it was last seen at.\<close>

theorem observed_targets_latest:
  assumes "ex_peers ex = []"
  shows "distinct (map snd (observed_targets (note_all xs ex))) \<and>
    (\<forall>addr k. (addr, k) \<in> set (observed_targets (note_all xs ex)) \<longleftrightarrow>
       (\<exists>now source. last_sighting k xs = Some (now, addr, source)))"
proof
  let ?P = "ex_peers (note_all xs ex)"
  have ok: "dm_ok ?P" by (rule note_all_ok) (simp add: assms)
  have key: "dm_get h ?P = Some p \<Longrightarrow> h = to_hex (pi_pubkey p)" for h p
    by (rule note_all_keys) (simp_all add: assms)
  have "map to_hex (map snd (observed_targets (note_all xs ex))) = map fst ?P"
  proof -
    have "fst x = to_hex (pi_pubkey (snd x))" if "x \<in> set ?P" for x
      using key [of "fst x" "snd x"] that ok by (simp add: dm_get_def dm_ok_def)
    then show ?thesis by (simp add: observed_targets_def dm_values_def)
  qed
  moreover have "distinct (map fst ?P)" using ok by (simp add: dm_ok_def)
  ultimately show "distinct (map snd (observed_targets (note_all xs ex)))"
    by (metis distinct_map)
  have "(addr, k) \<in> set (observed_targets (note_all xs ex)) \<longleftrightarrow>
      (\<exists>p. dm_get (to_hex k) ?P = Some p \<and> pi_last_addr p = addr \<and> pi_pubkey p = k)" for addr k
    using dm.vals_get [OF ok] key by (fastforce simp: observed_targets_def)
  moreover have "last_sighting k xs = Some (now, addr, source) \<Longrightarrow> id_public_key source = k"
    for k now addr source
    by (induction xs) (auto split: option.splits if_splits)
  ultimately show "\<forall>addr k. (addr, k) \<in> set (observed_targets (note_all xs ex)) \<longleftrightarrow>
       (\<exists>now source. last_sighting k xs = Some (now, addr, source))"
    by (auto simp: note_all_get assms peer_of_sighting_def split: option.splits)
qed

theorem observed_targets_latest_witness:
  "(SockV4 2 9, replicate 32 7) \<in>
     set (observed_targets (note_all [(1, SockV4 1 9, demo_identity), (2, SockV4 2 9, demo_identity)] demo_executor))"
proof -
  have "ex_peers demo_executor = []"
    by (simp add: demo_executor_def executor_startup_def executor_new_def add_trusted_key_def Let_def
        split: sum.split)
  from observed_targets_latest [OF this] show ?thesis by (auto simp: demo_identity_def)
qed

end
