(* ===== verification/Lifecycle.thy ===== *)
theory Lifecycle
  imports Prelude
begin

text \<open>
  How a started program ends and how its end is noticed: the concurrent part of
  \<open>create_pid\<close> and \<open>wait_for_pid_exit\<close> in \<open>src/executor/mod.rs\<close>. Three kinds of threads
  interleave. The creator of a pid spawns the runner task and then inserts the pid into
  \<open>running_programs\<close>. The runner ends in success or failure, records a failure in
  \<open>spawn_error\<close>, removes the pid, inserts the exit code and calls \<open>notify_waiters\<close>. A
  waiter takes a \<open>Notified\<close> future, looks the pid up, takes an error if there is one, and
  otherwise awaits the future. Every atomic operation on the shared maps is one step.
  \<open>Notified\<close> is woken by each \<open>notify_waiters\<close> after its creation (tokio's documentation): the
  epoch counts these calls and a waiter remembers the epoch it started from.
\<close>

section \<open>The transition system\<close>

type_synonym pid = nat

datatype creator = NotCreated | TaskSpawned | Inserted

datatype runner = NotRunning | Running | Failing | Ended nat | Removed nat | Recorded nat | Notified

datatype waiter =
    Idle
  | Armed nat
  | Present nat
  | Blocked nat
  | Leaving
  | Returned nat
  | ReturnedError

record sys =
  sy_creator :: "pid \<Rightarrow> creator"
  sy_runner :: "pid \<Rightarrow> runner"
  sy_running :: "pid set"
  sy_error :: "pid set"
  sy_code :: "pid \<Rightarrow> nat option"
  sy_epoch :: nat
  sy_waiter :: waiter
  sy_target :: pid

text \<open>One waiter, on the pid \<open>sy_target\<close>; it may begin to wait only after \<open>create_pid\<close> returned
  that pid. Other waiters do not change the shared maps, except that one of them may take the error.\<close>

definition sys_init :: "pid \<Rightarrow> sys" where
  "sys_init p = \<lparr>sy_creator = (\<lambda>_. NotCreated), sy_runner = (\<lambda>_. NotRunning), sy_running = {},
     sy_error = {}, sy_code = (\<lambda>_. None), sy_epoch = 0, sy_waiter = Idle, sy_target = p\<rparr>"

inductive step :: "sys \<Rightarrow> sys \<Rightarrow> bool" where
  spawn_task: "sy_creator s p = NotCreated \<Longrightarrow>
    step s (s\<lparr>sy_creator := (sy_creator s)(p := TaskSpawned), sy_runner := (sy_runner s)(p := Running)\<rparr>)"
| insert_pid: "sy_creator s p = TaskSpawned \<Longrightarrow>
    step s (s\<lparr>sy_creator := (sy_creator s)(p := Inserted), sy_running := insert p (sy_running s)\<rparr>)"
| succeed: "sy_runner s p = Running \<Longrightarrow> step s (s\<lparr>sy_runner := (sy_runner s)(p := Ended 0)\<rparr>)"
| fails: "sy_runner s p = Running \<Longrightarrow> step s (s\<lparr>sy_runner := (sy_runner s)(p := Failing)\<rparr>)"
| set_error: "sy_runner s p = Failing \<Longrightarrow>
    step s (s\<lparr>sy_runner := (sy_runner s)(p := Ended 1), sy_error := insert p (sy_error s)\<rparr>)"
| remove_pid: "sy_runner s p = Ended c \<Longrightarrow>
    step s (s\<lparr>sy_runner := (sy_runner s)(p := Removed c), sy_running := sy_running s - {p}\<rparr>)"
| record_code: "sy_runner s p = Removed c \<Longrightarrow>
    step s (s\<lparr>sy_runner := (sy_runner s)(p := Recorded c), sy_code := (sy_code s)(p := Some c)\<rparr>)"
| notify_waiters: "sy_runner s p = Recorded c \<Longrightarrow>
    step s (s\<lparr>sy_runner := (sy_runner s)(p := Notified), sy_epoch := Suc (sy_epoch s)\<rparr>)"
| other_takes_error: "p \<in> sy_error s \<Longrightarrow> p \<in> sy_running s \<Longrightarrow>
    step s (s\<lparr>sy_error := sy_error s - {p}\<rparr>)"
| arm: "sy_waiter s = Idle \<Longrightarrow> sy_creator s (sy_target s) = Inserted \<Longrightarrow>
    step s (s\<lparr>sy_waiter := Armed (sy_epoch s)\<rparr>)"
| absent: "sy_waiter s = Armed e \<Longrightarrow> sy_target s \<notin> sy_running s \<Longrightarrow>
    step s (s\<lparr>sy_waiter := Leaving\<rparr>)"
| present: "sy_waiter s = Armed e \<Longrightarrow> sy_target s \<in> sy_running s \<Longrightarrow>
    step s (s\<lparr>sy_waiter := Present e\<rparr>)"
| take_error: "sy_waiter s = Present e \<Longrightarrow> sy_target s \<in> sy_running s \<Longrightarrow> sy_target s \<in> sy_error s \<Longrightarrow>
    step s (s\<lparr>sy_waiter := ReturnedError, sy_error := sy_error s - {sy_target s}\<rparr>)"
| no_error: "sy_waiter s = Present e \<Longrightarrow> sy_target s \<notin> sy_running s \<or> sy_target s \<notin> sy_error s \<Longrightarrow>
    step s (s\<lparr>sy_waiter := Blocked e\<rparr>)"
| wake: "sy_waiter s = Blocked e \<Longrightarrow> e < sy_epoch s \<Longrightarrow> step s (s\<lparr>sy_waiter := Idle\<rparr>)"
| leave: "sy_waiter s = Leaving \<Longrightarrow>
    step s (s\<lparr>sy_waiter := Returned (case sy_code s (sy_target s) of Some c \<Rightarrow> c | None \<Rightarrow> 0)\<rparr>)"

inductive reachable :: "sys \<Rightarrow> sys \<Rightarrow> bool" for s0 where
  start: "reachable s0 s0"
| more: "reachable s0 s \<Longrightarrow> step s s' \<Longrightarrow> reachable s0 s'"

inductive_cases step_elim: "step s s'"

inductive_simps step_simps: "step s s'"

section \<open>Invariant\<close>

text \<open>A program failed when its runner is on the failing path or left exit code 1.\<close>

definition failed :: "sys \<Rightarrow> pid \<Rightarrow> bool" where
  "failed s p \<longleftrightarrow> sy_runner s p \<in> {Failing, Ended 1, Removed 1, Recorded 1} \<or> sy_code s p = Some 1"

fun code_ok :: "runner \<Rightarrow> nat option \<Rightarrow> bool" where
  "code_ok (Ended c) k \<longleftrightarrow> c \<in> {0, 1} \<and> k = None"
| "code_ok (Removed c) k \<longleftrightarrow> c \<in> {0, 1} \<and> k = None"
| "code_ok (Recorded c) k \<longleftrightarrow> c \<in> {0, 1} \<and> k = Some c"
| "code_ok Notified k \<longleftrightarrow> k = Some 0 \<or> k = Some 1"
| "code_ok _ k \<longleftrightarrow> k = None"

fun waiting_since :: "waiter \<Rightarrow> nat option" where
  "waiting_since (Armed e) = Some e"
| "waiting_since (Present e) = Some e"
| "waiting_since (Blocked e) = Some e"
| "waiting_since _ = None"

definition pid_ok :: "sys \<Rightarrow> pid \<Rightarrow> bool" where
  "pid_ok s p \<longleftrightarrow>
     (sy_creator s p = NotCreated \<longleftrightarrow> sy_runner s p = NotRunning) \<and>
     (sy_creator s p \<noteq> Inserted \<longrightarrow> p \<notin> sy_running s) \<and>
     code_ok (sy_runner s p) (sy_code s p) \<and> (p \<in> sy_error s \<longrightarrow> failed s p)"

definition w_created :: "sys \<Rightarrow> bool" where
  "w_created s \<longleftrightarrow> (sy_waiter s = Idle \<or> sy_creator s (sy_target s) = Inserted)"

definition w_epoch :: "sys \<Rightarrow> bool" where
  "w_epoch s \<longleftrightarrow> (case waiting_since (sy_waiter s) of Some e \<Rightarrow> e \<le> sy_epoch s | None \<Rightarrow> True)"

text \<open>No wake-up is lost: a waiter that saw its pid in the table, and whom no notification has
  reached since it armed itself, either still has its pid in the table or its runner has yet to
  notify.\<close>

definition w_wake :: "sys \<Rightarrow> bool" where
  "w_wake s \<longleftrightarrow>
     (sy_waiter s \<in> {Present (sy_epoch s), Blocked (sy_epoch s)} \<and> sy_target s \<notin> sy_running s \<longrightarrow>
        (\<exists>c. sy_runner s (sy_target s) \<in> {Removed c, Recorded c}))"

definition w_code :: "sys \<Rightarrow> bool" where
  "w_code s \<longleftrightarrow>
     (case sy_waiter s of Returned c \<Rightarrow> c = 0 \<or> c = 1 \<and> sy_code s (sy_target s) = Some 1 | _ \<Rightarrow> True)"

definition w_error :: "sys \<Rightarrow> bool" where
  "w_error s \<longleftrightarrow> (sy_waiter s = ReturnedError \<longrightarrow> failed s (sy_target s))"

definition waiter_inv :: "sys \<Rightarrow> bool" where
  "waiter_inv s \<longleftrightarrow> w_created s \<and> w_epoch s \<and> w_wake s \<and> w_code s \<and> w_error s"

lemmas waiter_defs = w_created_def w_epoch_def w_wake_def w_code_def w_error_def

lemma pid_ok_init: "pid_ok (sys_init p) q"
  by (simp add: pid_ok_def sys_init_def)

lemma waiter_inv_init: "waiter_inv (sys_init p)"
  by (simp add: waiter_inv_def waiter_defs sys_init_def)

lemma failed_step:
  assumes "step s s'" and "pid_ok s p" and "failed s p"
  shows "failed s' p"
  using assms
  by (cases rule: step.cases) (auto simp: failed_def pid_ok_def split: if_splits)

lemma pid_ok_step:
  assumes "step s s'" and "pid_ok s p"
  shows "pid_ok s' p"
  using assms
  by (cases rule: step.cases) (auto simp: failed_def pid_ok_def split: if_splits)

lemma target_step: "step s s' \<Longrightarrow> sy_target s' = sy_target s"
  by (cases rule: step.cases) auto

lemma w_created_step: "step s s' \<Longrightarrow> w_created s \<Longrightarrow> w_created s'"
  by (cases rule: step.cases) (auto simp: w_created_def split: if_splits)

lemma w_epoch_step: "step s s' \<Longrightarrow> w_epoch s \<Longrightarrow> w_epoch s'"
  by (cases rule: step.cases) (auto simp: w_epoch_def split: option.splits)

lemma w_wake_step:
  assumes "step s s'" and "w_wake s" and "w_epoch s" and "w_created s" and "pid_ok s (sy_target s)"
  shows "w_wake s'"
  using assms(1)
proof (cases rule: step.cases)
  case (notify_waiters p c)
  with assms(3) show ?thesis by (auto simp: w_wake_def w_epoch_def)
qed (use assms(2,4,5) in \<open>simp_all add: w_wake_def w_created_def pid_ok_def\<close>, auto)

lemma w_code_step:
  assumes "step s s'" and "w_code s" and "pid_ok s (sy_target s)"
  shows "w_code s'"
  using assms(1)
proof (cases rule: step.cases)
  case (record_code p c)
  with assms(2,3) show ?thesis by (auto simp: w_code_def pid_ok_def split: waiter.splits)
next
  case leave
  with assms(2,3) show ?thesis
    by (cases "sy_runner s (sy_target s)") (auto simp: w_code_def pid_ok_def split: option.splits)
qed (use assms(2) in \<open>auto simp: w_code_def split: waiter.splits\<close>)

lemma w_error_step:
  assumes "step s s'" and "w_error s" and "pid_ok s (sy_target s)"
  shows "w_error s'"
proof (cases "sy_waiter s = ReturnedError")
  case True
  with assms show ?thesis using failed_step target_step by (auto simp: w_error_def)
next
  case False
  show ?thesis using assms(1)
  proof (cases rule: step.cases)
    case (take_error e)
    with assms(3) show ?thesis by (simp add: w_error_def pid_ok_def failed_def)
  qed (use False in \<open>simp_all add: w_error_def\<close>)
qed

lemma waiter_inv_step:
  "step s s' \<Longrightarrow> pid_ok s (sy_target s) \<Longrightarrow> waiter_inv s \<Longrightarrow> waiter_inv s'"
  unfolding waiter_inv_def
  using w_created_step w_epoch_step w_wake_step w_code_step w_error_step by blast

lemma reachable_inv:
  assumes "reachable (sys_init p) s"
  shows "(\<forall>q. pid_ok s q) \<and> waiter_inv s \<and> sy_target s = p"
  using assms
proof (induction rule: reachable.induct)
  case start
  then show ?case by (simp add: pid_ok_init waiter_inv_init) (simp add: sys_init_def)
next
  case (more s s')
  then show ?case using pid_ok_step waiter_inv_step target_step by metis
qed

section \<open>Finishing, hanging, and early answers\<close>

definition finished :: "waiter \<Rightarrow> bool" where
  "finished w \<longleftrightarrow> (case w of Leaving \<Rightarrow> True | Returned _ \<Rightarrow> True | ReturnedError \<Rightarrow> True | _ \<Rightarrow> False)"

lemma reachable_trans: "reachable s1 s2 \<Longrightarrow> reachable s0 s1 \<Longrightarrow> reachable s0 s2"
  by (induction rule: reachable.induct) (auto intro: more)

lemma reachable_step: "step s s' \<Longrightarrow> reachable s s'"
  by (rule more [OF start])

text \<open>An Idle waiter of a removed, recorded pid returns the recorded code in three steps.\<close>

lemma idle_returns:
  assumes "sy_waiter s = Idle" and "sy_creator s (sy_target s) = Inserted"
    and "sy_target s \<notin> sy_running s" and "sy_code s (sy_target s) = Some c"
  shows "\<exists>s'. reachable s s' \<and> sy_waiter s' = Returned c"
proof -
  let ?s1 = "s\<lparr>sy_waiter := Armed (sy_epoch s)\<rparr>"
  let ?s2 = "?s1\<lparr>sy_waiter := Leaving\<rparr>"
  let ?s3 = "?s2\<lparr>sy_waiter := Returned c\<rparr>"
  have "step s ?s1" using assms by (intro arm)
  moreover have "step ?s1 ?s2" using assms by (intro absent) simp_all
  moreover have "step ?s2 ?s3" using leave [of ?s2] assms by simp
  ultimately have "reachable s ?s3" by (blast intro: more start)
  then show ?thesis by force
qed

text \<open>The steps only the waiter takes lead from every unfinished state to the answer.\<close>

lemma waiter_returns:
  assumes "waiter_inv s" and "sy_creator s (sy_target s) = Inserted"
    and "sy_runner s (sy_target s) = Notified" and "sy_target s \<notin> sy_running s"
    and "sy_code s (sy_target s) = Some c" and "\<not> finished (sy_waiter s)"
  shows "\<exists>s'. reachable s s' \<and> sy_waiter s' = Returned c"
proof -
  let ?idle = "s\<lparr>sy_waiter := Idle\<rparr>"
  have idle: "\<exists>s'. reachable ?idle s' \<and> sy_waiter s' = Returned c"
    using assms by (intro idle_returns) simp_all
  have blocked: "\<exists>s'. reachable (s\<lparr>sy_waiter := Blocked e\<rparr>) s' \<and> sy_waiter s' = Returned c"
    if "e < sy_epoch s" for e
  proof -
    have "step (s\<lparr>sy_waiter := Blocked e\<rparr>) ?idle"
      using wake [of "s\<lparr>sy_waiter := Blocked e\<rparr>" e] that by simp
    with idle show ?thesis by (blast intro: reachable_trans reachable_step)
  qed
  show ?thesis
  proof (cases "sy_waiter s")
    case Idle
    with assms show ?thesis by (intro idle_returns)
  next
    case (Armed e)
    then have a: "step s (s\<lparr>sy_waiter := Leaving\<rparr>)" using assms by (intro absent)
    have l: "step (s\<lparr>sy_waiter := Leaving\<rparr>) (s\<lparr>sy_waiter := Returned c\<rparr>)"
      using leave [of "s\<lparr>sy_waiter := Leaving\<rparr>"] assms by simp
    from a l have "reachable s (s\<lparr>sy_waiter := Returned c\<rparr>)" by (blast intro: more start)
    then show ?thesis by force
  next
    case (Present e)
    then have e: "e < sy_epoch s"
      using assms(1,3,4) by (cases "e = sy_epoch s") (auto simp: waiter_inv_def w_wake_def w_epoch_def)
    have "step s (s\<lparr>sy_waiter := Blocked e\<rparr>)" using assms Present by (intro no_error) simp_all
    with blocked [OF e] show ?thesis by (blast intro: reachable_trans reachable_step)
  next
    case (Blocked e)
    then have e: "e < sy_epoch s"
      using assms(1,3,4) by (cases "e = sy_epoch s") (auto simp: waiter_inv_def w_wake_def w_epoch_def)
    have "s\<lparr>sy_waiter := Blocked e\<rparr> = s" using Blocked by simp
    with blocked [OF e] show ?thesis by simp
  qed (use assms(6) in \<open>simp_all add: finished_def\<close>)
qed

text \<open>The state a lost exit leaves: the runner is done, its pid is in the table for good.\<close>

definition leaked :: "sys \<Rightarrow> bool" where
  "leaked s \<longleftrightarrow> sy_runner s (sy_target s) = Notified \<and> sy_creator s (sy_target s) = Inserted \<and>
     sy_target s \<in> sy_running s \<and> sy_target s \<notin> sy_error s \<and> \<not> finished (sy_waiter s)"

lemma leaked_step: "step s s' \<Longrightarrow> leaked s \<Longrightarrow> leaked s'"
  by (cases rule: step.cases) (auto simp: leaked_def finished_def split: if_splits)

lemma leaked_forever: "reachable s s' \<Longrightarrow> leaked s \<Longrightarrow> leaked s'"
  by (induction rule: reachable.induct) (auto intro: leaked_step)

lemma code_step:
  assumes "step s s'" and "pid_ok s p" and "sy_code s p = Some c"
  shows "sy_code s' p = Some c"
  using assms by (cases rule: step.cases) (auto simp: pid_ok_def)

text \<open>A waiter that starts when the code is recorded answers with that code.\<close>

definition late :: "nat \<Rightarrow> sys \<Rightarrow> bool" where
  "late c s \<longleftrightarrow> sy_code s (sy_target s) = Some c \<and>
     (case sy_waiter s of Returned c' \<Rightarrow> c' = c | _ \<Rightarrow> True)"

lemma late_step:
  assumes "step s s'" and "pid_ok s (sy_target s)" and "late c s"
  shows "late c s'"
proof -
  have c: "sy_code s' (sy_target s') = Some c"
    using code_step [OF assms(1,2)] target_step [OF assms(1)] assms(3) by (simp add: late_def)
  show ?thesis
    using assms(1,3) c by (cases rule: step.cases) (auto simp: late_def split: waiter.splits if_splits)
qed

lemma late_forever:
  assumes "reachable s s'" and "\<forall>q. pid_ok s q" and "late c s"
  shows "(\<forall>q. pid_ok s' q) \<and> late c s'"
  using assms
proof (induction rule: reachable.induct)
  case (more s1 s2)
  then show ?case using pid_ok_step late_step by meson
qed simp

section \<open>Properties\<close>


text \<open>A reported failure is a failure, and exit codes are 0 or 1. A waiter returns a non-zero
  code or an error only for a program whose runner failed; a waiter that starts to wait after
  the exit code was recorded always answers with exactly that code.\<close>

theorem reported_failures_are_real:
  assumes "reachable (sys_init p) s"
  shows "(sy_waiter s = ReturnedError \<longrightarrow> failed s p) \<and>
    (\<forall>c. sy_waiter s = Returned c \<longrightarrow> c = 0 \<or> c = 1 \<and> failed s p) \<and>
    (\<forall>c s' c'. sy_waiter s = Idle \<and> sy_code s p = Some c \<and> reachable s s' \<and> sy_waiter s' = Returned c' \<longrightarrow> c' = c)"
proof -
  have inv: "\<forall>q. pid_ok s q" "waiter_inv s" "sy_target s = p" using reachable_inv [OF assms] by auto
  have late: "c' = c" if "late c s" "reachable s s'" "sy_waiter s' = Returned c'" for c s' c'
  proof -
    have "late c s'" using late_forever [OF that(2) inv(1) that(1)] by blast
    then show ?thesis using that(3) by (simp add: late_def)
  qed
  have "late c s" if "sy_waiter s = Idle" "sy_code s p = Some c" for c
    using that inv(3) by (simp add: late_def)
  with late have "\<forall>c s' c'. sy_waiter s = Idle \<and> sy_code s p = Some c \<and> reachable s s' \<and>
      sy_waiter s' = Returned c' \<longrightarrow> c' = c" by blast
  then show ?thesis using inv(2,3)
    by (auto simp: waiter_inv_def w_error_def w_code_def failed_def split: waiter.splits)
qed

text \<open>Executions are built step by step: a state is reached by the step that yields it.\<close>

lemma then_step: "reachable s0 s \<Longrightarrow> step s s1 \<Longrightarrow> s1 = s2 \<Longrightarrow> reachable s0 s2"
  by (auto intro: more)

definition at_waiter :: "pid \<Rightarrow> creator \<Rightarrow> runner \<Rightarrow> pid set \<Rightarrow> pid set \<Rightarrow> nat option \<Rightarrow> nat \<Rightarrow> waiter \<Rightarrow> sys" where
  "at_waiter p cr r running err k e w =
     \<lparr>sy_creator = (\<lambda>_. NotCreated)(p := cr), sy_runner = (\<lambda>_. NotRunning)(p := r), sy_running = running,
      sy_error = err, sy_code = (\<lambda>_. None)(p := k), sy_epoch = e, sy_waiter = w, sy_target = p\<rparr>"

text \<open>A run in which the program ends before its pid is inserted.\<close>

lemma lost_exit_run:
  "reachable (sys_init p) (at_waiter p Inserted Notified {p} {} (Some 0) 1 Idle)"
proof -
  have "reachable (sys_init p) (at_waiter p TaskSpawned Running {} {} None 0 Idle)"
    by (rule then_step [OF start spawn_task [where p = p]]) (auto simp: sys_init_def at_waiter_def)
  then have "reachable (sys_init p) (at_waiter p TaskSpawned (Ended 0) {} {} None 0 Idle)"
    by (rule then_step [OF _ succeed [where p = p]]) (auto simp: at_waiter_def)
  then have "reachable (sys_init p) (at_waiter p TaskSpawned (Removed 0) {} {} None 0 Idle)"
    by (rule then_step [OF _ remove_pid [where p = p]]) (auto simp: at_waiter_def)
  then have "reachable (sys_init p) (at_waiter p TaskSpawned (Recorded 0) {} {} (Some 0) 0 Idle)"
    by (rule then_step [OF _ record_code [where p = p]]) (auto simp: at_waiter_def)
  then have "reachable (sys_init p) (at_waiter p TaskSpawned Notified {} {} (Some 0) 1 Idle)"
    by (rule then_step [OF _ notify_waiters [where p = p]]) (auto simp: at_waiter_def)
  then show ?thesis
    by (rule then_step [OF _ insert_pid [where p = p]]) (auto simp: at_waiter_def)
qed

text \<open>An exit can be lost. The runner task is spawned before the pid is put into the table; a
  program that ends in between removes a pid that is not there, and the insertion that follows stays
  for ever. From then on no waiter on this pid ever answers, whatever else happens on the
  node, although the program succeeded and its exit code is on record.\<close>

theorem exit_can_be_lost:
  "\<exists>s. reachable (sys_init p) s \<and> sy_waiter s = Idle \<and> sy_creator s p = Inserted \<and>
     sy_runner s p = Notified \<and> sy_code s p = Some 0 \<and>
     {s'. reachable s s'} \<subseteq> {s'. p \<in> sy_running s' \<and> \<not> finished (sy_waiter s')}"
proof -
  let ?s = "at_waiter p Inserted Notified {p} {} (Some 0) 1 Idle"
  have target: "sy_target s' = p" if "reachable ?s s'" for s'
    using that by (induction rule: reachable.induct) (auto simp: at_waiter_def dest: target_step)
  have "leaked ?s" by (simp add: leaked_def at_waiter_def finished_def)
  then have "reachable ?s s' \<Longrightarrow> p \<in> sy_running s' \<and> \<not> finished (sy_waiter s')" for s'
    using leaked_forever target by (auto simp: leaked_def)
  moreover have "sy_waiter ?s = Idle \<and> sy_creator ?s p = Inserted \<and> sy_runner ?s p = Notified \<and> sy_code ?s p = Some 0"
    by (simp add: at_waiter_def)
  ultimately show ?thesis using lost_exit_run by blast
qed

text \<open>A failure can be reported as success. The pid is removed before the exit code is inserted;
  a waiter that looks in between finds neither and answers 0, though the program failed and 1 is what
  is recorded next.\<close>

theorem failure_can_be_reported_as_success:
  "\<exists>s s'. reachable (sys_init p) s \<and> sy_waiter s = Returned 0 \<and> failed s p \<and>
     step s s' \<and> sy_code s' p = Some 1"
proof -
  let ?s = "at_waiter p Inserted (Removed 1) {} {p} None 0 (Returned 0)"
  let ?s' = "at_waiter p Inserted (Recorded 1) {} {p} (Some 1) 0 (Returned 0)"
  have "reachable (sys_init p) (at_waiter p TaskSpawned Running {} {} None 0 Idle)"
    by (rule then_step [OF start spawn_task [where p = p]]) (auto simp: sys_init_def at_waiter_def)
  then have "reachable (sys_init p) (at_waiter p Inserted Running {p} {} None 0 Idle)"
    by (rule then_step [OF _ insert_pid [where p = p]]) (auto simp: at_waiter_def)
  then have "reachable (sys_init p) (at_waiter p Inserted Failing {p} {} None 0 Idle)"
    by (rule then_step [OF _ fails [where p = p]]) (auto simp: at_waiter_def)
  then have "reachable (sys_init p) (at_waiter p Inserted (Ended 1) {p} {p} None 0 Idle)"
    by (rule then_step [OF _ set_error [where p = p]]) (auto simp: at_waiter_def)
  then have "reachable (sys_init p) (at_waiter p Inserted (Removed 1) {} {p} None 0 Idle)"
    by (rule then_step [OF _ remove_pid [where p = p]]) (auto simp: at_waiter_def)
  then have "reachable (sys_init p) (at_waiter p Inserted (Removed 1) {} {p} None 0 (Armed 0))"
    by (rule then_step [OF _ arm]) (auto simp: at_waiter_def)
  then have "reachable (sys_init p) (at_waiter p Inserted (Removed 1) {} {p} None 0 Leaving)"
    by (rule then_step [OF _ absent [where e = 0]]) (auto simp: at_waiter_def)
  then have r: "reachable (sys_init p) ?s"
    by (rule then_step [OF _ leave]) (auto simp: at_waiter_def)
  have "step ?s ?s'"
  proof -
    have "step ?s (?s\<lparr>sy_runner := (sy_runner ?s)(p := Recorded 1), sy_code := (sy_code ?s)(p := Some 1)\<rparr>)"
      by (rule record_code) (simp add: at_waiter_def)
    moreover have "?s\<lparr>sy_runner := (sy_runner ?s)(p := Recorded 1), sy_code := (sy_code ?s)(p := Some 1)\<rparr> = ?s'"
      by (simp add: at_waiter_def)
    ultimately show ?thesis by simp
  qed
  with r show ?thesis by (intro exI [of _ ?s] exI [of _ ?s']) (simp add: at_waiter_def failed_def)
qed

text \<open>An ordinary run: inserted in time, successful, with the waiter still idle.\<close>

lemma normal_run:
  "reachable (sys_init p) (at_waiter p Inserted Notified {} {} (Some 0) 1 Idle)"
proof -
  have "reachable (sys_init p) (at_waiter p TaskSpawned Running {} {} None 0 Idle)"
    by (rule then_step [OF start spawn_task [where p = p]]) (auto simp: sys_init_def at_waiter_def)
  then have "reachable (sys_init p) (at_waiter p Inserted Running {p} {} None 0 Idle)"
    by (rule then_step [OF _ insert_pid [where p = p]]) (auto simp: at_waiter_def)
  then have "reachable (sys_init p) (at_waiter p Inserted (Ended 0) {p} {} None 0 Idle)"
    by (rule then_step [OF _ succeed [where p = p]]) (auto simp: at_waiter_def)
  then have "reachable (sys_init p) (at_waiter p Inserted (Removed 0) {} {} None 0 Idle)"
    by (rule then_step [OF _ remove_pid [where p = p]]) (auto simp: at_waiter_def)
  then have "reachable (sys_init p) (at_waiter p Inserted (Recorded 0) {} {} (Some 0) 0 Idle)"
    by (rule then_step [OF _ record_code [where p = p]]) (auto simp: at_waiter_def)
  then show ?thesis
    by (rule then_step [OF _ notify_waiters [where p = p]]) (auto simp: at_waiter_def)
qed


theorem reported_failures_are_real_witness:
  "{c'. \<exists>s'. reachable (at_waiter 3 Inserted Notified {} {} (Some 0) 1 Idle) s' \<and> sy_waiter s' = Returned c'} \<subseteq> {0}"
proof -
  have "reachable (at_waiter 3 Inserted Notified {} {} (Some 0) 1 Idle) s' \<Longrightarrow> sy_waiter s' = Returned c' \<Longrightarrow> c' = 0" for s' c'
    using reported_failures_are_real [OF normal_run [of 3]] by (simp add: at_waiter_def)
  then show ?thesis by blast
qed

end
