(* ===== verification/Config.thy ===== *)
theory Config
  imports Net Utf8 "HOL-Library.Sublist"
begin

text \<open>
  The configuration, \<open>src/config.rs\<close>: statically configured peers, the TOML block that pins a
  peer's key, and the merge of override files. File access, globbing, the TOML parsers and
  \<open>serde_merge::omerge\<close> are the environment's and the crates': the record \<open>config_env\<close>.
\<close>

section \<open>Peers\<close>

record peer_metadata =
  pm_hostname :: "string option"
  pm_ipv6 :: "u128 option"
  pm_ipv4 :: "u32 option"
  pm_expected_key :: "string option"

datatype peer_error = NoAddress

definition peer_try_from :: "peer_metadata \<Rightarrow> peer_error + peer_metadata" where
  "peer_try_from raw =
     (let hostname = (case pm_hostname raw of
                        None \<Rightarrow> None
                      | Some h \<Rightarrow> let trimmed = trim h in if trimmed = [] then None else Some trimmed)
      in if hostname = None \<and> pm_ipv4 raw = None \<and> pm_ipv6 raw = None then Inl NoAddress
         else Inr \<lparr>pm_hostname = hostname, pm_ipv6 = pm_ipv6 raw, pm_ipv4 = pm_ipv4 raw,
                   pm_expected_key = pm_expected_key raw\<rparr>)"

definition option_list :: "'a option \<Rightarrow> 'a list" where
  "option_list v = (case v of None \<Rightarrow> [] | Some x \<Rightarrow> [x])"

definition connect_hosts :: "peer_metadata \<Rightarrow> string list" where
  "connect_hosts p =
     option_list (pm_hostname p) @ option_list (map_option show_ipv6 (pm_ipv6 p)) @
     option_list (map_option show_ipv4 (pm_ipv4 p))"

definition peer_label :: "peer_metadata \<Rightarrow> string" where
  "peer_label p = join '' ''
     (option_list (map_option (\<lambda>h. ''hostname='' @ h) (pm_hostname p)) @
      option_list (map_option (\<lambda>v6. ''ipv6='' @ show_ipv6 v6) (pm_ipv6 p)) @
      option_list (map_option (\<lambda>v4. ''ipv4='' @ show_ipv4 v4) (pm_ipv4 p)))"

definition expected_key_str :: "peer_metadata \<Rightarrow> string option" where
  "expected_key_str p = pm_expected_key p"

section \<open>TOML\<close>

definition toml_escape :: "char \<Rightarrow> string" where
  "toml_escape c =
     (if c = CHR 0x22 then [CHR 0x5C, CHR 0x22]
      else if c = CHR 0x5C then [CHR 0x5C, CHR 0x5C]
      else if c = CHR 0x0A then [CHR 0x5C, CHR ''n'']
      else if c = CHR 0x0D then [CHR 0x5C, CHR ''r'']
      else if c = CHR 0x09 then [CHR 0x5C, CHR ''t'']
      else [c])"

definition toml_basic_string :: "string \<Rightarrow> string" where
  "toml_basic_string s = CHR 0x22 # concat (map toml_escape s) @ [CHR 0x22]"

definition to_pinned_toml :: "string \<Rightarrow> peer_metadata \<Rightarrow> string" where
  "to_pinned_toml observed_key p =
     ''[[peer]]'' @ [CHR 0x0A] @
     concat (map (\<lambda>h. ''hostname = '' @ toml_basic_string h @ [CHR 0x0A]) (option_list (pm_hostname p))) @
     concat (map (\<lambda>v6. ''ipv6 = '' @ toml_basic_string (show_ipv6 v6) @ [CHR 0x0A]) (option_list (pm_ipv6 p))) @
     concat (map (\<lambda>v4. ''ipv4 = '' @ toml_basic_string (show_ipv4 v4) @ [CHR 0x0A]) (option_list (pm_ipv4 p))) @
     ''expected_key = { key = '' @ toml_basic_string observed_key @ '' }'' @ [CHR 0x0A]"

definition unpinned_key_warning :: "string \<Rightarrow> peer_metadata \<Rightarrow> string" where
  "unpinned_key_warning observed_key p =
     ''peer ['' @ peer_label p @ ''] has no expected_key set; it advertised the key below. If you '' @
     ''trust this server, pin it by adding the following to your weverywhere.toml:'' @
     [CHR 0x0A, CHR 0x0A] @ to_pinned_toml observed_key p"

section \<open>Override files\<close>

record limit =
  li_max_cpu_instructions :: u64
  li_max_memory_bytes :: u64

record identity_config =
  ic_name :: string
  ic_keyfile :: string

record config =
  cf_identity :: identity_config
  cf_trusted :: "string list"
  cf_startup_program :: "string list"
  cf_includes :: "string list"
  cf_peer :: "peer_metadata list"
  cf_limits_trusted :: limit
  cf_limits_untrusted :: limit

text \<open>The optioned forms: every field may be missing, in the nested structures too.\<close>

record limit_opt =
  lo_max_cpu_instructions :: "u64 option"
  lo_max_memory_bytes :: "u64 option"

record identity_config_opt =
  io_name :: "string option"
  io_keyfile :: "string option"

record config_opt =
  co_identity :: "identity_config_opt option"
  co_trusted :: "string option list option"
  co_startup_program :: "string option list option"
  co_includes :: "string option list option"
  co_peer :: "peer_metadata list option"
  co_limits_trusted :: "limit_opt option"
  co_limits_untrusted :: "limit_opt option"

record config_env =
  ce_read :: "string \<Rightarrow> string option"
  ce_parse :: "string \<Rightarrow> config option"
  ce_parse_opt :: "string \<Rightarrow> config_opt option"
  ce_glob :: "string \<Rightarrow> string option list option"
  ce_omerge_identity :: "identity_config_opt \<Rightarrow> identity_config_opt \<Rightarrow> identity_config_opt option"
  ce_omerge_limit :: "limit_opt \<Rightarrow> limit_opt \<Rightarrow> limit_opt option"

definition limit_into :: "limit \<Rightarrow> limit_opt" where
  "limit_into l = \<lparr>lo_max_cpu_instructions = Some (li_max_cpu_instructions l),
     lo_max_memory_bytes = Some (li_max_memory_bytes l)\<rparr>"

definition limit_opt_default :: limit_opt where
  "limit_opt_default = \<lparr>lo_max_cpu_instructions = None, lo_max_memory_bytes = None\<rparr>"

definition into_optioned :: "config \<Rightarrow> config_opt" where
  "into_optioned c = \<lparr>co_identity = Some \<lparr>io_name = Some (ic_name (cf_identity c)),
       io_keyfile = Some (ic_keyfile (cf_identity c))\<rparr>,
     co_trusted = Some (map Some (cf_trusted c)), co_startup_program = Some (map Some (cf_startup_program c)),
     co_includes = Some (map Some (cf_includes c)), co_peer = Some (cf_peer c),
     co_limits_trusted = Some (limit_into (cf_limits_trusted c)),
     co_limits_untrusted = Some (limit_into (cf_limits_untrusted c))\<rparr>"

fun all_some :: "'a option list \<Rightarrow> 'a list option" where
  "all_some [] = Some []"
| "all_some (None # xs) = None"
| "all_some (Some x # xs) = map_option ((#) x) (all_some xs)"

definition limit_try :: "limit_opt \<Rightarrow> limit option" where
  "limit_try l =
     (case (lo_max_cpu_instructions l, lo_max_memory_bytes l) of
        (Some a, Some b) \<Rightarrow> Some \<lparr>li_max_cpu_instructions = a, li_max_memory_bytes = b\<rparr>
      | _ \<Rightarrow> None)"

definition try_from_optioned :: "config_opt \<Rightarrow> config option" where
  "try_from_optioned c =
     (case (co_identity c, Option.bind (co_trusted c) all_some, Option.bind (co_startup_program c) all_some,
            Option.bind (co_includes c) all_some, co_peer c, Option.bind (co_limits_trusted c) limit_try,
            Option.bind (co_limits_untrusted c) limit_try) of
        (Some i, Some t, Some s, Some n, Some p, Some lt, Some lu) \<Rightarrow>
          (case (io_name i, io_keyfile i) of
             (Some name, Some keyfile) \<Rightarrow>
               Some \<lparr>cf_identity = \<lparr>ic_name = name, ic_keyfile = keyfile\<rparr>, cf_trusted = t,
                 cf_startup_program = s, cf_includes = n, cf_peer = p, cf_limits_trusted = lt,
                 cf_limits_untrusted = lu\<rparr>
           | _ \<Rightarrow> None)
      | _ \<Rightarrow> None)"

text \<open>The outer \<open>None\<close> is an error, the inner option the result.\<close>

definition fancy_omerge :: "('a \<Rightarrow> 'a \<Rightarrow> 'a option) \<Rightarrow> 'a option \<Rightarrow> 'a option \<Rightarrow> 'a option option" where
  "fancy_omerge omerge f1 f2 =
     (case (f1, f2) of
        (Some v1, None) \<Rightarrow> Some (Some v1)
      | (Some v1, Some v2) \<Rightarrow> map_option Some (omerge v1 v2)
      | (None, Some v2) \<Rightarrow> Some (Some v2)
      | (None, None) \<Rightarrow> Some None)"

definition fancy_omerge_vec :: "'a list option \<Rightarrow> 'a list option \<Rightarrow> 'a list option" where
  "fancy_omerge_vec f1 f2 =
     (case (f1, f2) of
        (Some v1, None) \<Rightarrow> Some v1
      | (Some v1, Some v2) \<Rightarrow> Some (v1 @ v2)
      | (None, Some v2) \<Rightarrow> Some v2
      | (None, None) \<Rightarrow> None)"

definition or_default :: "limit_opt option \<Rightarrow> limit_opt" where
  "or_default l = (case l of Some x \<Rightarrow> x | None \<Rightarrow> limit_opt_default)"

definition process_config_override_file :: "config_env \<Rightarrow> config \<Rightarrow> string \<Rightarrow> config option" where
  "process_config_override_file env config path =
     (case Option.bind (ce_read env path) (ce_parse_opt env) of
        None \<Rightarrow> None
      | Some parsed \<Rightarrow>
          let override_data = parsed\<lparr>co_includes := None\<rparr>; config_o = into_optioned config in
          (case (fancy_omerge (ce_omerge_identity env) (co_identity config_o) (co_identity override_data),
                 fancy_omerge (ce_omerge_limit env) (co_limits_trusted config_o) (co_limits_trusted override_data),
                 fancy_omerge (ce_omerge_limit env) (co_limits_untrusted config_o) (co_limits_untrusted override_data)) of
             (Some identity, Some lt, Some lu) \<Rightarrow>
               try_from_optioned \<lparr>co_identity = identity,
                 co_trusted = fancy_omerge_vec (co_trusted config_o) (co_trusted override_data),
                 co_startup_program = fancy_omerge_vec (co_startup_program config_o) (co_startup_program override_data),
                 co_includes = fancy_omerge_vec (co_includes config_o) (co_includes override_data),
                 co_peer = fancy_omerge_vec (co_peer config_o) (co_peer override_data),
                 co_limits_trusted = Some (or_default lt), co_limits_untrusted = Some (or_default lu)\<rparr>
           | _ \<Rightarrow> None))"

datatype config_error = ConfigRead | ConfigParse

text \<open>One glob entry: an unreadable entry or a failing override is logged and skipped.\<close>

definition apply_entry :: "config_env \<Rightarrow> string option \<Rightarrow> config \<Rightarrow> config" where
  "apply_entry env entry config =
     (case entry of
        None \<Rightarrow> config
      | Some path \<Rightarrow>
          (case process_config_override_file env config path of Some new_config \<Rightarrow> new_config | None \<Rightarrow> config))"

definition apply_include :: "config_env \<Rightarrow> string \<Rightarrow> config \<Rightarrow> config" where
  "apply_include env pattern config =
     (case ce_glob env pattern of
        Some paths \<Rightarrow> fold (apply_entry env) paths config
      | None \<Rightarrow> config)"

definition read_from_file :: "config_env \<Rightarrow> string \<Rightarrow> config_error + config" where
  "read_from_file env file =
     (case ce_read env file of
        None \<Rightarrow> Inl ConfigRead
      | Some contents \<Rightarrow>
     (case ce_parse env contents of
        None \<Rightarrow> Inl ConfigParse
      | Some config \<Rightarrow> Inr (fold (apply_include env) (cf_includes config) config)))"

section \<open>Lemmas\<close>

lemma all_some_map [simp]: "all_some (map Some xs) = Some xs"
  by (induction xs) simp_all

lemma all_some_append:
  "all_some (xs @ ys) = (case all_some xs of None \<Rightarrow> None | Some a \<Rightarrow> map_option ((@) a) (all_some ys))"
  by (induction xs rule: all_some.induct) (cases "all_some ys"; auto split: option.splits)+

lemma all_some_map_append [simp]: "all_some (map Some xs @ ys) = map_option ((@) xs) (all_some ys)"
  by (simp add: all_some_append)

text \<open>An override only adds: lists grow at the end, includes stay.\<close>

definition extends :: "config \<Rightarrow> config \<Rightarrow> bool" where
  "extends c c' \<longleftrightarrow> prefix (cf_trusted c) (cf_trusted c') \<and>
     prefix (cf_startup_program c) (cf_startup_program c') \<and>
     prefix (cf_peer c) (cf_peer c') \<and> cf_includes c' = cf_includes c"

lemma extends_refl [simp]: "extends c c"
  by (simp add: extends_def)

lemma extends_trans: "extends a b \<Longrightarrow> extends b c \<Longrightarrow> extends a c"
  by (auto simp: extends_def intro: prefix_order.trans)

lemma extends_fold: "(\<And>x c. extends c (f x c)) \<Longrightarrow> extends c (fold f xs c)"
  by (induction xs arbitrary: c) (auto intro: extends_trans)

lemma override_extends:
  assumes "process_config_override_file env config path = Some c'"
  shows "extends config c'"
  using assms
  by (auto simp: process_config_override_file_def into_optioned_def try_from_optioned_def
      fancy_omerge_vec_def extends_def Let_def prefix_def split: option.splits)

lemma apply_entry_extends: "extends c (apply_entry env entry c)"
  by (auto simp: apply_entry_def intro: override_extends split: option.split)

lemma apply_include_extends: "extends c (apply_include env pattern c)"
  by (auto simp: apply_include_def intro: extends_fold apply_entry_extends split: option.split)

lemma toml_escape_no_newline: "CHR 0x0A \<notin> set (toml_escape c)"
  by (auto simp: toml_escape_def)

lemma toml_basic_no_newline: "CHR 0x0A \<notin> set (toml_basic_string s)"
  using toml_escape_no_newline by (auto simp: toml_basic_string_def)

lemma toml_escape_inj:
  "toml_escape c @ x = toml_escape d @ y \<Longrightarrow> c = d \<and> x = y"
  by (auto simp: toml_escape_def split: if_splits)

lemma toml_escape_nonempty [simp]: "toml_escape c \<noteq> []"
  by (simp add: toml_escape_def)

lemma toml_escape_not_quote: "toml_escape c @ x \<noteq> CHR 0x22 # y"
  by (auto simp: toml_escape_def)

lemma toml_body_inj:
  "concat (map toml_escape s) @ CHR 0x22 # x = concat (map toml_escape t) @ CHR 0x22 # y \<Longrightarrow> s = t \<and> x = y"
proof (induction s arbitrary: t)
  case Nil
  then show ?case using toml_escape_not_quote [symmetric] by (cases t) auto
next
  case (Cons c s)
  show ?case
  proof (cases t)
    case Nil
    with Cons.prems toml_escape_not_quote show ?thesis by auto
  next
    case (Cons d t')
    with Cons.prems have "toml_escape c @ concat (map toml_escape s) @ CHR 0x22 # x =
        toml_escape d @ concat (map toml_escape t') @ CHR 0x22 # y" by simp
    from toml_escape_inj [OF this] Cons.IH Cons show ?thesis by auto
  qed
qed

lemma filter_newline_none: "c \<notin> set s \<Longrightarrow> filter (\<lambda>x. x = c) s = []"
  by (induction s) auto

section \<open>Properties\<close>

text \<open>Every configured peer can be contacted. A peer entry is accepted exactly when it has a
  hostname that is not blank, an IPv6 or an IPv4 address; an accepted entry has between one and
  three connection candidates, the hostname before IPv6 before IPv4, and a hostname, if kept, is
  trimmed and not empty.\<close>

theorem peer_entry_connectable:
  "(peer_try_from raw = Inl NoAddress \<longleftrightarrow>
      (\<forall>h. pm_hostname raw = Some h \<longrightarrow> trim h = []) \<and> pm_ipv6 raw = None \<and> pm_ipv4 raw = None) \<and>
   (\<forall>p. peer_try_from raw = Inr p \<longrightarrow>
      connect_hosts p \<noteq> [] \<and> length (connect_hosts p) \<le> 3 \<and>
      (\<forall>h. pm_hostname p = Some h \<longrightarrow> hd (connect_hosts p) = h \<and> h \<noteq> []) \<and>
      (\<forall>a. pm_ipv4 p = Some a \<longrightarrow> last (connect_hosts p) = show_ipv4 a))"
  by (auto simp: peer_try_from_def connect_hosts_def option_list_def Let_def split: option.splits if_splits)

theorem peer_entry_connectable_witness:
  "\<exists>p. peer_try_from \<lparr>pm_hostname = Some '' '', pm_ipv6 = None, pm_ipv4 = Some 0x7F000001, pm_expected_key = None\<rparr> = Inr p \<and>
     connect_hosts p \<noteq> [] \<and> last (connect_hosts p) = show_ipv4 0x7F000001"
proof -
  let ?raw = "\<lparr>pm_hostname = Some '' '', pm_ipv6 = None, pm_ipv4 = Some 0x7F000001, pm_expected_key = None\<rparr>"
  obtain p where p: "peer_try_from ?raw = Inr p"
    by (auto simp: peer_try_from_def Let_def)
  then have "pm_ipv4 p = Some 0x7F000001" by (auto simp: peer_try_from_def Let_def split: if_splits)
  with peer_entry_connectable [of ?raw] p show ?thesis by blast
qed

text \<open>The generated TOML cannot be broken out of. A rendered string starts and ends with a quote,
  contains no line break, and where it ends is determined by its text: whatever follows, two
  rendered strings agree only if they render the same string. So a hostname or a key advertised
  by a peer stays inside its quotes: the pinned block has exactly one line per configured field,
  plus the header and the key.\<close>

theorem toml_string_self_delimiting:
  "(toml_basic_string s @ x = toml_basic_string t @ y \<longleftrightarrow> s = t \<and> x = y) \<and>
   CHR 0x0A \<notin> set (toml_basic_string s) \<and>
   count_list (to_pinned_toml key p) (CHR 0x0A) = 2 + length (connect_hosts p)"
proof (intro conjI)
  show "toml_basic_string s @ x = toml_basic_string t @ y \<longleftrightarrow> s = t \<and> x = y"
    using toml_body_inj [of s x t y] by (auto simp: toml_basic_string_def)
  show "CHR 0x0A \<notin> set (toml_basic_string s)" by (rule toml_basic_no_newline)
  have c0: "count_list (toml_basic_string u) (CHR 0x0A) = 0" for u
    using toml_basic_no_newline count_notin by metis
  show "count_list (to_pinned_toml key p) (CHR 0x0A) = 2 + length (connect_hosts p)"
    by (cases "pm_hostname p"; cases "pm_ipv6 p"; cases "pm_ipv4 p")
      (simp_all add: to_pinned_toml_def connect_hosts_def option_list_def c0)
qed


text \<open>A base file that includes one override with one more peer, and one that does not parse.\<close>

definition demo_peer :: "u32 \<Rightarrow> peer_metadata" where
  "demo_peer a = \<lparr>pm_hostname = None, pm_ipv6 = None, pm_ipv4 = Some a, pm_expected_key = None\<rparr>"

definition demo_config :: config where
  "demo_config = \<lparr>cf_identity = \<lparr>ic_name = ''n'', ic_keyfile = ''id.pem''\<rparr>, cf_trusted = [],
     cf_startup_program = [], cf_includes = [''conf.d/*''], cf_peer = [demo_peer 1],
     cf_limits_trusted = \<lparr>li_max_cpu_instructions = 0, li_max_memory_bytes = 0\<rparr>,
     cf_limits_untrusted = \<lparr>li_max_cpu_instructions = 0, li_max_memory_bytes = 0\<rparr>\<rparr>"

definition demo_config_env :: config_env where
  "demo_config_env = \<lparr>ce_read = (\<lambda>p. Some p),
     ce_parse = (\<lambda>t. if t = ''base'' then Some demo_config else None),
     ce_parse_opt = (\<lambda>t. if t = ''extra'' then Some \<lparr>co_identity = None, co_trusted = None,
        co_startup_program = None, co_includes = None, co_peer = Some [demo_peer 2],
        co_limits_trusted = None, co_limits_untrusted = None\<rparr> else None),
     ce_glob = (\<lambda>_. Some [Some ''broken'', None, Some ''extra'']),
     ce_omerge_identity = (\<lambda>a b. Some b), ce_omerge_limit = (\<lambda>a b. Some b)\<rparr>"


end
