(* ===== verification/Serve.thy ===== *)
theory Serve
  imports Executor Config
begin

text \<open>
  The daemon's fabric side, \<open>src/command/serve.rs\<close>: what a received datagram does
  (\<open>handle_datagram\<close>, the body of \<open>serve_group\<close>'s loop), which sub-requests a
  discovery program is forwarded as (\<open>discovery_forward\<close>), and how replies are relayed
  (\<open>relay_one_peer\<close>). Sockets are the environment's. What an accepted program does is the
  list of host calls it makes (\<open>guest_run\<close>), run through \<open>host_run\<close>; its program text decides
  them, so every theorem holds for all lists.
\<close>

section \<open>The environment of one datagram\<close>

text \<open>\<open>gr_exit\<close> is the exit code the runner records, \<open>gr_wait\<close> what \<open>wait_for_pid_exit\<close> answers:
  the spawn error (\<open>Inl\<close>) or a code. See \<open>Lifecycle\<close> for how the two are related.\<close>

record guest_run =
  gr_calls :: "(host_env \<times> memory \<times> host_call) list"
  gr_exit :: u32
  gr_wait :: "unit + u32"

record serve_env =
  sv_crates :: crates
  sv_engine :: wasm_engine
  sv_interfaces :: "interface list"
  sv_port :: u16
  sv_now :: u64
  sv_guest :: "spawned \<Rightarrow> guest_run"
  sv_send_exit_ok :: bool

datatype serve_out =
    LogSig string bool socket_addr identity_data
  | SendTo bytes socket_addr
  | SpawnForward program_data "bytes option" socket_addr

text \<open>An error propagated by \<open>?\<close> leaves \<open>serve_group\<close>: the listener stops.\<close>

datatype listener = Listening | Stopped

definition guest_init :: "executor \<Rightarrow> host_state" where
  "guest_init ex = \<lparr>hs_memory = None, hs_messages = ex_messages ex, hs_map = None,
     hs_forward_uuid = None, hs_replicated = [], hs_fabric_sent = [], hs_stdout = [], hs_tty_out = []\<rparr>"

definition option_out :: "socket_addr \<Rightarrow> bytes option \<Rightarrow> serve_out list" where
  "option_out addr enc = (case enc of Some b \<Rightarrow> [SendTo b addr] | None \<Rightarrow> [])"

section \<open>Datagrams\<close>

definition node_addr_for :: "serve_env \<Rightarrow> socket_addr \<Rightarrow> string option" where
  "node_addr_for env addr =
     map_option (\<lambda>ip. show_socket_addr (sock_of ip (sv_port env)))
       (local_addr_facing (sv_interfaces env) (sock_ip addr))"

definition handle_execute_request ::
  "serve_env \<Rightarrow> socket_addr \<Rightarrow> program_data \<Rightarrow> executor \<Rightarrow> listener \<times> executor \<times> serve_out list" where
  "handle_execute_request env addr program ex =
     (let cr = ck_crypto (sv_crates env); ba = ck_bare (sv_crates env);
          log = [LogSig ''execute-req'' (check_self_signature_b cr (pd_source program)) addr (pd_source program)];
          ex1 = note_peer (sv_now env) addr (pd_source program) ex;
          opts = exec_options_default\<lparr>eo_node_addr := node_addr_for env addr\<rparr>
      in (case begin_exec cr (sv_engine env) program opts ex1 of
            (ex2, Inl e) \<Rightarrow> (Listening, ex2, log)
          | (ex2, Inr sp) \<Rightarrow>
              let gr = sv_guest env sp;
                  hs = host_run (sv_crates env) (sp_store sp) (gr_calls gr) (guest_init ex2);
                  ex3 = finish_pid (sp_pid sp) (gr_exit gr) (ex2\<lparr>ex_messages := hs_messages hs\<rparr>)
              in (case gr_wait gr of
                    Inl _ \<Rightarrow> (Stopped, ex3, log)
                  | Inr exit_code \<Rightarrow>
                      let map_out = (case hs_map hs of
                                       None \<Rightarrow> []
                                     | Some cbor \<Rightarrow> option_out addr
                                         (ba_to_vec ba (BasicReturnMap (sp_pid sp) (pd_request_uuid program) cbor)));
                          fwd_out = (if 0 < pd_depth_budget program
                                     then [SpawnForward program (hs_forward_uuid hs) addr] else [])
                      in (case ba_to_vec ba (BasicInsecureProgramExit (sp_pid sp) exit_code) of
                            None \<Rightarrow> (Listening, ex3, log @ map_out @ fwd_out)
                          | Some enc \<Rightarrow>
                              if sv_send_exit_ok env
                              then (Listening, ex3, log @ map_out @ fwd_out @ [SendTo enc addr])
                              else (Stopped, ex3, log @ map_out @ fwd_out)))))"

definition handle_fabric_message ::
  "serve_env \<Rightarrow> socket_addr \<Rightarrow> identity_data \<Rightarrow> bytes \<Rightarrow> bytes \<Rightarrow> bytes \<Rightarrow> executor \<Rightarrow>
   listener \<times> executor \<times> serve_out list" where
  "handle_fabric_message env addr source id_bytes cbor_data signature ex =
     (let cr = ck_crypto (sv_crates env) in
      case check_self_signature cr source of
        Inl e \<Rightarrow> (Listening, ex, [LogSig ''fabric-msg'' False addr source])
      | Inr _ \<Rightarrow>
     (case verify_payload cr source id_bytes cbor_data signature of
        Inl e \<Rightarrow> (Listening, ex, [LogSig ''fabric-msg'' False addr source])
      | Inr _ \<Rightarrow>
          let ex1 = note_peer (sv_now env) addr source ex;
              (ex2, seq) = record_fabric_message (id_human_name source) (id_public_key source) id_bytes
                             cbor_data (sv_now env) ex1
          in (Listening, ex2, [LogSig ''fabric-msg'' True addr source])))"

definition handle_datagram ::
  "serve_env \<Rightarrow> bytes \<Rightarrow> socket_addr \<Rightarrow> executor \<Rightarrow> listener \<times> executor \<times> serve_out list" where
  "handle_datagram env buf addr ex =
     (case ba_from_slice (ck_bare (sv_crates env)) buf of
        None \<Rightarrow> (Listening, ex, [])
      | Some msg \<Rightarrow>
     (case msg of
        ExecuteRequest program \<Rightarrow> handle_execute_request env addr program ex
      | SignedFabricMessage source id_bytes cbor_data signature \<Rightarrow>
          handle_fabric_message env addr source id_bytes cbor_data signature ex
      | _ \<Rightarrow> (Listening, ex, [])))"

text \<open>The receive loop, over the datagrams that arrive.\<close>

fun serve_loop ::
  "(serve_env \<times> bytes \<times> socket_addr) list \<Rightarrow> executor \<Rightarrow> listener \<times> executor \<times> serve_out list" where
  "serve_loop [] ex = (Listening, ex, [])"
| "serve_loop ((env, buf, addr) # ds) ex =
     (case handle_datagram env buf addr ex of
        (Stopped, ex', out) \<Rightarrow> (Stopped, ex', out)
      | (Listening, ex', out) \<Rightarrow>
          (case serve_loop ds ex' of (l, ex'', out') \<Rightarrow> (l, ex'', out @ out')))"

section \<open>Forwarding\<close>

record forward_env =
  fw_crypto :: crypto
  fw_bare :: bare_codec
  fw_lookup_host :: "string \<Rightarrow> u16 \<Rightarrow> socket_addr list option"
  fw_from_openssh :: "string \<Rightarrow> ssh_key_data option"
  fw_peers :: "peer_metadata list"
  fw_port :: u16
  fw_random_uuid :: bytes

type_synonym forward_target = "socket_addr \<times> bytes option"

text \<open>The addresses in the list are the \<open>seen_addrs\<close> of the source.\<close>

definition push_target :: "forward_target \<Rightarrow> forward_target list \<Rightarrow> forward_target list" where
  "push_target t targets = (if fst t \<in> set (map fst targets) then targets else targets @ [t])"

definition peer_target :: "forward_env \<Rightarrow> peer_metadata \<Rightarrow> forward_target option" where
  "peer_target env peer =
     map_option (\<lambda>addr. (addr,
         Option.bind (expected_key_str peer) (\<lambda>s.
           case public_key_to_ed25519_vk (fw_from_openssh env) (fw_crypto env) s of
             Inr vk \<Rightarrow> Some vk | Inl _ \<Rightarrow> None)))
       (resolve_peer_addr (fw_lookup_host env) (connect_hosts peer) (fw_port env))"

definition forward_targets :: "forward_env \<Rightarrow> executor \<Rightarrow> forward_target list" where
  "forward_targets env ex =
     fold (\<lambda>(addr, pubkey). push_target (addr, if pubkey = [] then None else Some pubkey))
       (observed_targets ex)
       (fold (\<lambda>peer targets. case peer_target env peer of Some t \<Rightarrow> push_target t targets | None \<Rightarrow> targets)
          (fw_peers env) [])"

definition sub_request ::
  "executor \<Rightarrow> identity_data \<Rightarrow> program_data \<Rightarrow> bytes \<Rightarrow> forward_target \<Rightarrow> program_data option" where
  "sub_request ex our_identity incoming child_uuid target =
     (case target of (peer_addr, peer_pubkey) \<Rightarrow>
        if (case peer_pubkey of
              Some pk \<Rightarrow> pk = ex_identity_pubkey ex \<or> pk \<in> set (pd_visited incoming)
            | None \<Rightarrow> False)
        then None
        else
          let we_trust = (case peer_pubkey of Some pk \<Rightarrow> trusts_pubkey pk ex | None \<Rightarrow> False);
              child_depth = child_depth_budget (pd_depth_budget incoming) we_trust
          in builder_build
               (set_request_context child_uuid child_depth (pd_visited incoming @ [ex_identity_pubkey ex])
               (set_source our_identity
               (set_wasm_program_bytes (pd_wasm_program_bytes incoming)
               (set_human_name (pd_human_name incoming) builder_new)))))"

text \<open>The relays to start: the encoded sub-request and the peer it goes to.\<close>

definition discovery_forward ::
  "forward_env \<Rightarrow> program_data \<Rightarrow> bytes option \<Rightarrow> executor \<Rightarrow> (program_data \<times> bytes \<times> socket_addr) list" where
  "discovery_forward env incoming forward_uuid ex =
     (case ex_identity_data ex of
        None \<Rightarrow> []
      | Some our_identity \<Rightarrow>
          let child_uuid = (case forward_uuid of Some u \<Rightarrow> u | None \<Rightarrow> fw_random_uuid env)
          in List.map_filter (\<lambda>target.
               Option.bind (sub_request ex our_identity incoming child_uuid target) (\<lambda>sub.
               map_option (\<lambda>sub_bytes. (sub, sub_bytes, fst target)) (ba_to_vec (fw_bare env) (ExecuteRequest sub))))
               (forward_targets env ex))"

section \<open>Relaying\<close>

definition RELAY_QUIET_TIMEOUT_MS :: nat where "RELAY_QUIET_TIMEOUT_MS = 1500"
definition RELAY_MAX_MS :: nat where "RELAY_MAX_MS = 9000"

fun rewrite_reply :: "bytes \<Rightarrow> network_message \<Rightarrow> network_message option" where
  "rewrite_reply caller_uuid (BasicReturnMap from_pid u cbor_data) = Some (BasicReturnMap from_pid caller_uuid cbor_data)"
| "rewrite_reply caller_uuid (BasicReturnList from_pid u cbor_data) = Some (BasicReturnList from_pid caller_uuid cbor_data)"
| "rewrite_reply caller_uuid _ = None"

definition relay_datagram :: "bare_codec \<Rightarrow> bytes \<Rightarrow> bytes \<Rightarrow> bytes option" where
  "relay_datagram ba caller_uuid buf =
     Option.bind (ba_from_slice ba buf) (\<lambda>msg. Option.bind (rewrite_reply caller_uuid msg) (ba_to_vec ba))"

text \<open>What one wait of at most \<open>RELAY_QUIET_TIMEOUT_MS\<close> yields, and the time since the start before it.\<close>

datatype relay_event = Datagram bytes | SocketError | QuietTimeout

fun relay_loop :: "bare_codec \<Rightarrow> bytes \<Rightarrow> (nat \<times> relay_event) list \<Rightarrow> bytes list" where
  "relay_loop ba caller_uuid [] = []"
| "relay_loop ba caller_uuid ((elapsed, ev) # evs) =
     (if RELAY_MAX_MS \<le> elapsed then []
      else (case ev of
              Datagram buf \<Rightarrow>
                (case relay_datagram ba caller_uuid buf of
                   Some enc \<Rightarrow> enc # relay_loop ba caller_uuid evs
                 | None \<Rightarrow> relay_loop ba caller_uuid evs)
            | SocketError \<Rightarrow> []
            | QuietTimeout \<Rightarrow> []))"

text \<open>The task of one forwarded request: every datagram it sends, with its destination. The socket may
  not bind (\<open>bound\<close>) and the request may not leave (\<open>sent\<close>).\<close>

definition relay_one_peer ::
  "bare_codec \<Rightarrow> bool \<Rightarrow> bool \<Rightarrow> bytes \<Rightarrow> socket_addr \<Rightarrow> socket_addr \<Rightarrow> bytes \<Rightarrow> (nat \<times> relay_event) list \<Rightarrow>
   (socket_addr \<times> bytes) list" where
  "relay_one_peer ba bound sent sub_bytes peer_addr caller_addr caller_uuid evs =
     (if \<not> bound then []
      else if \<not> sent then []
      else (peer_addr, sub_bytes) # map (Pair caller_addr) (relay_loop ba caller_uuid evs))"

section \<open>Lemmas\<close>

lemma finish_pid_fields [simp]:
  "ex_messages (finish_pid p c ex) = ex_messages ex"
  "ex_peers (finish_pid p c ex) = ex_peers ex"
  "ex_trusted_keys (finish_pid p c ex) = ex_trusted_keys ex"
  by (simp_all add: finish_pid_def)

lemma begin_exec_fields:
  assumes "begin_exec cr we p opts ex = (ex', res)"
  shows "ex_messages ex' = ex_messages ex \<and> ex_peers ex' = ex_peers ex \<and>
         ex_trusted_keys ex' = ex_trusted_keys ex"
  using assms by (auto simp: begin_exec_eq create_pid_eq Let_def split: sum.splits if_splits)

lemma begin_exec_store:
  assumes "begin_exec cr we p opts ex = (ex', Inr sp)"
  shows "check_self_signature cr (pd_source p) = Inr () \<and>
    rp_caller_name (sp_store sp) = id_human_name (pd_source p) \<and>
    rp_caller_pubkey (sp_store sp) = id_public_key (pd_source p)"
  using assms
  by (auto simp: begin_exec_eq create_pid_eq spawn_snapshot_def Let_def split: sum.splits if_splits)

text \<open>What an execute request leaves in the store: what was there, and what its calls pushed.\<close>

lemma execute_request_messages:
  assumes "handle_execute_request env addr p ex = (l, ex', out)"
  shows "ex_messages ex' = ex_messages ex \<or>
    check_self_signature (ck_crypto (sv_crates env)) (pd_source p) = Inr () \<and>
    (\<exists>d calls. rp_caller_name d = id_human_name (pd_source p) \<and> rp_caller_pubkey d = id_public_key (pd_source p) \<and>
       ex_messages ex' = hs_messages (host_run (sv_crates env) d calls (guest_init ex)))"
proof -
  let ?ex1 = "note_peer (sv_now env) addr (pd_source p) ex"
  let ?opts = "exec_options_default\<lparr>eo_node_addr := node_addr_for env addr\<rparr>"
  obtain ex2 res where b: "begin_exec (ck_crypto (sv_crates env)) (sv_engine env) p ?opts ?ex1 = (ex2, res)"
    by fastforce
  have m: "ex_messages ex2 = ex_messages ex" using begin_exec_fields [OF b] by simp
  then have gi: "guest_init ex2 = guest_init ex" by (simp add: guest_init_def)
  show ?thesis
  proof (cases res)
    case (Inl e)
    with b assms m show ?thesis by (simp add: handle_execute_request_def Let_def)
  next
    case (Inr sp)
    with b assms have "ex_messages ex' =
        hs_messages (host_run (sv_crates env) (sp_store sp) (gr_calls (sv_guest env sp)) (guest_init ex))"
      by (auto simp: handle_execute_request_def Let_def gi split: sum.splits option.splits if_splits)
    with begin_exec_store [of _ _ _ _ _ ex2 sp] b Inr show ?thesis by blast
  qed
qed

lemma fabric_message_cases:
  "handle_fabric_message env addr source i d sig ex =
     (if check_self_signature (ck_crypto (sv_crates env)) source = Inr () \<and>
         verify_payload (ck_crypto (sv_crates env)) source i d sig = Inr ()
      then (Listening,
            (note_peer (sv_now env) addr source ex)
              \<lparr>ex_messages := fst (ms_push (id_human_name source) (id_public_key source) i d (sv_now env) (ex_messages ex))\<rparr>,
            [LogSig ''fabric-msg'' True addr source])
      else (Listening, ex, [LogSig ''fabric-msg'' False addr source]))"
  by (auto simp: handle_fabric_message_def record_fabric_message_def Let_def case_prod_unfold
      split: sum.splits)

text \<open>A stored message comes from the old store or from the verified source of the datagram.\<close>

definition datagram_source :: "serve_env \<Rightarrow> bytes \<Rightarrow> identity_data option" where
  "datagram_source env buf =
     (case ba_from_slice (ck_bare (sv_crates env)) buf of
        Some (ExecuteRequest p) \<Rightarrow> Some (pd_source p)
      | Some (SignedFabricMessage source i d s) \<Rightarrow> Some source
      | _ \<Rightarrow> None)"

definition vouched :: "serve_env \<Rightarrow> bytes \<Rightarrow> stored_message \<Rightarrow> bool" where
  "vouched env buf m \<longleftrightarrow>
     (\<exists>i. datagram_source env buf = Some i \<and> check_self_signature (ck_crypto (sv_crates env)) i = Inr () \<and>
          sm_from_name m = id_human_name i \<and> sm_from_pubkey m = id_public_key i)"

lemma ms_push_stored:
  assumes "m \<in> set (ms_msgs (fst (ms_push name key i d now s)))"
  shows "m \<in> set (ms_msgs s) \<or> sm_from_name m = name \<and> sm_from_pubkey m = key"
  using ms_push_req_stored [of m "\<lparr>pr_name = name, pr_pubkey = key, pr_id = i, pr_text = d, pr_epoch = now\<rparr>" s]
    assms by (simp add: ms_push_req_def)

lemma datagram_messages:
  assumes "handle_datagram env buf addr ex = (l, ex', out)"
    and "m \<in> set (ms_msgs (ex_messages ex'))"
  shows "m \<in> set (ms_msgs (ex_messages ex)) \<or> vouched env buf m"
proof (cases "ba_from_slice (ck_bare (sv_crates env)) buf")
  case None
  with assms show ?thesis by (simp add: handle_datagram_def)
next
  case (Some msg)
  show ?thesis
  proof (cases msg)
    case (ExecuteRequest p)
    with Some assms(1) have h: "handle_execute_request env addr p ex = (l, ex', out)"
      by (simp add: handle_datagram_def)
    from execute_request_messages [OF h] show ?thesis
    proof
      assume "ex_messages ex' = ex_messages ex"
      with assms(2) show ?thesis by simp
    next
      assume "check_self_signature (ck_crypto (sv_crates env)) (pd_source p) = Inr () \<and>
        (\<exists>d calls. rp_caller_name d = id_human_name (pd_source p) \<and> rp_caller_pubkey d = id_public_key (pd_source p) \<and>
         ex_messages ex' = hs_messages (host_run (sv_crates env) d calls (guest_init ex)))"
      then obtain d calls where ok: "check_self_signature (ck_crypto (sv_crates env)) (pd_source p) = Inr ()"
        and d: "rp_caller_name d = id_human_name (pd_source p)" "rp_caller_pubkey d = id_public_key (pd_source p)"
        and e: "ex_messages ex' = hs_messages (host_run (sv_crates env) d calls (guest_init ex))" by blast
      obtain qs where "hs_messages (host_run (sv_crates env) d calls (guest_init ex)) =
          fst (ms_run qs (hs_messages (guest_init ex)))"
        and qs: "list_all (\<lambda>q. pr_name q = rp_caller_name d \<and> pr_pubkey q = rp_caller_pubkey d) qs"
        using host_run_messages by blast
      then have "m \<in> set (ms_msgs (fst (ms_run qs (ex_messages ex))))"
        using assms(2) e by (simp add: guest_init_def)
      from ms_run_stored [OF this qs] ok d Some ExecuteRequest show ?thesis
        by (auto simp: vouched_def datagram_source_def)
    qed
  next
    case (SignedFabricMessage source i d sig)
    with Some assms show ?thesis
      by (auto simp: handle_datagram_def fabric_message_cases vouched_def datagram_source_def
          dest!: ms_push_stored split: if_splits)
  qed (use Some assms in \<open>simp_all add: handle_datagram_def\<close>)
qed

lemma serve_loop_messages:
  assumes "serve_loop ds ex = (l, ex', out)" and "m \<in> set (ms_msgs (ex_messages ex'))"
  shows "m \<in> set (ms_msgs (ex_messages ex)) \<or> (\<exists>(env, buf, addr) \<in> set ds. vouched env buf m)"
  using assms
proof (induction ds arbitrary: ex l out)
  case (Cons x ds)
  obtain env buf addr where x: "x = (env, buf, addr)" by (cases x)
  obtain l1 ex1 out1 where h: "handle_datagram env buf addr ex = (l1, ex1, out1)" by (metis prod_cases3)
  show ?case
  proof (cases l1)
    case Stopped
    with Cons.prems x h datagram_messages [OF h] show ?thesis by fastforce
  next
    case Listening
    obtain l2 ex2 out2 where r: "serve_loop ds ex1 = (l2, ex2, out2)" by (metis prod_cases3)
    with Cons.prems x h Listening have r': "serve_loop ds ex1 = (l2, ex', out2)" by simp
    from Cons.IH [OF r' Cons.prems(2)] datagram_messages [OF h] x show ?thesis by fastforce
  qed
qed simp

section \<open>Forwarding lemmas\<close>

lemma push_target_distinct:
  "distinct (map fst ts) \<Longrightarrow> distinct (map fst (push_target t ts))"
  by (auto simp: push_target_def)

lemma forward_targets_distinct: "distinct (map fst (forward_targets env ex))"
proof -
  have 1: "distinct (map fst (fold (\<lambda>(addr, pubkey). push_target (addr, g pubkey)) xs ts))"
    if "distinct (map fst ts)" for g :: "bytes \<Rightarrow> bytes option" and xs ts
    using that by (induction xs arbitrary: ts) (auto simp: push_target_distinct)
  have 2: "distinct (map fst (fold (\<lambda>peer targets. case f peer of Some t \<Rightarrow> push_target t targets | None \<Rightarrow> targets) xs ts))"
    if "distinct (map fst ts)" for f :: "peer_metadata \<Rightarrow> forward_target option" and xs ts
    using that by (induction xs arbitrary: ts) (auto simp: push_target_distinct split: option.split)
  show ?thesis unfolding forward_targets_def by (intro 1 2) simp
qed

lemma sub_request_Some:
  assumes "sub_request ex our incoming u (addr, pk) = Some sub"
  shows "sub = \<lparr>pd_source = our, pd_human_name = pd_human_name incoming,
      pd_wasm_program_bytes = pd_wasm_program_bytes incoming, pd_signature = [], pd_request_uuid = u,
      pd_depth_budget = child_depth_budget (pd_depth_budget incoming)
        (case pk of Some k \<Rightarrow> trusts_pubkey k ex | None \<Rightarrow> False),
      pd_visited = pd_visited incoming @ [ex_identity_pubkey ex], pd_arg_list = [], pd_arg_map = []\<rparr> \<and>
    (\<forall>k. pk = Some k \<longrightarrow> k \<noteq> ex_identity_pubkey ex \<and> k \<notin> set (pd_visited incoming))"
  using assms by (auto simp: sub_request_def builder_defs builder_build_def split: option.splits if_splits)

lemma map_filter_Cons:
  "List.map_filter f (x # xs) = (case f x of None \<Rightarrow> List.map_filter f xs | Some y \<Rightarrow> y # List.map_filter f xs)"
  by (simp add: List.map_filter_def split: option.split)

lemma map_filter_Nil: "List.map_filter f [] = []"
  by (simp add: List.map_filter_def)

lemma map_filter_append: "List.map_filter f (xs @ ys) = List.map_filter f xs @ List.map_filter f ys"
  by (simp add: List.map_filter_def)

lemma map_filter_mem: "y \<in> set (List.map_filter f xs) \<longleftrightarrow> (\<exists>x \<in> set xs. f x = Some y)"
  by (induction xs) (auto simp: map_filter_Cons map_filter_Nil split: option.split)

lemma map_filter_distinct_addrs:
  assumes "distinct (map fst ts)" and f: "\<And>t a b c. f t = Some (a, b, c) \<Longrightarrow> c = fst t"
  shows "distinct (map (snd \<circ> snd) (List.map_filter f ts))"
  using assms(1)
proof (induction ts)
  case (Cons t ts)
  have "snd (snd y) \<in> set (map fst ts)" if "y \<in> set (List.map_filter f ts)" for y
    using that f [of _ "fst y" "fst (snd y)" "snd (snd y)"] by (auto simp: map_filter_mem)
  moreover have "f t = Some y \<Longrightarrow> snd (snd y) = fst t" for y
    using f [of t "fst y" "fst (snd y)" "snd (snd y)"] by simp
  ultimately show ?case using Cons by (auto simp: map_filter_Cons split: option.split)
qed (simp add: map_filter_Nil)

lemma discovery_forward_mem:
  assumes "(sub, sub_bytes, addr) \<in> set (discovery_forward env incoming fu ex)"
  shows "\<exists>our pk. ex_identity_data ex = Some our \<and> (addr, pk) \<in> set (forward_targets env ex) \<and>
    sub_request ex our incoming (case fu of Some u \<Rightarrow> u | None \<Rightarrow> fw_random_uuid env) (addr, pk) = Some sub \<and>
    ba_to_vec (fw_bare env) (ExecuteRequest sub) = Some sub_bytes"
proof -
  obtain our where our: "ex_identity_data ex = Some our"
    using assms by (cases "ex_identity_data ex") (auto simp: discovery_forward_def)
  with assms show ?thesis
    by (auto simp: discovery_forward_def map_filter_mem bind_eq_Some_conv)
qed

lemma discovery_forward_sub:
  assumes "(sub, sub_bytes, addr) \<in> set (discovery_forward env incoming fu ex)"
  shows "ex_identity_data ex = Some (pd_source sub) \<and>
    pd_wasm_program_bytes sub = pd_wasm_program_bytes incoming \<and> pd_human_name sub = pd_human_name incoming \<and>
    pd_visited sub = pd_visited incoming @ [ex_identity_pubkey ex] \<and>
    pd_request_uuid sub = (case fu of Some u \<Rightarrow> u | None \<Rightarrow> fw_random_uuid env) \<and>
    unat (pd_depth_budget sub) \<le> min (unat (pd_depth_budget incoming) - 1) 8 \<and>
    ba_to_vec (fw_bare env) (ExecuteRequest sub) = Some sub_bytes \<and>
    (\<exists>pk. (addr, pk) \<in> set (forward_targets env ex) \<and>
       (\<forall>k. pk = Some k \<longrightarrow> k \<noteq> ex_identity_pubkey ex \<and> k \<notin> set (pd_visited incoming) \<and>
          (\<not> trusts_pubkey k ex \<longrightarrow> unat (pd_depth_budget sub) \<le> 2)) \<and>
       (pk = None \<longrightarrow> unat (pd_depth_budget sub) \<le> 2))"
proof -
  obtain our pk where o: "ex_identity_data ex = Some our" "(addr, pk) \<in> set (forward_targets env ex)"
    and sub: "sub_request ex our incoming (case fu of Some u \<Rightarrow> u | None \<Rightarrow> fw_random_uuid env) (addr, pk) = Some sub"
    and enc: "ba_to_vec (fw_bare env) (ExecuteRequest sub) = Some sub_bytes"
    using discovery_forward_mem [OF assms] by blast
  define t where "t = (case pk of Some k \<Rightarrow> trusts_pubkey k ex | None \<Rightarrow> False)"
  note S = sub_request_Some [OF sub, folded t_def]
  have "unat (pd_depth_budget sub) = min (unat (pd_depth_budget incoming) - 1) (unat (trust_cap t))"
    using S by (simp add: dr.grant_exact)
  moreover have "unat (trust_cap t) \<le> 8" "\<not> t \<Longrightarrow> unat (trust_cap t) \<le> 2"
    by (simp_all add: depth_defs)
  ultimately have le: "unat (pd_depth_budget sub) \<le> min (unat (pd_depth_budget incoming) - 1) 8"
    and le2: "\<not> t \<Longrightarrow> unat (pd_depth_budget sub) \<le> 2" by auto
  have "\<exists>pk. (addr, pk) \<in> set (forward_targets env ex) \<and>
       (\<forall>k. pk = Some k \<longrightarrow> k \<noteq> ex_identity_pubkey ex \<and> k \<notin> set (pd_visited incoming) \<and>
          (\<not> trusts_pubkey k ex \<longrightarrow> unat (pd_depth_budget sub) \<le> 2)) \<and>
       (pk = None \<longrightarrow> unat (pd_depth_budget sub) \<le> 2)"
    using o(2) S le2 by (intro exI [of _ pk]) (auto simp: t_def)
  with S o(1) enc le show ?thesis by simp
qed

section \<open>Properties\<close>

text \<open>C1: nothing unverified reaches the store. After any sequence of datagrams, well formed or not,
  from anybody, with programs doing whatever they like, a message in the node's store was there
  before or carries the name and key of the source of one of these datagrams, and that
  source's self-signature is valid.\<close>

theorem store_holds_only_verified_senders:
  assumes "serve_loop ds ex = (l, ex', out)" and "m \<in> set (ms_msgs (ex_messages ex'))"
    and "m \<notin> set (ms_msgs (ex_messages ex))"
  shows "\<exists>env buf addr i. (env, buf, addr) \<in> set ds \<and> datagram_source env buf = Some i \<and>
    check_self_signature (ck_crypto (sv_crates env)) i = Inr () \<and>
    sm_from_name m = id_human_name i \<and> sm_from_pubkey m = id_public_key i"
  using serve_loop_messages [OF assms(1,2)] assms(3) by (fastforce simp: vouched_def)

text \<open>Signed fabric messages. A message is recorded exactly when both signatures verify, under
  the verified name and key, deduplicated by key and id, and its sender is noted as a
  neighbour; when either fails nothing on the node changes. Either way the listener goes on and
  the event is logged with its verdict.\<close>

theorem fabric_message_exact:
  assumes "ba_from_slice (ck_bare (sv_crates env)) buf = Some (SignedFabricMessage source i d sig)"
  shows "handle_datagram env buf addr ex =
    (let ok = (check_self_signature (ck_crypto (sv_crates env)) source = Inr () \<and>
               verify_payload (ck_crypto (sv_crates env)) source i d sig = Inr ())
     in (Listening,
         (if ok then (note_peer (sv_now env) addr source ex)
            \<lparr>ex_messages := fst (ms_push (id_human_name source) (id_public_key source) i d (sv_now env) (ex_messages ex))\<rparr>
          else ex),
         [LogSig ''fabric-msg'' ok addr source]))"
  using assms by (simp add: handle_datagram_def fabric_message_cases Let_def)

text \<open>C20: a message sent on one node arrives on another. If a program on a node with a valid identity
  and an open channel sends a CBOR list or map, the call answers 0 and queues one datagram; any
  node that receives this datagram pushes exactly this payload, with the sending node's name
  and key and the random id, into its own store.\<close>

theorem sent_message_is_delivered:
  assumes "ed25519_laws (ck_crypto c)"
    and "rp_identity_data d = Some i" and "rp_signing_key d = Some k" and "rp_fabric_send_tx d = OpenSink"
    and "id_public_key i = cr_verifying_key (ck_crypto c) k" and "check_self_signature (ck_crypto c) i = Inr ()"
    and "read_guest_bytes ptr len (hs_memory hs) = Inr payload" and "list_or_map payload"
    and "ba_to_vec (ck_bare c) (SignedFabricMessage i (he_random e 16) payload
           (sign_payload (ck_crypto c) k (he_random e 16) payload)) = Some bs"
    and "\<And>m. bare_round_trips (ck_bare c) m" and "sv_crates env = c"
  shows "host_messages_send d e c ptr len hs = Inr (hs\<lparr>hs_fabric_sent := hs_fabric_sent hs @ [bs]\<rparr>, 0) \<and>
    (\<exists>ex' out. handle_datagram env bs addr ex = (Listening, ex', out) \<and>
       ex_messages ex' = fst (ms_push (id_human_name i) (id_public_key i) (he_random e 16) payload (sv_now env) (ex_messages ex)))"
proof
  show "host_messages_send d e c ptr len hs = Inr (hs\<lparr>hs_fabric_sent := hs_fabric_sent hs @ [bs]\<rparr>, 0)"
    using assms by (simp add: host_messages_send_def with_guest_bytes_def return_i32_def Let_def)
  have dec: "ba_from_slice (ck_bare (sv_crates env)) bs = Some (SignedFabricMessage i (he_random e 16) payload
      (sign_payload (ck_crypto c) k (he_random e 16) payload))"
    using assms(9,10,11) unfolding bare_round_trips_def by simp
  have "verify_payload (ck_crypto c) i (he_random e 16) payload
      (sign_payload (ck_crypto c) k (he_random e 16) payload) = Inr ()"
    using verify_hash_signed [OF assms(1)] assms(5) by (simp add: verify_payload_def sign_payload_def)
  then show "\<exists>ex' out. handle_datagram env bs addr ex = (Listening, ex', out) \<and>
       ex_messages ex' = fst (ms_push (id_human_name i) (id_public_key i) (he_random e 16) payload (sv_now env) (ex_messages ex))"
    using fabric_message_exact [OF dec] assms(6,11) by (simp add: Let_def)
qed

text \<open>A captured message can be replayed without end. The signature covers the bare concatenation
  of id and payload and the receiver does not look at the id's length, so moving the id into
  the payload leaves a valid signature; with the id empty the duplicate check is off: every copy of
  one such datagram is stored as a new message of the victim.\<close>

theorem replay_under_empty_id:
  assumes "check_self_signature (ck_crypto (sv_crates env)) source = Inr ()"
    and "verify_payload (ck_crypto (sv_crates env)) source i d sig = Inr ()"
    and "ba_from_slice (ck_bare (sv_crates env)) buf = Some (SignedFabricMessage source [] (i @ d) sig)"
  shows "\<exists>ex' out. handle_datagram env buf addr ex = (Listening, ex', out) \<and>
    ms_next_seq (ex_messages ex') = ms_next_seq (ex_messages ex) + 1 \<and>
    (0 < ms_cap (ex_messages ex) \<longrightarrow>
      last (ms_msgs (ex_messages ex')) = \<lparr>sm_seq = ms_next_seq (ex_messages ex),
        sm_from_name = id_human_name source, sm_from_pubkey = id_public_key source, sm_text = i @ d,
        sm_epoch_s = sv_now env\<rparr>)"
proof -
  have "verify_payload (ck_crypto (sv_crates env)) source [] (i @ d) sig = Inr ()"
    using assms(2) by (simp add: verify_payload_def)
  then show ?thesis
    using fabric_message_exact [OF assms(3), of addr ex] assms(1)
    by (auto simp: Let_def ms_push_def ms_append_def pop_while_over_lastn lastn_def Suc_diff_le)
qed

text \<open>A forged identity becomes a neighbour. The source of an execute request is noted before, and
  whether or not, its signature verifies: a request that claims any key, with no valid
  signature, is not run, but from then on discovery forwards requests for that key to the forger's
  address, and if the claimed key is a trusted one the address is treated as trusted.\<close>

theorem forged_request_poisons_peers:
  assumes "ba_from_slice (ck_bare (sv_crates env)) buf = Some (ExecuteRequest p)"
    and "check_self_signature (ck_crypto (sv_crates env)) (pd_source p) = Inl err"
    and "dm_ok (ex_peers ex)"
  shows "\<exists>ex' out. handle_datagram env buf addr ex = (Listening, ex', out) \<and>
    ex_messages ex' = ex_messages ex \<and> ex_running_programs ex' = ex_running_programs ex \<and>
    (addr, id_public_key (pd_source p)) \<in> set (observed_targets ex') \<and>
    (\<exists>info. info \<in> set (dm_values (ex_peers ex')) \<and> pi_last_addr info = addr \<and>
       pi_trusted info = trusts_pubkey (id_public_key (pd_source p)) ex)"
proof -
  let ?ex' = "note_peer (sv_now env) addr (pd_source p) ex"
  have h: "handle_datagram env buf addr ex =
      (Listening, ?ex', [LogSig ''execute-req'' False addr (pd_source p)])"
    using assms(1,2)
    by (simp add: handle_datagram_def handle_execute_request_def begin_exec_eq check_self_signature_b_def Let_def)
  let ?info = "\<lparr>pi_human_name = id_human_name (pd_source p), pi_pubkey = id_public_key (pd_source p),
    pi_last_addr = addr, pi_trusted = trusts_pubkey (id_public_key (pd_source p)) ex,
    pi_last_seen_epoch_s = sv_now env\<rparr>"
  have "?info \<in> set (dm_values (ex_peers ?ex'))"
    using dm.vals_ins [OF assms(3)] by (simp add: ex_peers_note_peer)
  then have "?info \<in> set (dm_values (ex_peers ?ex')) \<and> (addr, id_public_key (pd_source p)) \<in> set (observed_targets ?ex')"
    by (force simp: observed_targets_def)
  then show ?thesis
    by (intro exI [of _ ?ex'] exI [of _ "[LogSig ''execute-req'' False addr (pd_source p)]"] conjI
        exI [of _ ?info]) (simp_all add: h)
qed

text \<open>One failing program can end a listener. When waiting for a program answers its spawn error
  instead of an exit code, the error leaves the receive loop: the exit message is not sent, the
  datagrams that follow are never read. Whoever can have a program run on the node can send
  one that traps.\<close>

theorem program_error_stops_listener:
  assumes "ba_from_slice (ck_bare (sv_crates env)) buf = Some (ExecuteRequest p)"
    and "check_self_signature (ck_crypto (sv_crates env)) (pd_source p) = Inr ()"
    and "we_engine_ok (sv_engine env)" and "we_module_ok (sv_engine env) (pd_wasm_program_bytes p)"
    and "\<And>sp. gr_wait (sv_guest env sp) = Inl ()"
  shows "\<exists>ex'. \<forall>ds. serve_loop ((env, buf, addr) # ds) ex =
    (Stopped, ex', [LogSig ''execute-req'' True addr (pd_source p)])"
proof -
  obtain ex' where "handle_datagram env buf addr ex =
      (Stopped, ex', [LogSig ''execute-req'' True addr (pd_source p)])"
    using assms
    by (simp add: handle_datagram_def handle_execute_request_def begin_exec_eq create_pid_eq
        check_self_signature_b_def Let_def)
  then show ?thesis by auto
qed

text \<open>C10: what a forwarded discovery request is. Every sub-request goes to a different address, none
  to a peer known to be the node itself or already on the path; it carries the same program, the
  node's own signed identity, the path extended by the node, a strictly smaller budget of at
  most 8 (at most 2 for a peer whose key is not known to be trusted), and the program's uuid
  if it chose one.\<close>

theorem forwarding_exact:
  "distinct (map (snd \<circ> snd) (discovery_forward env incoming fu ex)) \<and>
   (\<forall>sub sub_bytes addr. (sub, sub_bytes, addr) \<in> set (discovery_forward env incoming fu ex) \<longrightarrow>
      ex_identity_data ex = Some (pd_source sub) \<and>
      pd_wasm_program_bytes sub = pd_wasm_program_bytes incoming \<and>
      pd_visited sub = pd_visited incoming @ [ex_identity_pubkey ex] \<and>
      pd_request_uuid sub = (case fu of Some u \<Rightarrow> u | None \<Rightarrow> fw_random_uuid env) \<and>
      unat (pd_depth_budget sub) \<le> min (unat (pd_depth_budget incoming) - 1) 8 \<and>
      (\<exists>pk. (addr, pk) \<in> set (forward_targets env ex) \<and>
         (\<forall>k. pk = Some k \<longrightarrow> k \<noteq> ex_identity_pubkey ex \<and> k \<notin> set (pd_visited incoming)) \<and>
         (unat (pd_depth_budget sub) \<le> 2 \<or> (\<exists>k. pk = Some k \<and> trusts_pubkey k ex))))"
proof -
  have "distinct (map (snd \<circ> snd) (discovery_forward env incoming fu ex))"
  proof (cases "ex_identity_data ex")
    case (Some our)
    show ?thesis unfolding discovery_forward_def Some option.case Let_def
      by (rule map_filter_distinct_addrs [OF forward_targets_distinct]) (auto simp: bind_eq_Some_conv)
  qed (simp add: discovery_forward_def)
  moreover have "\<exists>pk. (addr, pk) \<in> set (forward_targets env ex) \<and>
      (\<forall>k. pk = Some k \<longrightarrow> k \<noteq> ex_identity_pubkey ex \<and> k \<notin> set (pd_visited incoming)) \<and>
      (unat (pd_depth_budget sub) \<le> 2 \<or> (\<exists>k. pk = Some k \<and> trusts_pubkey k ex))"
    if m: "(sub, sub_bytes, addr) \<in> set (discovery_forward env incoming fu ex)" for sub sub_bytes addr
  proof -
    obtain pk where pk: "(addr, pk) \<in> set (forward_targets env ex)"
      "\<forall>k. pk = Some k \<longrightarrow> k \<noteq> ex_identity_pubkey ex \<and> k \<notin> set (pd_visited incoming) \<and>
         (\<not> trusts_pubkey k ex \<longrightarrow> unat (pd_depth_budget sub) \<le> 2)"
      "pk = None \<longrightarrow> unat (pd_depth_budget sub) \<le> 2"
      using discovery_forward_sub [OF m] by blast
    then show ?thesis by (cases pk) auto
  qed
  ultimately show ?thesis using discovery_forward_sub by (intro conjI allI impI) blast+
qed

text \<open>Forwarding across the network: each request is a sub-request some node made of the one
  before; a node forwards only with a positive budget.\<close>

inductive forwards :: "program_data \<Rightarrow> program_data \<Rightarrow> bool" where
  "0 < pd_depth_budget p \<Longrightarrow> (q, sub_bytes, addr) \<in> set (discovery_forward env p fu ex) \<Longrightarrow> forwards p q"

inductive forward_chain :: "program_data \<Rightarrow> program_data list \<Rightarrow> bool" where
  chain_nil: "forward_chain p []"
| chain_cons: "forwards p q \<Longrightarrow> forward_chain q qs \<Longrightarrow> forward_chain p (q # qs)"

lemma forwards_budget:
  assumes "forwards p q"
  shows "unat (pd_depth_budget q) < unat (pd_depth_budget p) \<and> unat (pd_depth_budget q) \<le> 8 \<and>
    (\<exists>k. pd_visited q = pd_visited p @ [k])"
  using assms
proof cases
  case (1 sub_bytes addr env fu ex)
  then have "0 < unat (pd_depth_budget p)" by (simp add: unat_gt_0 word_neq_0_conv)
  with discovery_forward_sub [OF 1(2)] show ?thesis by auto
qed

lemma forward_chain_length: "forward_chain p qs \<Longrightarrow> length qs \<le> unat (pd_depth_budget p)"
  by (induction rule: forward_chain.induct) (auto dest: forwards_budget)

lemma forward_chain_at_most:
  assumes "forward_chain p qs"
  shows "length qs \<le> min (unat (pd_depth_budget p)) 9"
proof -
  have "length qs \<le> 9" using assms
  proof cases
    case (chain_cons q qs')
    then show ?thesis using forward_chain_length [of q qs'] forwards_budget [of p q] by simp
  qed simp
  with forward_chain_length [OF assms] show ?thesis by simp
qed

text \<open>C11: discovery always ends. However the nodes' tables and trust look, and whatever budget a
  request claims when it enters the fabric, it is forwarded along a path at most as often as its
  budget says and never more than nine times, and each hop adds one key to the visited path.\<close>

theorem forward_chain_bounded:
  assumes "forward_chain p qs"
  shows "length qs \<le> min (unat (pd_depth_budget p)) 9 \<and>
    (\<forall>q. qs \<noteq> [] \<and> q = last qs \<longrightarrow> length (pd_visited q) = length (pd_visited p) + length qs)"
proof
  show "length qs \<le> min (unat (pd_depth_budget p)) 9" by (rule forward_chain_at_most [OF assms])
  have "qs \<noteq> [] \<longrightarrow> length (pd_visited (last qs)) = length (pd_visited p) + length qs"
    using assms
  proof (induction rule: forward_chain.induct)
    case (chain_cons p q qs)
    then show ?case using forwards_budget [of p q] by (cases "qs = []") auto
  qed simp
  then show "\<forall>q. qs \<noteq> [] \<and> q = last qs \<longrightarrow> length (pd_visited q) = length (pd_visited p) + length qs"
    by simp
qed

lemma relay_loop_length: "length (relay_loop ba u evs) \<le> length evs"
  by (induction evs) (auto split: relay_event.split option.split)

lemma relay_loop_emits:
  "enc \<in> set (relay_loop ba u evs) \<Longrightarrow>
     \<exists>t buf. (t, Datagram buf) \<in> set evs \<and> t < RELAY_MAX_MS \<and> relay_datagram ba u buf = Some enc"
proof (induction evs)
  case (Cons x evs)
  obtain t ev where x: "x = (t, ev)" by (cases x)
  with Cons.prems have t: "t < RELAY_MAX_MS" by (auto split: if_splits)
  show ?case
  proof (cases ev)
    case (Datagram buf)
    with Cons x t have "relay_datagram ba u buf = Some enc \<or> enc \<in> set (relay_loop ba u evs)"
      by (auto split: option.splits)
    with Cons.IH x t Datagram show ?thesis by auto
  qed (use Cons.prems x t in simp_all)
qed simp

text \<open>What a relay passes on. Up a path of relays a structured reply keeps its pid and its CBOR
  and arrives under the uuid of the last relay's caller; no other kind of message passes. One relay
  sends its peer the request and nothing else, and its caller at most one reply per datagram, each
  the rewriting of a datagram received in its window.\<close>

theorem relay_preserves_replies:
  "(fold (\<lambda>u m. Option.bind m (rewrite_reply u)) us (Some (BasicReturnMap pid u0 cbor)) =
      Some (BasicReturnMap pid (last (u0 # us)) cbor)) \<and>
   (fold (\<lambda>u m. Option.bind m (rewrite_reply u)) us (Some (BasicReturnList pid u0 cbor)) =
      Some (BasicReturnList pid (last (u0 # us)) cbor)) \<and>
   (rewrite_reply u msg \<noteq> None \<longleftrightarrow> (\<exists>pid v cbor. msg = BasicReturnMap pid v cbor \<or> msg = BasicReturnList pid v cbor)) \<and>
   length (relay_one_peer ba bound sent sub_bytes peer caller u evs) \<le> Suc (length evs) \<and>
   set (relay_one_peer ba bound sent sub_bytes peer caller u evs) \<subseteq>
     insert (peer, sub_bytes) (Pair caller `
       {enc. \<exists>t buf. (t, Datagram buf) \<in> set evs \<and> t < RELAY_MAX_MS \<and> relay_datagram ba u buf = Some enc})"
proof (intro conjI)
  show "fold (\<lambda>u m. Option.bind m (rewrite_reply u)) us (Some (BasicReturnMap pid u0 cbor)) =
      Some (BasicReturnMap pid (last (u0 # us)) cbor)"
    by (induction us arbitrary: u0) auto
  show "fold (\<lambda>u m. Option.bind m (rewrite_reply u)) us (Some (BasicReturnList pid u0 cbor)) =
      Some (BasicReturnList pid (last (u0 # us)) cbor)"
    by (induction us arbitrary: u0) auto
  show "rewrite_reply u msg \<noteq> None \<longleftrightarrow> (\<exists>pid v cbor. msg = BasicReturnMap pid v cbor \<or> msg = BasicReturnList pid v cbor)"
    by (cases msg) auto
  show "length (relay_one_peer ba bound sent sub_bytes peer caller u evs) \<le> Suc (length evs)"
    by (simp add: relay_one_peer_def relay_loop_length)
  have "set (relay_one_peer ba bound sent sub_bytes peer caller u evs) \<subseteq>
      insert (peer, sub_bytes) (Pair caller ` set (relay_loop ba u evs))"
    by (simp add: relay_one_peer_def)
  also have "\<dots> \<subseteq> insert (peer, sub_bytes) (Pair caller `
      {enc. \<exists>t buf. (t, Datagram buf) \<in> set evs \<and> t < RELAY_MAX_MS \<and> relay_datagram ba u buf = Some enc})"
    by (intro insert_mono image_mono subsetI CollectI) (rule relay_loop_emits)
  finally show "set (relay_one_peer ba bound sent sub_bytes peer caller u evs) \<subseteq> \<dots>" .
qed

section \<open>Concrete instances\<close>

definition demo_serve :: "network_message \<Rightarrow> bytes \<Rightarrow> guest_run \<Rightarrow> serve_env" where
  "demo_serve m b g = \<lparr>sv_crates = \<lparr>ck_crypto = demo_crypto, ck_cbor = demo_codec CNull [], ck_bare = demo_bare m b\<rparr>,
     sv_engine = demo_engine, sv_interfaces = [], sv_port = 9, sv_now = 77, sv_guest = (\<lambda>_. g),
     sv_send_exit_ok = True\<rparr>"

definition demo_guest :: guest_run where
  "demo_guest = \<lparr>gr_calls = [], gr_exit = 1, gr_wait = Inl ()\<rparr>"

definition demo_fabric :: "bytes \<Rightarrow> bytes \<Rightarrow> network_message" where
  "demo_fabric i d = SignedFabricMessage demo_identity i d (sign_payload demo_crypto (replicate 32 7) [3] [0x80])"

lemma demo_serve_simps [simp]:
  "ck_crypto (sv_crates (demo_serve m b g)) = demo_crypto"
  "ba_from_slice (ck_bare (sv_crates (demo_serve m b g))) b = Some m"
  "sv_engine (demo_serve m b g) = demo_engine" "sv_now (demo_serve m b g) = 77"
  "sv_guest (demo_serve m b g) sp = g"
  by (simp_all add: demo_serve_def demo_bare_def)

lemma demo_own_key: "id_public_key demo_identity = cr_verifying_key demo_crypto (replicate 32 7)"
  by (simp add: demo_identity_def demo_crypto_def)

lemma demo_names: "id_human_name demo_identity = ''alice''" "id_public_key demo_identity = replicate 32 7"
  by (simp_all add: demo_identity_def)

lemma demo_payload_ok:
  "verify_payload demo_crypto demo_identity [3] [0x80] (sign_payload demo_crypto (replicate 32 7) [3] [0x80]) = Inr ()"
  using verify_hash_signed [OF demo_crypto_laws] demo_own_key by (simp add: verify_payload_def sign_payload_def)

lemma demo_executor_fields: "ex_messages demo_executor = ms_new 4096" "ex_peers demo_executor = []"
  by (simp_all add: demo_executor_def executor_startup_def executor_new_def add_trusted_key_def Let_def
      split: sum.split)

theorem fabric_message_exact_witness:
  "\<exists>ex' out. handle_datagram (demo_serve (demo_fabric [3] [0x80]) [1] demo_guest) [1] (SockV4 1 2) demo_executor =
     (Listening, ex', out) \<and> map sm_from_name (ms_msgs (ex_messages ex')) = [''alice'']"
proof -
  have "ba_from_slice (ck_bare (sv_crates (demo_serve (demo_fabric [3] [0x80]) [1] demo_guest))) [1] =
      Some (SignedFabricMessage demo_identity [3] [0x80] (sign_payload demo_crypto (replicate 32 7) [3] [0x80]))"
    by (simp add: demo_fabric_def)
  from fabric_message_exact [OF this, of "SockV4 1 2" demo_executor] show ?thesis
    by (simp add: demo_identity_ok demo_payload_ok demo_executor_fields demo_names ms_push_def ms_new_def
        ms_append_def ms_remember_def dedup_key_def Let_def)
qed

theorem store_holds_only_verified_senders_witness:
  "\<exists>ex' out m i. serve_loop [(demo_serve (demo_fabric [3] [0x80]) [1] demo_guest, [1], SockV4 1 2)] demo_executor =
     (Listening, ex', out) \<and> m \<in> set (ms_msgs (ex_messages ex')) \<and>
     check_self_signature demo_crypto i = Inr () \<and> sm_from_name m = id_human_name i"
proof -
  let ?ds = "[(demo_serve (demo_fabric [3] [0x80]) [1] demo_guest, [1], SockV4 1 2)]"
  let ?m = "\<lparr>sm_seq = 1, sm_from_name = ''alice'', sm_from_pubkey = replicate 32 7, sm_text = [0x80], sm_epoch_s = 77\<rparr>"
  obtain ex' out where l: "serve_loop ?ds demo_executor = (Listening, ex', out)"
    and m: "?m \<in> set (ms_msgs (ex_messages ex'))"
    by (simp add: handle_datagram_def demo_fabric_def fabric_message_cases demo_identity_ok demo_payload_ok
        demo_executor_fields demo_names ms_push_def ms_new_def ms_append_def ms_remember_def dedup_key_def Let_def)
  have "?m \<notin> set (ms_msgs (ex_messages demo_executor))" by (simp add: demo_executor_fields ms_new_def)
  from store_holds_only_verified_senders [OF l m this]
  obtain i where "check_self_signature demo_crypto i = Inr ()" "sm_from_name ?m = id_human_name i"
    by (auto simp: demo_serve_def)
  with l m show ?thesis by blast
qed

theorem sent_message_is_delivered_witness:
  "\<exists>ex' out. handle_datagram ((demo_serve demo_sent [5] demo_guest)\<lparr>sv_crates := demo_crates (demo_codec CNull [])\<rparr>)
      [5] (SockV4 1 2) demo_executor = (Listening, ex', out) \<and>
    ex_messages ex' = fst (ms_push ''alice'' (replicate 32 7) (replicate 16 3) [0x80] 77 (ms_new 4096))"
proof -
  let ?c = "demo_crates (demo_codec CNull [])"
  let ?env = "(demo_serve demo_sent [5] demo_guest)\<lparr>sv_crates := ?c\<rparr>"
  have cl: "clamp0 1 = 1" "clamp0 0 = 0" using clamp0_of_nat [of 1] clamp0_of_nat [of 0] by simp_all
  have ck: "ck_crypto ?c = demo_crypto" "ck_bare ?c = demo_bare demo_sent [5]" by (simp_all add: demo_crates_def)
  have st: "rp_identity_data demo_store = Some demo_identity" "rp_signing_key demo_store = Some (replicate 32 7)"
    "rp_fabric_send_tx demo_store = OpenSink" "he_random demo_env 16 = replicate 16 3"
    by (simp_all add: demo_store_def demo_env_def)
  have rd: "read_guest_bytes 0 1 (hs_memory (demo_host [0x80])) = Inr [0x80]"
    by (simp add: demo_host_def read_guest_bytes_def cl)
  have "\<exists>ex' out. handle_datagram ?env [5] (SockV4 1 2) demo_executor = (Listening, ex', out) \<and>
    ex_messages ex' = fst (ms_push (id_human_name demo_identity) (id_public_key demo_identity)
      (he_random demo_env 16) [0x80] (sv_now ?env) (ex_messages demo_executor))"
    by (rule conjunct2 [OF sent_message_is_delivered [where c = ?c and d = demo_store and e = demo_env
          and i = demo_identity and k = "replicate 32 7" and hs = "demo_host [0x80]", OF _ st(1-3) _ _ rd]])
      (simp_all only: ck st demo_crypto_laws demo_own_key demo_identity_ok demo_bare_round_trips,
        simp_all add: list_or_map_def demo_bare_def demo_sent_def)
  then show ?thesis by (simp add: st demo_names demo_executor_fields demo_serve_def)
qed

theorem replay_under_empty_id_witness:
  "\<exists>ex' out. handle_datagram (demo_serve (demo_fabric [] [3, 0x80]) [1] demo_guest) [1] (SockV4 6 6) demo_executor =
     (Listening, ex', out) \<and> ms_next_seq (ex_messages ex') = 2"
proof -
  let ?env = "demo_serve (demo_fabric [] [3, 0x80]) [1] demo_guest"
  have a: "check_self_signature (ck_crypto (sv_crates ?env)) demo_identity = Inr ()"
    by (simp add: demo_identity_ok)
  have b: "verify_payload (ck_crypto (sv_crates ?env)) demo_identity [3] [0x80]
      (sign_payload demo_crypto (replicate 32 7) [3] [0x80]) = Inr ()"
    by (simp add: demo_payload_ok)
  have c: "ba_from_slice (ck_bare (sv_crates ?env)) [1] = Some (SignedFabricMessage demo_identity [] ([3] @ [0x80])
      (sign_payload demo_crypto (replicate 32 7) [3] [0x80]))"
    by (simp add: demo_fabric_def)
  from replay_under_empty_id [OF a b c, of "SockV4 6 6" demo_executor] show ?thesis
    by (auto simp: demo_executor_fields ms_new_def)
qed

definition forged_program :: program_data where
  "forged_program = demo_program\<lparr>pd_source := demo_identity\<lparr>id_human_name := ''mallory''\<rparr>\<rparr>"

lemma forged_program_bad: "check_self_signature demo_crypto (pd_source forged_program) = Inl SignatureMismatch"
  by (simp add: check_self_signature_def verify_hash_def forged_program_def demo_identity_def demo_crypto_def
      identity_hash_input_def as_bytes_def byte_of_char_def)

theorem forged_request_poisons_peers_witness:
  "\<exists>ex' out. handle_datagram (demo_serve (ExecuteRequest forged_program) [1] demo_guest) [1] (SockV4 6 6) demo_executor =
     (Listening, ex', out) \<and> (SockV4 6 6, replicate 32 7) \<in> set (observed_targets ex') \<and>
     (\<exists>info. info \<in> set (dm_values (ex_peers ex')) \<and> pi_last_addr info = SockV4 6 6 \<and> pi_trusted info)"
proof -
  let ?env = "demo_serve (ExecuteRequest forged_program) [1] demo_guest"
  have k: "id_public_key (pd_source forged_program) = replicate 32 7"
    by (simp add: forged_program_def demo_identity_def)
  have bad: "check_self_signature (ck_crypto (sv_crates ?env)) (pd_source forged_program) = Inl SignatureMismatch"
    by (simp add: forged_program_bad)
  have "dm_ok (ex_peers demo_executor)" by (simp add: demo_executor_fields)
  from forged_request_poisons_peers [OF _ bad this, of "[1]" "SockV4 6 6"] show ?thesis
    by (auto simp: k demo_executor_trusts)
qed

theorem program_error_stops_listener_witness:
  "\<exists>ex'. \<forall>ds. fst (serve_loop ((demo_serve (ExecuteRequest demo_program) [1] demo_guest, [1], SockV4 6 6) # ds)
     demo_executor) = Stopped"
proof -
  let ?env = "demo_serve (ExecuteRequest demo_program) [1] demo_guest"
  have s: "pd_source demo_program = demo_identity" "pd_wasm_program_bytes demo_program = [0]"
    by (simp_all add: demo_program_def)
  have "\<exists>ex'. \<forall>ds. serve_loop ((?env, [1], SockV4 6 6) # ds) demo_executor =
    (Stopped, ex', [LogSig ''execute-req'' True (SockV4 6 6) (pd_source demo_program)])"
    by (rule program_error_stops_listener) (simp_all add: s demo_identity_ok demo_engine_def demo_guest_def)
  then show ?thesis by auto
qed

definition demo_node :: executor where
  "demo_node = demo_executor\<lparr>ex_identity_data := Some demo_identity, ex_identity_pubkey := replicate 32 7\<rparr>"

definition demo_forward :: forward_env where
  "demo_forward = \<lparr>fw_crypto = demo_crypto,
     fw_bare = \<lparr>ba_to_vec = (\<lambda>_. Some [1]), ba_from_slice = (\<lambda>_. None)\<rparr>,
     fw_lookup_host = (\<lambda>h port. Some [SockV4 1 port]), fw_from_openssh = (\<lambda>_. None),
     fw_peers = [demo_peer 1, demo_peer 2], fw_port = 9, fw_random_uuid = replicate 16 5\<rparr>"

definition demo_incoming :: program_data where
  "demo_incoming = demo_program\<lparr>pd_depth_budget := 8, pd_visited := [[1]]\<rparr>"

definition demo_sub :: program_data where
  "demo_sub = demo_program\<lparr>pd_depth_budget := 2, pd_visited := [[1], replicate 32 7],
     pd_request_uuid := replicate 16 5\<rparr>"

lemma demo_forwarded: "discovery_forward demo_forward demo_incoming None demo_node = [(demo_sub, [1], SockV4 1 9)]"
proof -
  have t: "forward_targets demo_forward demo_node = [(SockV4 1 9, None)]"
    by (simp add: forward_targets_def demo_forward_def peer_target_def demo_peer_def connect_hosts_def
        option_list_def expected_key_str_def push_target_def observed_targets_def demo_node_def
        demo_executor_fields)
  have n: "ex_identity_data demo_node = Some demo_identity" "ex_identity_pubkey demo_node = replicate 32 7"
    by (simp_all add: demo_node_def)
  have f: "fw_bare demo_forward = \<lparr>ba_to_vec = (\<lambda>_. Some [1]), ba_from_slice = (\<lambda>_. None)\<rparr>"
    "fw_random_uuid demo_forward = replicate 16 5"
    by (simp_all add: demo_forward_def)
  have "child_depth_budget 8 False = 2" by (simp add: child_depth_budget_def depth_defs)
  then show ?thesis
    by (simp add: discovery_forward_def n t f map_filter_Cons map_filter_Nil sub_request_def builder_defs
        builder_build_def demo_incoming_def demo_sub_def demo_program_def)
qed

theorem forwarding_exact_witness:
  "pd_visited demo_sub = pd_visited demo_incoming @ [ex_identity_pubkey demo_node] \<and>
   unat (pd_depth_budget demo_sub) \<le> 7 \<and> ex_identity_data demo_node = Some (pd_source demo_sub)"
proof -
  have "(demo_sub, [1], SockV4 1 9) \<in> set (discovery_forward demo_forward demo_incoming None demo_node)"
    by (simp add: demo_forwarded)
  with forwarding_exact [of demo_forward demo_incoming None demo_node]
  have *: "pd_visited demo_sub = pd_visited demo_incoming @ [ex_identity_pubkey demo_node]"
    "unat (pd_depth_budget demo_sub) \<le> min (unat (pd_depth_budget demo_incoming) - 1) 8"
    "ex_identity_data demo_node = Some (pd_source demo_sub)" by blast+
  then show ?thesis by (simp add: demo_incoming_def)
qed

theorem forward_chain_bounded_witness:
  "forward_chain demo_incoming [demo_sub] \<and> length [demo_sub] \<le> min (unat (pd_depth_budget demo_incoming)) 9 \<and>
   length (pd_visited demo_sub) = length (pd_visited demo_incoming) + 1"
proof -
  have "0 < pd_depth_budget demo_incoming" by (simp add: demo_incoming_def)
  moreover have "(demo_sub, [1], SockV4 1 9) \<in> set (discovery_forward demo_forward demo_incoming None demo_node)"
    by (simp add: demo_forwarded)
  ultimately have "forwards demo_incoming demo_sub" by (rule forwards.intros)
  then have "forward_chain demo_incoming [demo_sub]" by (intro forward_chain.intros)
  from forward_chain_bounded [OF this] this show ?thesis by simp
qed

end
