(* ===== verification/Node_Type.thy ===== *)
theory Node_Type
  imports Serve
begin

text \<open>
  What holds of the state of a serving node at every moment between two datagrams: the maps have one
  entry per key and the key that belongs to the entry, the message store and its window keep their
  bounds, and trust and identity are those the node started with.
\<close>

definition store_ok :: "message_store \<Rightarrow> bool" where
  "store_ok s \<longleftrightarrow> length (ms_msgs s) \<le> ms_cap s \<and> length (ms_seen_order s) \<le> ms_seen_cap s \<and>
     distinct (ms_seen_order s) \<and> ms_seen s = set (ms_seen_order s)"

definition node_ok :: "executor \<Rightarrow> bool" where
  "node_ok ex \<longleftrightarrow>
     dm_ok (ex_running_programs ex) \<and> dm_ok (ex_pid_last_exit_code ex) \<and> dm_ok (ex_trusted_keys ex) \<and>
     dm_ok (ex_peers ex) \<and> list_all (\<lambda>(k, r). run_pid r = k) (ex_running_programs ex) \<and>
     list_all (\<lambda>(k, p). k = to_hex (pi_pubkey p)) (ex_peers ex) \<and> store_ok (ex_messages ex)"

text \<open>What no datagram changes.\<close>

definition node_fixed :: "executor \<Rightarrow> (string, bytes) dashmap \<times> string \<times> bytes option \<times> bytes \<times> identity_data option \<times> nat" where
  "node_fixed ex = (ex_trusted_keys ex, ex_hostname ex, ex_identity_signing_key ex, ex_identity_pubkey ex,
     ex_identity_data ex, ms_cap (ex_messages ex))"

section \<open>The parts\<close>

lemma list_all_update: "list_all P m \<Longrightarrow> P (k, v) \<Longrightarrow> list_all P (dm_insert k v m)"
  unfolding dm_insert_def by (induction m) auto

lemma list_all_delete: "list_all P m \<Longrightarrow> list_all P (dm_remove k m)"
  unfolding dm_remove_def by (induction m) auto

lemma ms_push_ok: "store_ok s \<Longrightarrow> store_ok (fst (ms_push name key i d now s)) \<and> ms_cap (fst (ms_push name key i d now s)) = ms_cap s"
proof -
  assume ok: "store_ok s"
  have new: "k \<notin> ms_seen s \<Longrightarrow> store_ok (ms_remember k s)" for k
    using ok ms_remember_seen [of s k] by (auto simp: store_ok_def seen_q.items_push seen_q.bound_push)
  have app: "store_ok r \<Longrightarrow> store_ok (ms_append m (r\<lparr>ms_next_seq := n\<rparr>))" for m r n
    by (auto simp: store_ok_def msgs_q.items_push)
  show ?thesis using ok new app by (auto simp: ms_push_def Let_def)
qed

lemma ms_run_ok: "store_ok s \<Longrightarrow> store_ok (fst (ms_run qs s)) \<and> ms_cap (fst (ms_run qs s)) = ms_cap s"
proof (induction qs arbitrary: s)
  case (Cons q qs)
  then show ?case
    using ms_push_ok [of s "pr_name q" "pr_pubkey q" "pr_id q" "pr_text q" "pr_epoch q"]
    by (simp add: ms_push_req_def case_prod_unfold Let_def)
qed simp

lemma note_peer_ok: "node_ok ex \<Longrightarrow> node_ok (note_peer now addr source ex) \<and> node_fixed (note_peer now addr source ex) = node_fixed ex"
  by (auto simp: node_ok_def node_fixed_def ex_peers_note_peer dm.ok_ins intro!: list_all_update)
    (simp_all add: note_peer_def Let_def)

lemma begin_exec_ok:
  assumes "node_ok ex" and "begin_exec cr we p opts ex = (ex', r)"
  shows "node_ok ex' \<and> node_fixed ex' = node_fixed ex"
proof (cases "check_self_signature cr (pd_source p)")
  case (Inl e)
  with assms show ?thesis by (simp add: begin_exec_eq)
next
  case (Inr u)
  with assms show ?thesis
    by (auto simp: begin_exec_eq create_pid_eq Let_def node_ok_def node_fixed_def dm.ok_ins
        intro!: list_all_update split: if_splits)
qed

lemma finish_pid_ok: "node_ok ex \<Longrightarrow> node_ok (finish_pid pid code ex) \<and> node_fixed (finish_pid pid code ex) = node_fixed ex"
  by (simp add: node_ok_def node_fixed_def finish_pid_def dm.ok_ins dm.ok_del list_all_delete)

lemma store_update_ok:
  "node_ok ex \<Longrightarrow> store_ok s \<Longrightarrow> ms_cap s = ms_cap (ex_messages ex) \<Longrightarrow>
     node_ok (ex\<lparr>ex_messages := s\<rparr>) \<and> node_fixed (ex\<lparr>ex_messages := s\<rparr>) = node_fixed ex"
  by (simp add: node_ok_def node_fixed_def)

lemma guest_store_ok:
  assumes "node_ok ex"
  shows "store_ok (hs_messages (host_run c d calls (guest_init ex))) \<and>
    ms_cap (hs_messages (host_run c d calls (guest_init ex))) = ms_cap (ex_messages ex)"
proof -
  obtain qs where "hs_messages (host_run c d calls (guest_init ex)) = fst (ms_run qs (hs_messages (guest_init ex)))"
    using host_run_messages by blast
  then show ?thesis using ms_run_ok [of "ex_messages ex" qs] assms by (simp add: guest_init_def node_ok_def)
qed

lemma execute_request_ok:
  assumes "node_ok ex" and "handle_execute_request env addr p ex = (l, ex', out)"
  shows "node_ok ex' \<and> node_fixed ex' = node_fixed ex"
proof -
  let ?cr = "ck_crypto (sv_crates env)" and ?ex1 = "note_peer (sv_now env) addr (pd_source p) ex"
  obtain ex2 r where b: "begin_exec ?cr (sv_engine env) p (exec_options_default\<lparr>eo_node_addr := node_addr_for env addr\<rparr>) ?ex1 = (ex2, r)"
    by (metis surj_pair)
  have 2: "node_ok ex2 \<and> node_fixed ex2 = node_fixed ex"
    using begin_exec_ok [OF _ b] note_peer_ok [OF assms(1)] by simp
  show ?thesis
  proof (cases r)
    case (Inl e)
    with assms(2) b 2 show ?thesis by (simp add: handle_execute_request_def Let_def)
  next
    case (Inr sp)
    let ?gr = "sv_guest env sp"
    let ?hs = "host_run (sv_crates env) (sp_store sp) (gr_calls ?gr) (guest_init ex2)"
    have "ex' = finish_pid (sp_pid sp) (gr_exit ?gr) (ex2\<lparr>ex_messages := hs_messages ?hs\<rparr>)"
      using assms(2) b Inr by (auto simp: handle_execute_request_def Let_def split: sum.splits option.splits if_splits)
    then show ?thesis
      using 2 store_update_ok [of ex2 "hs_messages ?hs"] guest_store_ok [of ex2] finish_pid_ok by simp
  qed
qed

lemma datagram_ok:
  assumes "node_ok ex" and "handle_datagram env buf addr ex = (l, ex', out)"
  shows "node_ok ex' \<and> node_fixed ex' = node_fixed ex"
proof -
  have fabric: "node_ok ex' \<and> node_fixed ex' = node_fixed ex"
    if "handle_fabric_message env addr source i d sig ex = (l, ex', out)" for source i d sig
  proof -
    let ?ex1 = "note_peer (sv_now env) addr source ex"
    have 1: "node_ok ?ex1" "node_fixed ?ex1 = node_fixed ex" using note_peer_ok [OF assms(1)] by auto
    have "store_ok (fst (ms_push (id_human_name source) (id_public_key source) i d (sv_now env) (ex_messages ?ex1))) \<and>
        ms_cap (fst (ms_push (id_human_name source) (id_public_key source) i d (sv_now env) (ex_messages ?ex1))) = ms_cap (ex_messages ?ex1)"
      using ms_push_ok [of "ex_messages ?ex1"] 1(1) by (simp add: node_ok_def)
    from store_update_ok [OF 1(1) conjunct1 [OF this] conjunct2 [OF this]] that assms(1) 1(2)
    show ?thesis
      by (auto simp: handle_fabric_message_def record_fabric_message_def Let_def case_prod_unfold split: sum.splits)
  qed
  show ?thesis
    using assms fabric execute_request_ok [OF assms(1)]
    by (auto simp: handle_datagram_def split: option.splits network_message.splits)
qed

lemma serve_loop_ok:
  "node_ok ex \<Longrightarrow> serve_loop ds ex = (l, ex', out) \<Longrightarrow> node_ok ex' \<and> node_fixed ex' = node_fixed ex"
proof (induction ds arbitrary: ex l ex' out)
  case (Cons x ds)
  obtain env buf addr where x: "x = (env, buf, addr)" by (cases x)
  obtain l1 ex1 out1 where h: "handle_datagram env buf addr ex = (l1, ex1, out1)" by (metis prod_cases3)
  have 1: "node_ok ex1" "node_fixed ex1 = node_fixed ex" using datagram_ok [OF Cons.prems(1) h] by auto
  show ?case
  proof (cases l1)
    case Listening
    obtain l2 ex2 out2 where r: "serve_loop ds ex1 = (l2, ex2, out2)" by (metis prod_cases3)
    with Cons.prems x h Listening have "ex2 = ex'" by auto
    with Cons.IH [OF 1(1) r] 1(2) show ?thesis by simp
  next
    case Stopped
    with Cons.prems x h 1 show ?thesis by simp
  qed
qed simp

lemma startup_ok: "node_ok (executor_startup cr kc keyfile (executor_new cr kc name keyfile host now))"
  by (auto simp: node_ok_def executor_startup_def executor_new_def add_trusted_key_def store_ok_def ms_new_def
      Let_def dm.ok_ins split: sum.splits)

section \<open>Properties\<close>

text \<open>C24: the state of a serving node is well formed whatever it receives. From its start, after any
  datagrams, every map has one entry per key and under the key of that entry, the store holds at
  most 4096 messages and its window is a set without repetition; the node still has the identity it
  started with, and the only key it trusts is its own.\<close>

theorem serving_node_well_formed:
  "case serve_loop ds (executor_startup cr kc keyfile (executor_new cr kc name keyfile host now)) of
     (l, ex, out) \<Rightarrow>
       node_ok ex \<and> ms_cap (ex_messages ex) = 4096 \<and>
       dm_values (ex_trusted_keys ex) = (case read_public_key_ed25519_pem_file kc cr keyfile of Inr k \<Rightarrow> [k] | Inl _ \<Rightarrow> []) \<and>
       ex_identity_data ex = (case generate_from_config cr kc name keyfile now of Inr i \<Rightarrow> Some i | Inl _ \<Rightarrow> None)"
proof -
  let ?ex0 = "executor_startup cr kc keyfile (executor_new cr kc name keyfile host now)"
  obtain l ex out where r: "serve_loop ds ?ex0 = (l, ex, out)" by (metis prod_cases3)
  have ok: "node_ok ex" and same: "node_fixed ex = node_fixed ?ex0"
    using serve_loop_ok [OF startup_ok r] by auto
  have "ex_trusted_keys ex = ex_trusted_keys ?ex0" "ex_identity_data ex = ex_identity_data ?ex0"
    "ms_cap (ex_messages ex) = ms_cap (ex_messages ?ex0)"
    using same by (auto simp: node_fixed_def)
  then show ?thesis using r ok
    by (auto simp: executor_startup_def executor_new_def add_trusted_key_def Let_def dm_insert_def dm_values_def
        ms_new_def split: sum.splits)
qed

end
