(* ===== verification/Stdio.thy ===== *)
theory Stdio
  imports Program Net
begin

text \<open>
  How a program's output gets back to its caller: \<open>WasiStdioSimpleForwarder\<close> of
  \<open>src/executor/wasi_adapters.rs\<close>, an \<open>AsyncWrite\<close> that wraps each write in a datagram. The
  socket's answers to \<open>poll_send_to\<close> are given by a list, \<open>SendPending\<close> when it runs out.
\<close>

section \<open>The forwarder\<close>

record forwarder =
  fo_our_pid :: u64
  fo_reply_to :: "socket_addr option"
  fo_reply_from :: bool
  fo_current_encoded_msg :: "bytes option"
  fo_current_encoded_sent :: nat

definition new_nop :: forwarder where
  "new_nop = \<lparr>fo_our_pid = 0, fo_reply_to = None, fo_reply_from = False,
     fo_current_encoded_msg = None, fo_current_encoded_sent = 0\<rparr>"

definition new_maybe_udp :: "socket_addr option \<Rightarrow> bool \<Rightarrow> forwarder" where
  "new_maybe_udp reply_to reply_from = \<lparr>fo_our_pid = 0, fo_reply_to = reply_to, fo_reply_from = reply_from,
     fo_current_encoded_msg = None, fo_current_encoded_sent = 0\<rparr>"

definition new_udp :: "socket_addr \<Rightarrow> forwarder" where
  "new_udp reply_to = \<lparr>fo_our_pid = 0, fo_reply_to = Some reply_to, fo_reply_from = True,
     fo_current_encoded_msg = None, fo_current_encoded_sent = 0\<rparr>"

definition set_pid :: "u64 \<Rightarrow> forwarder \<Rightarrow> forwarder" where
  "set_pid pid fo = fo\<lparr>fo_our_pid := pid\<rparr>"

datatype send_result = SendOk nat | SendErr | SendPending

datatype write_poll = ReadyOk nat | ReadyErr | Pending

text \<open>The sending loop: \<open>None\<close> when all was sent, otherwise what the write returns. The last two
  components are the bytes sent and the datagrams handed to the socket.\<close>

fun send_loop ::
  "bytes \<Rightarrow> nat \<Rightarrow> send_result list \<Rightarrow> write_poll option \<times> nat \<times> bytes list" where
  "send_loop frame sent [] = (if sent < length frame then (Some Pending, sent, []) else (None, sent, []))"
| "send_loop frame sent (r # rs) =
     (if sent < length frame then
        (case r of
           SendOk n \<Rightarrow> (case send_loop frame (sent + n) rs of (w, s, out) \<Rightarrow> (w, s, drop sent frame # out))
         | SendErr \<Rightarrow> (Some ReadyErr, sent, [])
         | SendPending \<Rightarrow> (Some Pending, sent, []))
      else (None, sent, []))"

definition poll_write ::
  "bare_codec \<Rightarrow> bytes \<Rightarrow> send_result list \<Rightarrow> forwarder \<Rightarrow> forwarder \<times> write_poll \<times> bytes list" where
  "poll_write ba buf results fo =
     (case (fo_reply_to fo, fo_reply_from fo) of
        (Some reply_to, True) \<Rightarrow>
          if fo_current_encoded_msg fo = None then
            (case ba_to_vec ba (BasicInsecureProgramStdout (fo_our_pid fo) buf) of
               None \<Rightarrow> (fo, ReadyOk (length buf), [])
             | Some frame \<Rightarrow>
                 (case send_loop frame 0 results of
                    (Some w, sent, out) \<Rightarrow>
                      (fo\<lparr>fo_current_encoded_msg := Some frame, fo_current_encoded_sent := sent\<rparr>, w, out)
                  | (None, sent, out) \<Rightarrow>
                      (fo\<lparr>fo_current_encoded_msg := None, fo_current_encoded_sent := sent\<rparr>,
                       ReadyOk (length buf), out)))
          else (fo\<lparr>fo_current_encoded_msg := None\<rparr>, ReadyOk (length buf), [])
      | _ \<Rightarrow> (fo, ReadyOk (length buf), []))"

section \<open>Properties\<close>

definition idle_forwarder :: "forwarder \<Rightarrow> bool" where
  "idle_forwarder fo \<longleftrightarrow> fo_reply_to fo \<noteq> None \<and> fo_reply_from fo \<and> fo_current_encoded_msg fo = None"

text \<open>A program's writes one after the other, on a socket that takes each datagram whole.\<close>

fun write_all_frames :: "bare_codec \<Rightarrow> bytes list \<Rightarrow> forwarder \<Rightarrow> forwarder \<times> bytes list" where
  "write_all_frames ba [] fo = (fo, [])"
| "write_all_frames ba (buf # bufs) fo =
     (case poll_write ba buf
        (case ba_to_vec ba (BasicInsecureProgramStdout (fo_our_pid fo) buf) of
           Some frame \<Rightarrow> [SendOk (length frame)] | None \<Rightarrow> []) fo of
        (fo', w, out) \<Rightarrow> (case write_all_frames ba bufs fo' of (fo'', out') \<Rightarrow> (fo'', out @ out')))"

lemma poll_write_ready:
  assumes "idle_forwarder fo" and "ba_to_vec ba (BasicInsecureProgramStdout (fo_our_pid fo) buf) = Some frame"
    and "frame \<noteq> []"
  shows "\<exists>fo'. poll_write ba buf [SendOk (length frame)] fo = (fo', ReadyOk (length buf), [frame]) \<and>
    idle_forwarder fo' \<and> fo_our_pid fo' = fo_our_pid fo"
  using assms by (auto simp: poll_write_def idle_forwarder_def)

text \<open>Output arrives as it was written. On a socket that accepts datagrams, a program's writes are
  sent as one datagram each, in order, every one the encoding of the bytes written under the
  program's pid; decoding the datagrams gives the writes back.\<close>

theorem stdout_forwarded:
  assumes "idle_forwarder fo"
    and "\<And>buf. buf \<in> set bufs \<Longrightarrow>
      \<exists>frame. ba_to_vec ba (BasicInsecureProgramStdout (fo_our_pid fo) buf) = Some frame \<and> frame \<noteq> [] \<and>
        ba_from_slice ba frame = Some (BasicInsecureProgramStdout (fo_our_pid fo) buf)"
  shows "map (ba_from_slice ba) (snd (write_all_frames ba bufs fo)) =
         map (\<lambda>buf. Some (BasicInsecureProgramStdout (fo_our_pid fo) buf)) bufs"
  using assms
proof (induction bufs arbitrary: fo)
  case (Cons buf bufs)
  obtain frame where f: "ba_to_vec ba (BasicInsecureProgramStdout (fo_our_pid fo) buf) = Some frame"
    "frame \<noteq> []" "ba_from_slice ba frame = Some (BasicInsecureProgramStdout (fo_our_pid fo) buf)"
    using Cons.prems(2) by force
  obtain fo' where w: "poll_write ba buf [SendOk (length frame)] fo = (fo', ReadyOk (length buf), [frame])"
    and fo': "idle_forwarder fo'" "fo_our_pid fo' = fo_our_pid fo"
    using poll_write_ready [OF Cons.prems(1) f(1,2)] by blast
  have "map (ba_from_slice ba) (snd (write_all_frames ba bufs fo')) =
      map (\<lambda>buf. Some (BasicInsecureProgramStdout (fo_our_pid fo') buf)) bufs"
    using Cons.prems(2) by (intro Cons.IH fo'(1)) (simp add: fo'(2))
  then show ?case by (simp add: f w fo'(2) case_prod_unfold)
qed simp

definition demo_stdio :: bare_codec where
  "demo_stdio = \<lparr>ba_to_vec = (\<lambda>m. case m of BasicInsecureProgramStdout pid d \<Rightarrow> Some (1 # d) | _ \<Rightarrow> None),
     ba_from_slice = (\<lambda>b. Some (BasicInsecureProgramStdout 4 (tl b)))\<rparr>"

theorem stdout_forwarded_witness:
  "map (ba_from_slice demo_stdio) (snd (write_all_frames demo_stdio [[7], [8, 9]] (set_pid 4 (new_udp (SockV4 1 2))))) =
     [Some (BasicInsecureProgramStdout 4 [7]), Some (BasicInsecureProgramStdout 4 [8, 9])]"
  by (rule trans [OF stdout_forwarded])
    (simp_all add: idle_forwarder_def set_pid_def new_udp_def demo_stdio_def)

text \<open>Output is lost when the socket is not ready. A write that finds the socket busy, or gets an
  error, keeps the frame but not the need to send it: the next call, whatever it is asked to
  write, sends nothing, reports success and forgets both.\<close>

theorem busy_socket_loses_output:
  assumes "idle_forwarder fo"
    and "ba_to_vec ba (BasicInsecureProgramStdout (fo_our_pid fo) buf) = Some frame" and "frame \<noteq> []"
    and "r = SendPending \<or> r = SendErr"
  shows "\<exists>fo1 w fo2. poll_write ba buf (r # rs) fo = (fo1, w, []) \<and> (w = Pending \<or> w = ReadyErr) \<and>
    poll_write ba buf2 rs2 fo1 = (fo2, ReadyOk (length buf2), []) \<and> fo_current_encoded_msg fo2 = None"
proof -
  let ?fo1 = "fo\<lparr>fo_current_encoded_msg := Some frame, fo_current_encoded_sent := 0\<rparr>"
  let ?w = "if r = SendPending then Pending else ReadyErr"
  have "poll_write ba buf (r # rs) fo = (?fo1, ?w, [])"
    using assms by (auto simp: poll_write_def idle_forwarder_def)
  moreover have "poll_write ba buf2 rs2 ?fo1 =
      (?fo1\<lparr>fo_current_encoded_msg := None\<rparr>, ReadyOk (length buf2), [])"
    using assms(1) by (auto simp: poll_write_def idle_forwarder_def)
  ultimately show ?thesis
    by (intro exI [of _ ?fo1] exI [of _ ?w] exI [of _ "?fo1\<lparr>fo_current_encoded_msg := None\<rparr>"]) simp
qed

theorem busy_socket_loses_output_witness:
  "\<exists>fo1 fo2. poll_write demo_stdio [7] [SendPending] (new_udp (SockV4 1 2)) = (fo1, Pending, []) \<and>
     poll_write demo_stdio [7] [SendOk 2] fo1 = (fo2, ReadyOk 1, [])"
proof -
  have e: "ba_to_vec demo_stdio (BasicInsecureProgramStdout (fo_our_pid (new_udp (SockV4 1 2))) [7]) = Some [1, 7]"
    by (simp add: demo_stdio_def)
  have i: "idle_forwarder (new_udp (SockV4 1 2))" by (simp add: idle_forwarder_def new_udp_def)
  obtain fo1 w fo2 where p: "poll_write demo_stdio [7] [SendPending] (new_udp (SockV4 1 2)) = (fo1, w, [])"
    "poll_write demo_stdio [7] [SendOk 2] fo1 = (fo2, ReadyOk (length [7 :: u8]), [])"
    using busy_socket_loses_output [OF i e, of SendPending "[]" "[7]" "[SendOk 2]"] by auto
  moreover have "w = Pending"
    using p(1) by (simp add: poll_write_def new_udp_def demo_stdio_def)
  ultimately show ?thesis by auto
qed

end
