(* ===== verification/Netmap.thy ===== *)
theory Netmap
  imports Discovery Net Program "HOL-Library.Char_ord" "HOL-Library.List_Lexorder"
begin

text \<open>
  The client side of discovery, \<open>src/command/netmap.rs\<close>: which replies are collected, how a
  node's record is decoded and verified, and how the verified nodes become the printed tree. The
  maps are the association lists of \<open>Prelude\<close>; \<open>HashMap\<close> iteration order is one of the
  orders they may have, and both sorts are stable and by hostname, as in the source.
\<close>

section \<open>Records\<close>

definition ATTESTATION :: int where "ATTESTATION = 1"
definition TRUSTS_CALLER :: int where "TRUSTS_CALLER = 2"
definition PARENT_PUBKEY :: int where "PARENT_PUBKEY = 4"
definition NODE_ADDR :: int where "NODE_ADDR = 5"

lemmas record_keys = ATTESTATION_def TRUSTS_CALLER_def PARENT_PUBKEY_def NODE_ADDR_def

definition parse_record :: "cbor_codec \<Rightarrow> bytes \<Rightarrow> (bytes \<times> bytes \<times> bool \<times> string option) option" where
  "parse_record cb bs =
     (case cb_from_slice cb bs of
        Some (CMap m) \<Rightarrow>
     (case cbor_get ATTESTATION m of
        Some (CBytes attestation) \<Rightarrow>
          let parent = (case cbor_get PARENT_PUBKEY m of Some (CBytes b) \<Rightarrow> b | _ \<Rightarrow> []);
              trusts_caller = (cbor_get TRUSTS_CALLER m = Some (CInteger 1));
              node_addr = (case cbor_get NODE_ADDR m of
                  Some (CText s) \<Rightarrow> if s \<noteq> [] then Some s else None
                | Some (CBytes b) \<Rightarrow> if b \<noteq> [] then Some (from_utf8_lossy b) else None
                | _ \<Rightarrow> None)
          in Some (attestation, parent, trusts_caller, node_addr)
      | _ \<Rightarrow> None)
      | _ \<Rightarrow> None)"

record node =
  nd_pubkey :: bytes
  nd_hostname :: string
  nd_parent :: bytes
  nd_trusts_caller :: bool
  nd_node_addr :: "string option"
  nd_responder :: socket_addr
  nd_sig_valid :: bool
  nd_time_ok :: bool

type_synonym nodes = "(bytes, node) dashmap"

text \<open>The first verified record of a key is kept.\<close>

definition add_reply :: "crypto \<Rightarrow> cbor_codec \<Rightarrow> u64 \<Rightarrow> socket_addr \<times> bytes \<Rightarrow> nodes \<Rightarrow> nodes" where
  "add_reply cr cb now reply nodes =
     (case parse_record cb (snd reply) of
        None \<Rightarrow> nodes
      | Some (attestation, parent, trusts_caller, node_addr) \<Rightarrow>
     (case verify_attestation_cbor cr cb attestation of
        Inl e \<Rightarrow> nodes
      | Inr vn \<Rightarrow>
          if dm_contains (vn_pubkey vn) nodes then nodes
          else dm_insert (vn_pubkey vn)
                 \<lparr>nd_pubkey = vn_pubkey vn, nd_hostname = vn_hostname vn, nd_parent = parent,
                  nd_trusts_caller = trusts_caller, nd_node_addr = node_addr, nd_responder = fst reply,
                  nd_sig_valid = True, nd_time_ok = attestation_time_ok (vn_epoch_s vn) now\<rparr> nodes))"

definition collect_nodes :: "crypto \<Rightarrow> cbor_codec \<Rightarrow> u64 \<Rightarrow> (socket_addr \<times> bytes) list \<Rightarrow> nodes" where
  "collect_nodes cr cb now replies = fold (add_reply cr cb now) replies []"

section \<open>The tree\<close>

definition hostname_of :: "nodes \<Rightarrow> bytes \<Rightarrow> string" where
  "hostname_of nodes pk = (case dm_get pk nodes of Some n \<Rightarrow> nd_hostname n | None \<Rightarrow> [])"

definition children_of :: "nodes \<Rightarrow> bytes \<Rightarrow> bytes list" where
  "children_of nodes pk = sort_key (hostname_of nodes) (map fst (filter (\<lambda>(k, n). nd_parent n = pk) nodes))"

definition roots_of :: "bytes \<Rightarrow> nodes \<Rightarrow> bytes list" where
  "roots_of our_pubkey nodes = sort_key (hostname_of nodes)
     (map fst (filter (\<lambda>(k, n). nd_parent n = our_pubkey \<or> \<not> dm_contains (nd_parent n) nodes) nodes))"

record row =
  rw_tree :: string
  rw_trust_mark :: string
  rw_warn :: string

definition row_of :: "string \<Rightarrow> bool \<Rightarrow> bytes \<Rightarrow> node \<Rightarrow> row" where
  "row_of line_prefix is_last pk node =
     (let branch = (if is_last then ''`--'' else ''|--'');
          addr = (case nd_node_addr node of Some a \<Rightarrow> a | None \<Rightarrow> show_socket_addr (nd_responder node))
      in \<lparr>rw_tree = line_prefix @ branch @ '' '' @ nd_hostname node @ '' ('' @ short_id pk @ '') @ '' @ addr,
          rw_trust_mark = (if nd_trusts_caller node then ''<3'' else ''x''),
          rw_warn = (if nd_sig_valid node \<and> nd_time_ok node then '''' else '' (!)'')\<rparr>)"

text \<open>The recursion inserts a new key into \<open>printed\<close> at each level, so a fuel of the number of nodes
  is enough (\<open>collect_rows_spec\<close>). \<open>printed\<close> lists the keys in the order of their rows.\<close>

fun collect_rows ::
  "nat \<Rightarrow> nodes \<Rightarrow> string \<Rightarrow> bool \<Rightarrow> bytes \<Rightarrow> bytes list \<times> row list \<Rightarrow> bytes list \<times> row list" where
  "collect_rows 0 nodes line_prefix is_last pk st = st"
| "collect_rows (Suc fuel) nodes line_prefix is_last pk (printed, rows) =
     (case dm_get pk nodes of
        None \<Rightarrow> (printed, rows)
      | Some node \<Rightarrow>
          if pk \<in> set printed then (printed, rows)
          else let child_prefix = line_prefix @ (if is_last then ''    '' else ''|   '');
                   kids = filter (\<lambda>k. k \<notin> set (printed @ [pk])) (children_of nodes pk);
                   n = length kids
               in fold (\<lambda>(i, child) st. collect_rows fuel nodes child_prefix (i + 1 = n) child st)
                    (enumerate 0 kids) (printed @ [pk], rows @ [row_of line_prefix is_last pk node]))"

definition network_rows :: "bytes \<Rightarrow> nodes \<Rightarrow> bytes list \<times> row list" where
  "network_rows our_pubkey nodes =
     (let roots = roots_of our_pubkey nodes; root_count = length roots in
      fold (\<lambda>(i, pk) st. collect_rows (length nodes) nodes [] (i + 1 = root_count) pk st)
        (enumerate 0 roots) ([], []))"

section \<open>Lines\<close>

text \<open>\<open>chars().count()\<close>: the bytes that are no UTF-8 continuation bytes.\<close>

definition char_count :: "string \<Rightarrow> nat" where
  "char_count s = length (filter (\<lambda>b. \<not> is_cont b) (as_bytes s))"

definition row_lines :: "row list \<Rightarrow> string list" where
  "row_lines rows =
     (let tree_width = fold max (map (\<lambda>r. char_count (rw_tree r)) rows) 0 in
      map (\<lambda>r. rw_tree r @ replicate (tree_width - char_count (rw_tree r)) (CHR '' '') @ ''   ['' @
                 rw_trust_mark r @ '']'' @ rw_warn r) rows)"

text \<open>The identities listed below the tree, ours included, sorted by name, then key.\<close>

definition id_entries :: "string \<Rightarrow> bytes \<Rightarrow> nodes \<Rightarrow> (bytes \<times> string \<times> bool) list" where
  "id_entries you our_pubkey nodes =
     sort_key (\<lambda>(pk, hostname, is_you). hostname) (sort_key (\<lambda>(pk, hostname, is_you). map unat pk)
       ((if our_pubkey = [] then [] else [(our_pubkey, you, True)]) @
        map (\<lambda>(pk, n). (pk, nd_hostname n, False)) nodes))"

definition shared_short_id :: "(bytes \<times> string \<times> bool) list \<Rightarrow> bytes \<Rightarrow> bool" where
  "shared_short_id ids pk \<longleftrightarrow> 1 < length (filter (\<lambda>(k, _, _). short_id k = short_id pk) ids)"

definition id_line :: "(bytes \<times> string \<times> bool) list \<Rightarrow> bytes \<times> string \<times> bool \<Rightarrow> string" where
  "id_line ids e =
     (case e of (pk, hostname, is_you) \<Rightarrow>
        ''  '' @ short_id pk @ ''  '' @ to_hex pk @ ''  '' @ hostname @ (if is_you then '' (you)'' else '''') @
        (if shared_short_id ids pk then ''   (!) SHARED SHORT-ID - verify full key'' else ''''))"

section \<open>Collection\<close>

text \<open>One datagram received while the window is open.\<close>

definition collect_reply ::
  "bare_codec \<Rightarrow> bytes \<Rightarrow> socket_addr \<times> bytes \<Rightarrow> (socket_addr \<times> bytes) list \<Rightarrow> (socket_addr \<times> bytes) list" where
  "collect_reply ba request_uuid d collected =
     (case ba_from_slice ba (snd d) of
        Some (BasicReturnMap from_pid ru cbor_data) \<Rightarrow>
          if ru = request_uuid then collected @ [(fst d, cbor_data)] else collected
      | _ \<Rightarrow> collected)"

text \<open>The receive loop: what \<open>recv_from\<close> under the time limit answers, with the time at which
  the loop starts over.\<close>

datatype received = Received socket_addr bytes | ReceiveError | WindowClosed

fun collect_until ::
  "bare_codec \<Rightarrow> bytes \<Rightarrow> nat \<Rightarrow> (nat \<times> received) list \<Rightarrow> (socket_addr \<times> bytes) list \<Rightarrow> (socket_addr \<times> bytes) list" where
  "collect_until ba request_uuid deadline [] collected = collected"
| "collect_until ba request_uuid deadline ((now, ev) # evs) collected =
     (if deadline \<le> now then collected
      else case ev of
        Received from_addr buf \<Rightarrow>
          collect_until ba request_uuid deadline evs (collect_reply ba request_uuid (from_addr, buf) collected)
      | ReceiveError \<Rightarrow> collected
      | WindowClosed \<Rightarrow> collected)"

section \<open>The printed map\<close>

text \<open>The lines \<open>print_network_map\<close> writes to standard output for the collected replies.\<close>

definition map_header :: "string \<Rightarrow> string list" where
  "map_header you =
     ['''', ''weverywhere network map'', ''  you = '' @ you,
      ''  legend:  <3 = node trusts you    x = node does NOT trust you    (!) = unverified/expired'',
      ''  nodes show as  hostname (short-id) @ addr;  short-id matches the chat name and its full'',
      ''  public key is listed below the tree (a short-id can collide - always verify the full key)'',
      '''']"

definition no_servers :: "string list" where
  "no_servers =
     [''(no servers responded)'',
      ''  - is a daemon running and reachable? try:  weverywhere netmap --local'',
      ''  - are peers configured, and did the discovery program get built?'',
      '''']"

definition print_network_map ::
  "crypto \<Rightarrow> cbor_codec \<Rightarrow> u64 \<Rightarrow> string \<Rightarrow> bytes \<Rightarrow> (socket_addr \<times> bytes) list \<Rightarrow> string list" where
  "print_network_map cr cb now you our_pubkey replies =
     (let nodes = collect_nodes cr cb now replies in
      map_header you @
      (if nodes = [] then no_servers
       else (let ids = id_entries you our_pubkey nodes in
         [if our_pubkey = [] then ''(you) '' @ you else ''(you) '' @ you @ '' ('' @ short_id our_pubkey @ '')''] @
         row_lines (snd (network_rows our_pubkey nodes)) @
         ['''', ''public keys (verify a chat/netmap short-id against the full key here):''] @
         map (id_line ids) ids @ [''''])))"

section \<open>Collected nodes\<close>

lemma dm_okD: "dm_ok nodes \<Longrightarrow> (k, n) \<in> set nodes \<longleftrightarrow> dm_get k nodes = Some n"
  by (auto simp: dm_ok_def dm_get_def map_of_eq_Some_iff)

lemma add_reply_ok: "dm_ok nodes \<Longrightarrow> dm_ok (add_reply cr cb now r nodes)"
  by (auto simp: add_reply_def dm_simps split: option.splits sum.splits)

text \<open>What a collected node says: a reply whose attestation verified under the node's own key.\<close>

definition node_from :: "crypto \<Rightarrow> cbor_codec \<Rightarrow> u64 \<Rightarrow> (socket_addr \<times> bytes) list \<Rightarrow> bytes \<Rightarrow> node \<Rightarrow> bool" where
  "node_from cr cb now replies pk n \<longleftrightarrow>
     (\<exists>r\<in>set replies. \<exists>att tc vn.
        parse_record cb (snd r) = Some (att, nd_parent n, tc, nd_node_addr n) \<and>
        verify_attestation_cbor cr cb att = Inr vn \<and> vn_pubkey vn = pk \<and> nd_pubkey n = pk \<and>
        nd_hostname n = vn_hostname vn \<and> nd_trusts_caller n = tc \<and> nd_responder n = fst r \<and> nd_sig_valid n \<and>
        nd_time_ok n = attestation_time_ok (vn_epoch_s vn) now)"

lemma node_from_mono: "node_from cr cb now rs pk n \<Longrightarrow> set rs \<subseteq> set rs' \<Longrightarrow> node_from cr cb now rs' pk n"
  unfolding node_from_def by blast

lemma add_reply_node:
  assumes "dm_get pk (add_reply cr cb now r nodes) = Some n"
  shows "dm_get pk nodes = Some n \<or> node_from cr cb now [r] pk n"
  using assms unfolding add_reply_def node_from_def
  by (auto simp: dm_simps split: option.splits sum.splits if_splits prod.splits)

lemma collect_nodes_ok: "dm_ok (collect_nodes cr cb now replies)"
proof -
  have "dm_ok nodes \<Longrightarrow> dm_ok (fold (add_reply cr cb now) replies nodes)" for nodes
    by (induction replies arbitrary: nodes) (auto simp: add_reply_ok)
  then show ?thesis by (simp add: collect_nodes_def)
qed

lemma collect_nodes_sound:
  assumes "dm_get pk (collect_nodes cr cb now replies) = Some n"
  shows "node_from cr cb now replies pk n"
proof -
  have "dm_get pk (fold (add_reply cr cb now) replies nodes) = Some n \<Longrightarrow>
    dm_get pk nodes = Some n \<or> node_from cr cb now replies pk n" for nodes
  proof (induction replies arbitrary: nodes)
    case (Cons r rs)
    then have "dm_get pk (add_reply cr cb now r nodes) = Some n \<or> node_from cr cb now rs pk n" by simp
    then show ?case
      using add_reply_node [of pk cr cb now r nodes n] node_from_mono [of cr cb now rs pk n "r # rs"]
        node_from_mono [of cr cb now "[r]" pk n "r # rs"] by auto
  qed simp
  from this [of "[]"] assms show ?thesis by (simp add: collect_nodes_def)
qed

section \<open>The depth-first walk\<close>

text \<open>\<open>child_of nodes x c\<close>: the record of \<open>c\<close> names \<open>x\<close> as its parent.\<close>

definition child_of :: "nodes \<Rightarrow> bytes \<Rightarrow> bytes \<Rightarrow> bool" where
  "child_of nodes x c \<longleftrightarrow> (\<exists>n. dm_get c nodes = Some n \<and> nd_parent n = x)"

lemma set_children_of: "dm_ok nodes \<Longrightarrow> set (children_of nodes x) = {c. child_of nodes x c}"
  by (force simp: children_of_def child_of_def dm_okD)

lemma set_roots_of:
  "dm_ok nodes \<Longrightarrow> set (roots_of our nodes) =
     {r. \<exists>n. dm_get r nodes = Some n \<and> (nd_parent n = our \<or> \<not> dm_contains (nd_parent n) nodes)}"
  by (force simp: roots_of_def dm_okD)

text \<open>\<open>walked nodes S st st'\<close>: going from \<open>st\<close> to \<open>st'\<close>, the walk only appended rows, one for each
  newly printed key; no key was printed twice; every new key descends from \<open>S\<close> and has its children
  printed.\<close>

definition row_for :: "nodes \<Rightarrow> bytes \<Rightarrow> row \<Rightarrow> bool" where
  "row_for nodes k r \<longleftrightarrow> (\<exists>n p l. dm_get k nodes = Some n \<and> r = row_of p l k n)"

definition walked :: "nodes \<Rightarrow> bytes set \<Rightarrow> bytes list \<times> row list \<Rightarrow> bytes list \<times> row list \<Rightarrow> bool" where
  "walked nodes S st st' \<longleftrightarrow>
     (\<exists>new rs. fst st' = fst st @ new \<and> snd st' = snd st @ rs \<and> list_all2 (row_for nodes) new rs \<and>
        distinct new \<and> set new \<inter> set (fst st) = {} \<and>
        (\<forall>x\<in>set new. (\<exists>s\<in>S. (child_of nodes)\<^sup>*\<^sup>* s x) \<and> {c. child_of nodes x c} \<subseteq> set (fst st')))"

lemma walked_refl: "walked nodes S st st"
  unfolding walked_def by simp

lemma walked_grows: "walked nodes S st st' \<Longrightarrow> set (fst st) \<subseteq> set (fst st')"
  unfolding walked_def by auto

lemma walked_trans:
  assumes "walked nodes S st st'" and "walked nodes T st' st''"
  shows "walked nodes (S \<union> T) st st''"
proof -
  obtain n1 r1 where 1: "fst st' = fst st @ n1" "snd st' = snd st @ r1" "list_all2 (row_for nodes) n1 r1"
      "distinct n1" "set n1 \<inter> set (fst st) = {}"
      "\<forall>x\<in>set n1. (\<exists>s\<in>S. (child_of nodes)\<^sup>*\<^sup>* s x) \<and> {c. child_of nodes x c} \<subseteq> set (fst st')"
    using assms(1) unfolding walked_def by blast
  obtain n2 r2 where 2: "fst st'' = fst st' @ n2" "snd st'' = snd st' @ r2" "list_all2 (row_for nodes) n2 r2"
      "distinct n2" "set n2 \<inter> set (fst st') = {}"
      "\<forall>x\<in>set n2. (\<exists>s\<in>T. (child_of nodes)\<^sup>*\<^sup>* s x) \<and> {c. child_of nodes x c} \<subseteq> set (fst st'')"
    using assms(2) unfolding walked_def by blast
  have "\<forall>x\<in>set (n1 @ n2). (\<exists>s\<in>S \<union> T. (child_of nodes)\<^sup>*\<^sup>* s x) \<and> {c. child_of nodes x c} \<subseteq> set (fst st'')"
    using 1 2 by auto
  moreover have "list_all2 (row_for nodes) (n1 @ n2) (r1 @ r2)" using 1 2 by (simp add: list_all2_appendI)
  moreover have "distinct (n1 @ n2)" "set (n1 @ n2) \<inter> set (fst st) = {}" using 1 2 by auto
  ultimately show ?thesis
    unfolding walked_def using 1(1,2) 2(1,2) by (intro exI [of _ "n1 @ n2"] exI [of _ "r1 @ r2"]) simp
qed

text \<open>The loop over the children, given what the recursive call does.\<close>

definition left_over :: "nodes \<Rightarrow> bytes list \<times> row list \<Rightarrow> nat" where
  "left_over nodes st = card (set (map fst nodes) - set (fst st))"

lemma left_over_mono: "set (fst st) \<subseteq> set (fst st') \<Longrightarrow> left_over nodes st' \<le> left_over nodes st"
  unfolding left_over_def by (rule card_mono) auto

lemma walk_loop:
  assumes "\<And>i k st. k \<in> set ks \<Longrightarrow> left_over nodes st \<le> fuel \<Longrightarrow>
      walked nodes {k} st (f i k st) \<and> k \<in> set (fst (f i k st))"
    and "left_over nodes st \<le> fuel"
  shows "walked nodes (set ks) st (fold (\<lambda>(i, k) st. f i k st) (enumerate i0 ks) st) \<and>
    set ks \<subseteq> set (fst (fold (\<lambda>(i, k) st. f i k st) (enumerate i0 ks) st))"
  using assms
proof (induction ks arbitrary: st i0)
  case (Cons k ks)
  let ?st = "f i0 k st"
  have step: "walked nodes {k} st ?st" "k \<in> set (fst ?st)" using Cons.prems by auto
  have "left_over nodes ?st \<le> fuel"
    using left_over_mono [OF walked_grows [OF step(1)], of nodes] Cons.prems(2) by simp
  then have rest: "walked nodes (set ks) ?st (fold (\<lambda>(i, k) st. f i k st) (enumerate (Suc i0) ks) ?st)"
      "set ks \<subseteq> set (fst (fold (\<lambda>(i, k) st. f i k st) (enumerate (Suc i0) ks) ?st))"
    using Cons.IH [of ?st "Suc i0"] Cons.prems(1) by auto
  then show ?case using walked_trans [OF step(1) rest(1)] walked_grows [OF rest(1)] step(2) by auto
qed (simp add: walked_refl)

lemma walked_visit:
  assumes "dm_get pk nodes = Some n" and "pk \<notin> set pr"
    and loop: "walked nodes (set kids) (pr @ [pk], rs @ [row_of p l pk n]) st'" "set kids \<subseteq> set (fst st')"
    and kids: "set kids = {c. child_of nodes pk c} - set (pr @ [pk])"
  shows "walked nodes {pk} (pr, rs) st' \<and> pk \<in> set (fst st')"
proof -
  obtain new rs' where 1: "fst st' = pr @ [pk] @ new" "snd st' = rs @ [row_of p l pk n] @ rs'"
      "list_all2 (row_for nodes) new rs'" "distinct new" "set new \<inter> set (pr @ [pk]) = {}"
      "\<forall>x\<in>set new. (\<exists>s\<in>set kids. (child_of nodes)\<^sup>*\<^sup>* s x) \<and> {c. child_of nodes x c} \<subseteq> set (fst st')"
    using loop(1) unfolding walked_def by auto
  have "(child_of nodes)\<^sup>*\<^sup>* pk x" if "x \<in> set new" for x
    using 1(6) that kids by (blast intro: converse_rtranclp_into_rtranclp)
  moreover have "{c. child_of nodes pk c} \<subseteq> set (fst st')"
    using kids loop(2) 1(1) by auto
  moreover have "row_for nodes pk (row_of p l pk n)" using assms(1) unfolding row_for_def by blast
  ultimately have "walked nodes {pk} (pr, rs) st'"
    unfolding walked_def using 1 assms(2)
    by (intro exI [of _ "pk # new"] exI [of _ "row_of p l pk n # rs'"]) auto
  then show ?thesis using 1(1) by simp
qed

lemma left_over_visit:
  assumes "dm_contains pk nodes" and "pk \<notin> set (fst st)" and "left_over nodes st \<le> Suc fuel"
  shows "left_over nodes (fst st @ [pk], rs) \<le> fuel"
proof -
  have "pk \<in> set (map fst nodes) - set (fst st)"
    using assms(1,2) by (auto simp: dm_contains_def dm_get_def dest: map_of_SomeD intro: rev_image_eqI)
  then have "card (set (map fst nodes) - set (fst st) - {pk}) < card (set (map fst nodes) - set (fst st))"
    by (intro psubset_card_mono) auto
  moreover have "set (map fst nodes) - set (fst st @ [pk]) = set (map fst nodes) - set (fst st) - {pk}" by auto
  ultimately show ?thesis using assms(3) unfolding left_over_def by simp
qed

lemma collect_rows_spec:
  assumes "dm_ok nodes"
  shows "left_over nodes st \<le> fuel \<Longrightarrow> dm_contains pk nodes \<Longrightarrow>
    walked nodes {pk} st (collect_rows fuel nodes p l pk st) \<and>
    pk \<in> set (fst (collect_rows fuel nodes p l pk st))"
proof (induction fuel arbitrary: p l pk st)
  case 0
  then have "set (map fst nodes) \<subseteq> set (fst st)" by (simp add: left_over_def)
  moreover have "pk \<in> set (map fst nodes)"
    using 0 by (auto simp: dm_contains_def dm_get_def dest: map_of_SomeD intro: rev_image_eqI)
  ultimately show ?case by (auto simp: walked_refl)
next
  case (Suc fuel)
  obtain n where n: "dm_get pk nodes = Some n" using Suc.prems by (auto simp: dm_contains_def)
  obtain pr rs where st: "st = (pr, rs)" by fastforce
  show ?case
  proof (cases "pk \<in> set pr")
    case True
    then show ?thesis using n by (simp add: st walked_refl)
  next
    case False
    let ?kids = "filter (\<lambda>k. k \<notin> set (pr @ [pk])) (children_of nodes pk)"
    let ?f = "\<lambda>i k st. collect_rows fuel nodes (p @ (if l then ''    '' else ''|   '')) (i + 1 = length ?kids) k st"
    let ?st = "(pr @ [pk], rs @ [row_of p l pk n])"
    have eq: "collect_rows (Suc fuel) nodes p l pk st = fold (\<lambda>(i, k) st. ?f i k st) (enumerate 0 ?kids) ?st"
      using n False by (simp add: st Let_def)
    have kids: "set ?kids = {c. child_of nodes pk c} - set (pr @ [pk])"
      using set_children_of [OF assms] by auto
    have "left_over nodes ?st \<le> fuel" using left_over_visit [of pk nodes st fuel] Suc.prems False st by simp
    moreover have "walked nodes {k} st (?f i k st) \<and> k \<in> set (fst (?f i k st))"
      if "k \<in> set ?kids" "left_over nodes st \<le> fuel" for i k st
    proof -
      have "k \<in> {c. child_of nodes pk c}" using that(1) kids by blast
      then have "dm_contains k nodes" by (auto simp: child_of_def dm_contains_def)
      from Suc.IH [OF that(2) this] show ?thesis .
    qed
    ultimately have "walked nodes (set ?kids) ?st (collect_rows (Suc fuel) nodes p l pk st)"
      "set ?kids \<subseteq> set (fst (collect_rows (Suc fuel) nodes p l pk st))"
      using walk_loop [of ?kids nodes fuel ?f ?st 0] unfolding eq by blast+
    from walked_visit [OF n False this kids] show ?thesis by (simp add: st)
  qed
qed

lemma network_rows_spec:
  assumes "dm_ok nodes"
  shows "walked nodes (set (roots_of our nodes)) ([], []) (network_rows our nodes) \<and>
    set (roots_of our nodes) \<subseteq> set (fst (network_rows our nodes))"
proof -
  have "left_over nodes ([], []) \<le> length nodes"
    unfolding left_over_def using card_length [of "map fst nodes"] by simp
  moreover have "r \<in> set (roots_of our nodes) \<Longrightarrow> dm_contains r nodes" for r
    using set_roots_of [OF assms] by (auto simp: dm_contains_def)
  ultimately show ?thesis
    unfolding network_rows_def Let_def
    using collect_rows_spec [OF assms]
    by (intro walk_loop [where fuel = "length nodes"]) auto
qed

section \<open>What the map shows\<close>

text \<open>A node is linked if its chain of named parents leads to a node whose parent is us or unknown.\<close>

inductive linked :: "bytes \<Rightarrow> nodes \<Rightarrow> bytes \<Rightarrow> bool" for our nodes where
  root: "dm_get pk nodes = Some n \<Longrightarrow> nd_parent n = our \<or> \<not> dm_contains (nd_parent n) nodes \<Longrightarrow> linked our nodes pk"
| child: "dm_get pk nodes = Some n \<Longrightarrow> linked our nodes (nd_parent n) \<Longrightarrow> linked our nodes pk"

lemma linked_descendant:
  assumes "(child_of nodes)\<^sup>*\<^sup>* r x" and "linked our nodes r"
  shows "linked our nodes x"
  using assms by (induction rule: rtranclp_induct) (auto simp: child_of_def intro: linked.child)

lemma printed_iff_linked:
  assumes "dm_ok nodes"
  shows "pk \<in> set (fst (network_rows our nodes)) \<longleftrightarrow> linked our nodes pk"
proof
  note spec = network_rows_spec [OF assms, of our]
  show "linked our nodes pk" if "pk \<in> set (fst (network_rows our nodes))"
  proof -
    have "\<exists>r\<in>set (roots_of our nodes). (child_of nodes)\<^sup>*\<^sup>* r pk"
      using spec that unfolding walked_def by auto
    then obtain r where "r \<in> set (roots_of our nodes)" "(child_of nodes)\<^sup>*\<^sup>* r pk" by blast
    moreover from this have "linked our nodes r"
      using set_roots_of [OF assms] by (auto intro: linked.root)
    ultimately show ?thesis using linked_descendant by blast
  qed
  show "pk \<in> set (fst (network_rows our nodes))" if "linked our nodes pk"
    using that
  proof induction
    case (root pk n)
    then show ?case using spec set_roots_of [OF assms] by blast
  next
    case (child pk n)
    then have "child_of nodes (nd_parent n) pk" by (auto simp: child_of_def)
    then show ?case using spec child.IH unfolding walked_def by auto
  qed
qed

text \<open>C34: every row of the printed tree is vouched for. No key is printed twice, there is one row per
  printed key, and the row of a key shows the hostname of an attestation that arrived in one of the
  replies and verified under that very key (with its time checked against the window), together with
  that reply's parent, trust mark and address.\<close>

theorem rows_are_attested:
  "distinct (fst (network_rows our (collect_nodes cr cb now replies))) \<and>
   list_all2 (\<lambda>pk r. \<exists>n p l. node_from cr cb now replies pk n \<and> r = row_of p l pk n)
     (fst (network_rows our (collect_nodes cr cb now replies)))
     (snd (network_rows our (collect_nodes cr cb now replies)))"
proof -
  have w: "walked (collect_nodes cr cb now replies) (set (roots_of our (collect_nodes cr cb now replies))) ([], [])
     (network_rows our (collect_nodes cr cb now replies))"
    using network_rows_spec [OF collect_nodes_ok] by blast
  have "row_for (collect_nodes cr cb now replies) pk r \<Longrightarrow>
      \<exists>n p l. node_from cr cb now replies pk n \<and> r = row_of p l pk n" for pk r
    unfolding row_for_def using collect_nodes_sound by blast
  then show ?thesis using w unfolding walked_def by (auto elim!: list_all2_mono)
qed

text \<open>C33: the recursion, cut off only by its check for keys already printed, prints exactly the linked
  nodes: every verified node whose parent chain reaches us or an unknown node, and no other, whatever
  parents the (unsigned) records claim and in whatever order the map iterates.\<close>

theorem tree_prints_linked_nodes:
  "set (fst (network_rows our (collect_nodes cr cb now replies))) =
     {pk. linked our (collect_nodes cr cb now replies) pk}"
  using printed_iff_linked [OF collect_nodes_ok] by blast

text \<open>Nodes that name each other as parents disappear. If every node of a set has a parent in the
  set and the set does not contain our key, then none of them is in the tree, although each has been
  verified.\<close>

theorem parent_cycle_is_hidden:
  assumes "dm_ok nodes" and "our \<notin> S"
    and "\<And>k. k \<in> S \<Longrightarrow> \<exists>n. dm_get k nodes = Some n \<and> nd_parent n \<in> S"
  shows "set (fst (network_rows our nodes)) \<inter> S = {}"
proof -
  have "linked our nodes k \<Longrightarrow> k \<notin> S" for k
  proof (induction rule: linked.induct)
    case (root pk n)
    then show ?case using assms(2) assms(3) [of pk] assms(3) [of "nd_parent n"]
      by (auto simp: dm_contains_def)
  next
    case (child pk n)
    then show ?case using assms(3) [of pk] by auto
  qed
  then show ?thesis using printed_iff_linked [OF assms(1)] by blast
qed

definition demo_node :: "bytes \<Rightarrow> string \<Rightarrow> bytes \<Rightarrow> node" where
  "demo_node pk hostname parent =
     \<lparr>nd_pubkey = pk, nd_hostname = hostname, nd_parent = parent, nd_trusts_caller = True, nd_node_addr = None,
      nd_responder = SockV4 0 2240, nd_sig_valid = True, nd_time_ok = True\<rparr>"

theorem parent_cycle_is_hidden_witness:
  "\<exists>nodes. dm_contains [1] nodes \<and> dm_contains [2] nodes \<and> set (fst (network_rows [9] nodes)) \<inter> {[1], [2]} = {}"
proof -
  let ?nodes = "[([1], demo_node [1] ''a'' [2]), ([2], demo_node [2] ''b'' [1])] :: nodes"
  have "dm_ok ?nodes" by (simp add: dm_ok_def)
  moreover have "k \<in> {[1], [2]} \<Longrightarrow> \<exists>n. dm_get k ?nodes = Some n \<and> nd_parent n \<in> {[1], [2]}" for k
    by (auto simp: dm_get_def demo_node_def)
  ultimately have "set (fst (network_rows [9] ?nodes)) \<inter> {[1], [2]} = {}"
    by (intro parent_cycle_is_hidden) auto
  moreover have "dm_contains [1] ?nodes" "dm_contains [2] ?nodes" by (simp_all add: dm_contains_def dm_get_def)
  ultimately show ?thesis by blast
qed

section \<open>The key list\<close>

lemma length_filter_sort_key: "length (filter P (sort_key f xs)) = length (filter P xs)"
  by (simp add: filter_sort)

definition short_id_count :: "bytes \<Rightarrow> nodes \<Rightarrow> bytes \<Rightarrow> nat" where
  "short_id_count our nodes pk =
     (if our \<noteq> [] \<and> short_id our = short_id pk then 1 else 0) +
     length (filter (\<lambda>k. short_id k = short_id pk) (map fst nodes))"

lemma shared_short_id_count: "shared_short_id (id_entries you our nodes) pk \<longleftrightarrow> 1 < short_id_count our nodes pk"
  by (auto simp: shared_short_id_def id_entries_def short_id_count_def length_filter_sort_key
        filter_map comp_def case_prod_unfold)

lemma set_id_entries:
  "(pk, h, y) \<in> set (id_entries you our nodes) \<Longrightarrow> pk = our \<and> our \<noteq> [] \<or> pk \<in> set (map fst nodes)"
  by (force simp: id_entries_def split: if_splits)

lemma two_in_distinct:
  assumes "distinct xs"
  shows "1 < length (filter P xs) \<longleftrightarrow> (\<exists>a\<in>set xs. \<exists>b\<in>set xs. a \<noteq> b \<and> P a \<and> P b)"
proof -
  have "length (filter P xs) = card {x \<in> set xs. P x}"
    using distinct_card [of "filter P xs"] assms by simp
  moreover have "\<not> card {x \<in> set xs. P x} \<le> Suc 0 \<longleftrightarrow> (\<exists>a\<in>set xs. \<exists>b\<in>set xs. a \<noteq> b \<and> P a \<and> P b)"
    by (subst card_le_Suc0_iff_eq) auto
  ultimately show ?thesis by linarith
qed

lemma dm_contains_key: "dm_contains k nodes \<longleftrightarrow> k \<in> set (map fst nodes)"
  by (auto simp: dm_contains_def dm_get_def map_of_eq_None_iff)

text \<open>The collision mark of the key list. A line is marked exactly when another listed key has the
  same short id, or when it is our own key and a node answered under that key: then the key is listed
  twice, and marked as shared with itself.\<close>

theorem short_id_mark_exact:
  assumes "dm_ok nodes" and "(pk, hostname, is_you) \<in> set (id_entries you our nodes)"
  shows "shared_short_id (id_entries you our nodes) pk \<longleftrightarrow>
    (\<exists>k. (k = our \<and> our \<noteq> [] \<or> dm_contains k nodes) \<and> k \<noteq> pk \<and> short_id k = short_id pk) \<or>
    (pk = our \<and> our \<noteq> [] \<and> dm_contains our nodes)"
proof -
  let ?P = "\<lambda>k. short_id k = short_id pk" and ?K = "map fst nodes"
  have pk: "pk = our \<and> our \<noteq> [] \<or> pk \<in> set ?K" using set_id_entries [OF assms(2)] .
  show ?thesis
  proof (cases "our \<noteq> [] \<and> ?P our")
    case True
    then have "shared_short_id (id_entries you our nodes) pk \<longleftrightarrow> (\<exists>k\<in>set ?K. ?P k)"
      by (auto simp: shared_short_id_count short_id_count_def filter_empty_conv)
    then show ?thesis using True pk unfolding dm_contains_key by metis
  next
    case False
    then have "shared_short_id (id_entries you our nodes) pk \<longleftrightarrow> 1 < length (filter ?P ?K)"
      by (auto simp: shared_short_id_count short_id_count_def)
    also have "\<dots> \<longleftrightarrow> (\<exists>a\<in>set ?K. \<exists>b\<in>set ?K. a \<noteq> b \<and> ?P a \<and> ?P b)"
      using assms(1) by (intro two_in_distinct) (simp add: dm_ok_def)
    finally show ?thesis using False pk unfolding dm_contains_key by metis
  qed
qed

theorem short_id_mark_exact_witness:
  "\<exists>nodes. fst (hd nodes) = [1] \<and> shared_short_id (id_entries ''me'' [1] nodes) [1]"
proof -
  let ?nodes = "[([1], demo_node [1] ''me'' [1])] :: nodes"
  have "dm_ok ?nodes" by (simp add: dm_ok_def)
  moreover have "([1], ''me'', True) \<in> set (id_entries ''me'' [1] ?nodes)" by (simp add: id_entries_def)
  ultimately have "shared_short_id (id_entries ''me'' [1] ?nodes) [1]"
    using short_id_mark_exact [of ?nodes "[1]" "''me''" True "''me''" "[1]"]
    by (simp add: dm_contains_def dm_get_def)
  then show ?thesis by (intro exI [of _ ?nodes]) simp
qed

end
