(* ===== verification/Client.thy ===== *)
theory Client
  imports Serve
begin

text \<open>
  The sending side of the commands: \<open>src/command/run.rs\<close> (requests to the local daemon, to peers and
  to the multicast groups, the windows in which replies are awaited, and the broadcast used by
  programs), the queues that \<open>run_local.rs\<close> and \<open>chat.rs\<close> drain, and the requests of
  \<open>netmap.rs\<close>. Sockets are the environment's: whether one can be set up is asked of
  \<open>client_env\<close>, what is sent is a list of \<open>transmit\<close>.
\<close>

section \<open>Waiting for replies\<close>

text \<open>One wait of 100 ms on the socket: a datagram, an error of the socket, or nothing.\<close>

datatype poll = Got bytes | PollError | PollTimeout

datatype client_line =
    StdoutText u64 string
  | StdoutBinary u64 bytes
  | ExitLine u64 u32
  | Unexpected network_message
  | ParseFailed
  | SocketFailed

fun reply_line :: "network_message \<Rightarrow> client_line" where
  "reply_line (BasicInsecureProgramStdout from_pid stdout_data) =
     (case from_utf8 stdout_data of
        Some stdout_string \<Rightarrow> StdoutText from_pid stdout_string
      | None \<Rightarrow> StdoutBinary from_pid stdout_data)"
| "reply_line (BasicInsecureProgramExit from_pid exit_code) = ExitLine from_pid exit_code"
| "reply_line unused = Unexpected unused"

text \<open>\<open>recv\<close> fills the buffer: what does not fit is lost. The number of checks left after a poll,
  and the line printed.\<close>

definition on_poll :: "bare_codec \<Rightarrow> nat \<Rightarrow> poll \<Rightarrow> nat \<Rightarrow> nat \<times> client_line list" where
  "on_poll ba buf_len ev remaining_100ms_checks =
     (case ev of
        Got datagram \<Rightarrow>
          (case ba_from_slice ba (take buf_len datagram) of
             Some network_message \<Rightarrow> (remaining_100ms_checks + 10, [reply_line network_message])
           | None \<Rightarrow> (remaining_100ms_checks, [ParseFailed]))
      | PollError \<Rightarrow> (remaining_100ms_checks, [SocketFailed])
      | PollTimeout \<Rightarrow> (remaining_100ms_checks, []))"

text \<open>The loop may run for ever: \<open>evs i\<close> is what the \<open>i\<close>-th poll yields, the result the number of
  polls made and the lines printed.\<close>

partial_function (option) poll_replies ::
  "bare_codec \<Rightarrow> nat \<Rightarrow> (nat \<Rightarrow> poll) \<Rightarrow> nat \<Rightarrow> nat \<Rightarrow> client_line list \<Rightarrow> (nat \<times> client_line list) option" where
  "poll_replies ba buf_len evs i remaining printed =
     (if remaining = 0 then Some (i, printed)
      else poll_replies ba buf_len evs (Suc i) (fst (on_poll ba buf_len (evs i) (remaining - 1)))
             (printed @ snd (on_poll ba buf_len (evs i) (remaining - 1))))"

definition read_daemon_replies :: "bare_codec \<Rightarrow> (nat \<Rightarrow> poll) \<Rightarrow> (nat \<times> client_line list) option" where
  "read_daemon_replies ba evs = poll_replies ba 16384 evs 0 24 []"

text \<open>After a request to a multicast group, \<open>run\<close> waits in the same way with a larger buffer.\<close>

definition await_group_replies :: "bare_codec \<Rightarrow> (nat \<Rightarrow> poll) \<Rightarrow> (nat \<times> client_line list) option" where
  "await_group_replies ba evs = poll_replies ba 65536 evs 0 24 []"

section \<open>Sending\<close>

record client_env =
  cl_crypto :: crypto
  cl_bare :: bare_codec
  cl_from_openssh :: "string \<Rightarrow> ssh_key_data option"
  cl_lookup_host :: "string \<Rightarrow> u16 \<Rightarrow> socket_addr list option"
  cl_interfaces :: "interface list"
  cl_sender_ok :: "ip_addr \<Rightarrow> u32 \<Rightarrow> bool"
  cl_bind_ok :: "bool \<Rightarrow> bool"

text \<open>The interface a datagram leaves by: pinned by one of its IPv4 addresses, by its index, or left
  to the routing table.\<close>

datatype egress = ViaV4 u32 | ViaV6 u32 | Routed

type_synonym transmit = "egress \<times> socket_addr \<times> bytes"

fun v4_of :: "ip_addr \<Rightarrow> u32 option" where
  "v4_of (V4 a) = Some a"
| "v4_of (V6 _) = None"

fun find_map :: "('a \<Rightarrow> 'b option) \<Rightarrow> 'a list \<Rightarrow> 'b option" where
  "find_map f [] = None"
| "find_map f (x # xs) = (case f x of Some y \<Rightarrow> Some y | None \<Rightarrow> find_map f xs)"

fun multicast_sender :: "client_env \<Rightarrow> ip_addr \<Rightarrow> interface \<Rightarrow> egress option" where
  "multicast_sender env (V4 g) (idx, name, addrs) =
     (case find_map v4_of addrs of
        Some iface_v4 \<Rightarrow> if cl_sender_ok env (V4 g) idx then Some (ViaV4 iface_v4) else None
      | None \<Rightarrow> None)"
| "multicast_sender env (V6 g) (idx, name, addrs) =
     (if \<not> list_ex (\<lambda>a. \<not> is_ipv4 a) addrs then None
      else if cl_sender_ok env (V6 g) idx then Some (ViaV6 idx) else None)"

definition multicast_sends :: "client_env \<Rightarrow> bytes \<Rightarrow> ip_addr list \<Rightarrow> u16 \<Rightarrow> transmit list" where
  "multicast_sends env msg multicast_groups port =
     concat (map (\<lambda>group. List.map_filter (\<lambda>iface.
         map_option (\<lambda>via. (via, sock_of group port, msg)) (multicast_sender env group iface)) (cl_interfaces env))
       multicast_groups)"

definition peer_sends :: "client_env \<Rightarrow> bytes \<Rightarrow> u16 \<Rightarrow> peer_metadata list \<Rightarrow> transmit list" where
  "peer_sends env msg port peers =
     List.map_filter (\<lambda>peer.
       case resolve_peer_addr (cl_lookup_host env) (connect_hosts peer) port of
         Some addr \<Rightarrow> if cl_bind_ok env (is_ipv4 (sock_ip addr)) then Some (Routed, addr, msg) else None
       | None \<Rightarrow> None) peers"

definition broadcast_bytes_to_fabric ::
  "client_env \<Rightarrow> bytes \<Rightarrow> ip_addr list \<Rightarrow> u16 \<Rightarrow> peer_metadata list \<Rightarrow> transmit list" where
  "broadcast_bytes_to_fabric env msg multicast_groups port peers =
     multicast_sends env msg multicast_groups port @ peer_sends env msg port peers"

text \<open>\<open>None\<close>: the request cannot be built or encoded, and the call fails.\<close>

definition program_request ::
  "bytes \<Rightarrow> identity_data \<Rightarrow> string \<Rightarrow> string list \<Rightarrow> (string \<times> string) list \<Rightarrow> program_data option" where
  "program_request wasm_bytes source human_name arg_list arg_map =
     builder_build (set_args arg_list arg_map (set_source source
       (set_wasm_program_bytes wasm_bytes (set_human_name human_name builder_new))))"

definition broadcast_program_to_fabric ::
  "client_env \<Rightarrow> bytes \<Rightarrow> identity_data \<Rightarrow> string \<Rightarrow> string list \<Rightarrow> (string \<times> string) list \<Rightarrow>
   ip_addr list \<Rightarrow> u16 \<Rightarrow> peer_metadata list \<Rightarrow> transmit list option" where
  "broadcast_program_to_fabric env wasm_bytes source human_name arg_list arg_map multicast_groups port peers =
     Option.bind (program_request wasm_bytes source human_name arg_list arg_map) (\<lambda>pd.
     map_option (\<lambda>msg. broadcast_bytes_to_fabric env msg multicast_groups port peers)
       (ba_to_vec (cl_bare env) (ExecuteRequest pd)))"

section \<open>run\<close>

text \<open>Where \<open>run\<close> sends its request: the local daemon, or with \<open>--fabric\<close> every peer that resolves and,
  for each interface with an address, every group (a joined socket of any interface: the datagram
  is routed). A task that fails is logged, the others go on.\<close>

definition run_sends ::
  "client_env \<Rightarrow> bytes \<Rightarrow> bool \<Rightarrow> ip_addr list \<Rightarrow> u16 \<Rightarrow> peer_metadata list \<Rightarrow> transmit list" where
  "run_sends env msg fabric multicast_groups port peers =
     (if \<not> fabric then [(Routed, SockV4 0x7F000001 port, msg)]
      else peer_sends env msg port peers @
        concat (map (\<lambda>(idx, name, addrs).
            if addrs = [] then []
            else List.map_filter (\<lambda>group.
              if cl_sender_ok env group idx then Some (Routed, sock_of group port, msg) else None) multicast_groups)
          (cl_interfaces env)))"

section \<open>run-local and chat\<close>

text \<open>Draining the replicate requests of a finished program; a broadcast that fails is logged.\<close>

definition drain_replicates ::
  "client_env \<Rightarrow> bytes \<Rightarrow> identity_data \<Rightarrow> string \<Rightarrow> ip_addr list \<Rightarrow> u16 \<Rightarrow> peer_metadata list \<Rightarrow>
   replicate_request list \<Rightarrow> transmit list" where
  "drain_replicates env wasm_bytes source human_name groups port peers reqs =
     concat (map (\<lambda>req.
       case broadcast_program_to_fabric env wasm_bytes source human_name (rr_arg_list req) (rr_arg_map req)
              groups port peers of
         Some sends \<Rightarrow> sends
       | None \<Rightarrow> []) reqs)"

text \<open>Draining the signed messages a chat program queued.\<close>

definition drain_fabric_messages ::
  "client_env \<Rightarrow> ip_addr list \<Rightarrow> u16 \<Rightarrow> peer_metadata list \<Rightarrow> bytes list \<Rightarrow> transmit list" where
  "drain_fabric_messages env groups port peers queued =
     concat (map (\<lambda>msg. broadcast_bytes_to_fabric env msg groups port peers) queued)"

definition chat_program :: "bytes \<Rightarrow> identity_data \<Rightarrow> program_data option" where
  "chat_program wasm_bytes source = program_request wasm_bytes source ''chat'' [] [(''mode'', ''ui'')]"

section \<open>netmap\<close>

text \<open>The keys \<open>netmap\<close> trusts: its own and the readable ones of the configuration.\<close>

definition netmap_trusted :: "client_env \<Rightarrow> bytes \<Rightarrow> string list \<Rightarrow> bytes set" where
  "netmap_trusted env our_pubkey trusted_keys =
     (if our_pubkey = [] then {} else {our_pubkey}) \<union>
     set (List.map_filter (\<lambda>key.
       case public_key_to_ed25519_vk (cl_from_openssh env) (cl_crypto env) key of
         Inr vk \<Rightarrow> Some vk
       | Inl _ \<Rightarrow> None) trusted_keys)"

definition netmap_request ::
  "bytes \<Rightarrow> identity_data \<Rightarrow> bytes \<Rightarrow> bytes \<Rightarrow> u8 \<Rightarrow> program_data option" where
  "netmap_request wasm_bytes source request_uuid our_pubkey depth =
     builder_build (set_request_context request_uuid depth (if our_pubkey = [] then [] else [our_pubkey])
       (set_source source (set_wasm_program_bytes wasm_bytes (set_human_name ''network-map'' builder_new))))"

definition make_request :: "client_env \<Rightarrow> bytes \<Rightarrow> identity_data \<Rightarrow> bytes \<Rightarrow> bytes \<Rightarrow> u8 \<Rightarrow> bytes option" where
  "make_request env wasm_bytes source request_uuid our_pubkey depth =
     Option.bind (netmap_request wasm_bytes source request_uuid our_pubkey depth)
       (\<lambda>pd. ba_to_vec (cl_bare env) (ExecuteRequest pd))"

definition peer_trusted :: "client_env \<Rightarrow> bytes set \<Rightarrow> peer_metadata \<Rightarrow> bool" where
  "peer_trusted env trusted peer =
     (case expected_key_str peer of
        None \<Rightarrow> False
      | Some s \<Rightarrow>
          (case public_key_to_ed25519_vk (cl_from_openssh env) (cl_crypto env) s of
             Inr vk \<Rightarrow> vk \<in> trusted
           | Inl _ \<Rightarrow> False))"

text \<open>The peers in turn; \<open>mk\<close> is \<open>make_request\<close>. The flag is False when a request could not be made:
  the command ends there, after what it has sent. An address of a family without socket is
  skipped.\<close>

fun netmap_peer_sends ::
  "client_env \<Rightarrow> (u8 \<Rightarrow> bytes option) \<Rightarrow> bytes set \<Rightarrow> u16 \<Rightarrow> peer_metadata list \<Rightarrow> transmit list \<times> bool" where
  "netmap_peer_sends env mk trusted port [] = ([], True)"
| "netmap_peer_sends env mk trusted port (peer # peers) =
     (case resolve_peer_addr (cl_lookup_host env) (connect_hosts peer) port of
        None \<Rightarrow> netmap_peer_sends env mk trusted port peers
      | Some addr \<Rightarrow>
          (case mk (initial_depth_budget (peer_trusted env trusted peer)) of
             None \<Rightarrow> ([], False)
           | Some req \<Rightarrow>
               (case netmap_peer_sends env mk trusted port peers of (sends, ok) \<Rightarrow>
                  ((if is_ipv4 (sock_ip addr) \<or> cl_bind_ok env False then [(Routed, addr, req)] else []) @ sends, ok))))"

definition netmap_group_sends :: "client_env \<Rightarrow> bytes \<Rightarrow> ip_addr list \<Rightarrow> u16 \<Rightarrow> transmit list" where
  "netmap_group_sends env req multicast_groups port =
     concat (map (\<lambda>(idx, name, addrs).
       if addrs = [] then []
       else map (\<lambda>group. (Routed, sock_of group port, req))
              (filter (\<lambda>group. is_ipv4 group \<or> cl_bind_ok env False) multicast_groups))
       (cl_interfaces env))"

definition netmap_sends ::
  "client_env \<Rightarrow> bytes \<Rightarrow> identity_data \<Rightarrow> bytes \<Rightarrow> bytes \<Rightarrow> string list \<Rightarrow> bool \<Rightarrow> ip_addr list \<Rightarrow> u16 \<Rightarrow>
   peer_metadata list \<Rightarrow> transmit list \<times> bool" where
  "netmap_sends env wasm_bytes source request_uuid our_pubkey trusted_keys local multicast_groups port peers =
     (let mk = make_request env wasm_bytes source request_uuid our_pubkey;
          trusted = netmap_trusted env our_pubkey trusted_keys
      in case mk UNTRUSTED_FORWARD_DEPTH of
           None \<Rightarrow> ([], False)
         | Some req \<Rightarrow>
             if local then ([(Routed, SockV4 0x7F000001 port, req)], True)
             else (case netmap_peer_sends env mk trusted port peers of (sends, ok) \<Rightarrow>
                     (netmap_group_sends env req multicast_groups port @ sends, ok)))"

section \<open>The window for replies\<close>

definition is_reply :: "bare_codec \<Rightarrow> nat \<Rightarrow> poll \<Rightarrow> bool" where
  "is_reply ba buf_len ev \<longleftrightarrow> (\<exists>d m. ev = Got d \<and> ba_from_slice ba (take buf_len d) = Some m)"

definition lines_of :: "bare_codec \<Rightarrow> nat \<Rightarrow> poll \<Rightarrow> client_line list" where
  "lines_of ba buf_len ev = snd (on_poll ba buf_len ev 0)"

text \<open>The replies among the polls from \<open>i\<close> on, the first \<open>n\<close> of them.\<close>

definition replies :: "bare_codec \<Rightarrow> nat \<Rightarrow> (nat \<Rightarrow> poll) \<Rightarrow> nat \<Rightarrow> nat \<Rightarrow> nat" where
  "replies ba buf_len evs i n = length (filter (\<lambda>j. is_reply ba buf_len (evs j)) [i..<i + n])"

lemma replies_0 [simp]: "replies ba buf_len evs i 0 = 0"
  by (simp add: replies_def)

lemma replies_Suc:
  "replies ba buf_len evs i (Suc n) =
     (if is_reply ba buf_len (evs i) then 1 else 0) + replies ba buf_len evs (Suc i) n"
  by (simp add: replies_def upt_conv_Cons del: upt_Suc)

lemma on_poll_split:
  "on_poll ba buf_len ev r = (r + (if is_reply ba buf_len ev then 10 else 0), lines_of ba buf_len ev)"
  by (auto simp: on_poll_def is_reply_def lines_of_def split: poll.splits option.splits)

lemma poll_replies_step:
  "0 < r \<Longrightarrow> poll_replies ba buf_len evs i r printed =
     poll_replies ba buf_len evs (Suc i) (r - 1 + (if is_reply ba buf_len (evs i) then 10 else 0))
       (printed @ lines_of ba buf_len (evs i))"
  by (subst poll_replies.simps) (simp add: on_poll_split)

lemma poll_replies_done: "poll_replies ba buf_len evs i 0 printed = Some (i, printed)"
  by (subst poll_replies.simps) simp

lemma poll_replies_returns:
  assumes "n = r + 10 * replies ba buf_len evs i n"
    and "\<And>m. m < n \<Longrightarrow> m \<noteq> r + 10 * replies ba buf_len evs i m"
  shows "poll_replies ba buf_len evs i r printed =
    Some (i + n, printed @ concat (map (\<lambda>j. lines_of ba buf_len (evs j)) [i..<i + n]))"
  using assms
proof (induction n arbitrary: i r printed)
  case 0
  then show ?case by (simp add: poll_replies_done)
next
  case (Suc n)
  let ?r = "r - 1 + (if is_reply ba buf_len (evs i) then 10 else 0)"
  have r: "0 < r" using Suc.prems(2) [of 0] by simp
  then have "n = ?r + 10 * replies ba buf_len evs (Suc i) n"
    using Suc.prems(1) unfolding replies_Suc by (simp split: if_splits)
  moreover have "m \<noteq> ?r + 10 * replies ba buf_len evs (Suc i) m" if "m < n" for m
    using Suc.prems(2) [of "Suc m"] that r unfolding replies_Suc by (simp split: if_splits)
  ultimately have "poll_replies ba buf_len evs (Suc i) ?r (printed @ lines_of ba buf_len (evs i)) =
    Some (Suc i + n, (printed @ lines_of ba buf_len (evs i)) @
      concat (map (\<lambda>j. lines_of ba buf_len (evs j)) [Suc i..<Suc i + n]))"
    by (rule Suc.IH)
  then show ?case using r by (simp add: poll_replies_step upt_conv_Cons del: upt_Suc)
qed

lemma poll_replies_returned:
  assumes "poll_replies ba buf_len evs i r printed = Some y"
  shows "\<exists>n. fst y = i + n \<and> n = r + 10 * replies ba buf_len evs i n"
proof (rule poll_replies.raw_induct [OF _ assms, where P =
      "\<lambda>ba buf_len evs i r printed y. \<exists>n. fst y = i + n \<and> n = r + 10 * replies ba buf_len evs i n"])
  fix f ba buf_len evs i r printed y
  assume 1: "\<And>ba buf_len evs i r printed y. f ba buf_len evs i r printed = Some y \<Longrightarrow>
      \<exists>n. fst y = i + n \<and> n = r + 10 * replies ba buf_len evs i n"
    and 2: "(if r = 0 then Some (i, printed)
      else f ba buf_len evs (Suc i) (fst (on_poll ba buf_len (evs i) (r - 1)))
             (printed @ snd (on_poll ba buf_len (evs i) (r - 1)))) = Some y"
  show "\<exists>n. fst y = i + n \<and> n = r + 10 * replies ba buf_len evs i n"
  proof (cases "r = 0")
    case True
    with 2 have "fst y = i + 0 \<and> 0 = r + 10 * replies ba buf_len evs i 0" by auto
    then show ?thesis by blast
  next
    case False
    with 2 have "f ba buf_len evs (Suc i) (r - 1 + (if is_reply ba buf_len (evs i) then 10 else 0))
        (printed @ lines_of ba buf_len (evs i)) = Some y"
      by (simp add: on_poll_split)
    from 1 [OF this] obtain n where n: "fst y = Suc i + n"
      "n = r - 1 + (if is_reply ba buf_len (evs i) then 10 else 0) + 10 * replies ba buf_len evs (Suc i) n" by blast
    have arith: "Suc n = r + 10 * ((if b then 1 else 0) + k)" if "n = r - 1 + (if b then 10 else 0) + 10 * k" for b k
      using that False by (cases b) auto
    have "Suc n = r + 10 * replies ba buf_len evs i (Suc n)"
      unfolding replies_Suc by (rule arith [OF n(2)])
    moreover have "fst y = i + Suc n" using n(1) by simp
    ultimately show ?thesis by blast
  qed
qed

lemma poll_replies_iff:
  "poll_replies ba buf_len evs i r [] = Some (k, out) \<longleftrightarrow>
   (\<exists>n. k = i + n \<and> n = r + 10 * replies ba buf_len evs i n \<and>
      (\<forall>m < n. m \<noteq> r + 10 * replies ba buf_len evs i m) \<and>
      out = concat (map (\<lambda>j. lines_of ba buf_len (evs j)) [i..<i + n]))"
  (is "?l \<longleftrightarrow> ?r")
proof
  assume ?l
  let ?P = "\<lambda>n. n = r + 10 * replies ba buf_len evs i n"
  from poll_replies_returned [OF \<open>?l\<close>] obtain n where "?P n" by blast
  then have least: "?P (LEAST n. ?P n)" by (rule LeastI)
  have "\<forall>m < (LEAST n. ?P n). \<not> ?P m" using not_less_Least by blast
  with poll_replies_returns [OF least, of "[]"] least \<open>?l\<close> show ?r
    by (intro exI [of _ "LEAST n. ?P n"]) auto
next
  assume ?r
  then show ?l using poll_replies_returns [of _ r ba buf_len evs i "[]"] by auto
qed

definition window_closes :: "bare_codec \<Rightarrow> nat \<Rightarrow> (nat \<Rightarrow> poll) \<Rightarrow> nat \<Rightarrow> bool" where
  "window_closes ba buf_len evs n \<longleftrightarrow>
     n = 24 + 10 * replies ba buf_len evs 0 n \<and> list_all (\<lambda>m. m \<noteq> 24 + 10 * replies ba buf_len evs 0 m) [0..<n]"

text \<open>C29: how long a client listens. It makes exactly \<open>n\<close> polls when \<open>n\<close> is the first number that
  equals 24 plus ten times the replies among the first \<open>n\<close> polls, and prints the lines of these
  polls in order; while one poll in ten brings a reply there is no such number, and the command
  does not end.\<close>

theorem client_window_exact:
  "(read_daemon_replies ba evs = Some (n, out) \<longleftrightarrow> window_closes ba 16384 evs n \<and>
      out = concat (map (\<lambda>j. lines_of ba 16384 (evs j)) [0..<n])) \<and>
   (await_group_replies ba evs = Some (n, out) \<longleftrightarrow> window_closes ba 65536 evs n \<and>
      out = concat (map (\<lambda>j. lines_of ba 65536 (evs j)) [0..<n]))"
  unfolding read_daemon_replies_def await_group_replies_def poll_replies_iff window_closes_def
  by (auto simp: list_all_iff)

lemma replies_none: "(\<And>j. \<not> is_reply ba buf_len (evs j)) \<Longrightarrow> replies ba buf_len evs i n = 0"
  by (simp add: replies_def)

lemma replies_all: "(\<And>j. is_reply ba buf_len (evs j)) \<Longrightarrow> replies ba buf_len evs i n = n"
  by (simp add: replies_def)

theorem client_window_exact_witness:
  "read_daemon_replies (demo_bare (BasicInsecureProgramExit 1 0) [5]) (\<lambda>_. PollTimeout) = Some (24, []) \<and>
   read_daemon_replies (demo_bare (BasicInsecureProgramExit 1 0) [5]) (\<lambda>_. Got [5]) = None"
proof
  let ?ba = "demo_bare (BasicInsecureProgramExit 1 0) [5]"
  have "replies ?ba 16384 (\<lambda>_. PollTimeout) 0 n = 0" for n
    by (rule replies_none) (simp add: is_reply_def)
  then show "read_daemon_replies ?ba (\<lambda>_. PollTimeout) = Some (24, [])"
    by (simp add: client_window_exact window_closes_def list_all_iff lines_of_def on_poll_def)
  have "replies ?ba 16384 (\<lambda>_. Got [5]) 0 n = n" for n
    by (rule replies_all) (simp add: is_reply_def demo_bare_def)
  then have "read_daemon_replies ?ba (\<lambda>_. Got [5]) \<noteq> Some (n, out)" for n out
    by (simp add: client_window_exact window_closes_def)
  then show "read_daemon_replies ?ba (\<lambda>_. Got [5]) = None"
    by (cases "read_daemon_replies ?ba (\<lambda>_. Got [5])") auto
qed

section \<open>Copies of a message\<close>

lemma ms_push_again:
  assumes "ms_refines s a" and "0 < ms_seen_cap s" and "i \<noteq> []"
  shows "ms_push name' key i d' now' (fst (ms_push name key i d now s)) = (fst (ms_push name key i d now s), 0)"
proof -
  let ?k = "dedup_key key i"
  have "?k \<in> ms_seen (fst (ms_push name key i d now s))"
  proof (cases "?k \<in> ms_seen s")
    case True
    then show ?thesis using assms(3) by (simp add: ms_push_def Let_def)
  next
    case False
    have R: "ms_seen s = set (ms_seen_order s)" "distinct (ms_seen_order s)"
      using assms(1) by (auto simp: ms_refines_def)
    have "?k \<in> set (lastn (ms_seen_cap s) (ms_seen_order s @ [?k]))"
      using lastn_recent [of "[]" "ms_seen_cap s"] assms(2) by simp
    then have "?k \<in> ms_seen (ms_remember ?k s)"
      using ms_remember_seen(1) [OF R False] by (simp add: seen_q.items_push)
    then show ?thesis using assms(3) False by (simp add: ms_push_def Let_def)
  qed
  then show ?thesis using assms(3) by (simp add: ms_push_def Let_def)
qed

lemma broadcast_same_bytes:
  "t \<in> set (broadcast_bytes_to_fabric env msg groups port peers) \<Longrightarrow> snd (snd t) = msg"
  by (auto simp: broadcast_bytes_to_fabric_def multicast_sends_def peer_sends_def map_filter_mem
      split: option.splits if_splits)

text \<open>A datagram that a node accepts as this signed message.\<close>

definition accepts :: "serve_env \<Rightarrow> bytes \<Rightarrow> identity_data \<Rightarrow> bytes \<Rightarrow> bytes \<Rightarrow> bool" where
  "accepts env buf source i d \<longleftrightarrow>
     (\<exists>sig. ba_from_slice (ck_bare (sv_crates env)) buf = Some (SignedFabricMessage source i d sig) \<and>
        check_self_signature (ck_crypto (sv_crates env)) source = Inr () \<and>
        verify_payload (ck_crypto (sv_crates env)) source i d sig = Inr ())"

lemma accepted_datagram:
  assumes "accepts env buf source i d"
  obtains ex' out where "handle_datagram env buf addr ex = (Listening, ex', out)"
    and "ex_messages ex' = fst (ms_push (id_human_name source) (id_public_key source) i d (sv_now env) (ex_messages ex))"
  using assms unfolding accepts_def
  by (auto simp: handle_datagram_def fabric_message_cases)

lemma accepted_copies:
  assumes "\<And>env buf addr. (env, buf, addr) \<in> set cs \<Longrightarrow> accepts env buf source i d"
    and "\<And>now. ms_push (id_human_name source) (id_public_key source) i d now (ex_messages ex) = (ex_messages ex, 0)"
  shows "\<exists>ex' out. serve_loop cs ex = (Listening, ex', out) \<and> ex_messages ex' = ex_messages ex"
  using assms
proof (induction cs arbitrary: ex)
  case (Cons c cs)
  obtain env buf addr where c: "c = (env, buf, addr)" by (cases c)
  obtain ex1 out where 1: "handle_datagram env buf addr ex = (Listening, ex1, out)"
      "ex_messages ex1 = fst (ms_push (id_human_name source) (id_public_key source) i d (sv_now env) (ex_messages ex))"
    using accepted_datagram [of env buf source i d addr ex] Cons.prems(1) [of env buf addr] c by auto
  have m: "ex_messages ex1 = ex_messages ex" using 1(2) Cons.prems(2) by simp
  with Cons.prems Cons.IH [of ex1] obtain ex' out' where "serve_loop cs ex1 = (Listening, ex', out')"
      "ex_messages ex' = ex_messages ex1"
    by (metis list.set_intros(2))
  then show ?case using 1(1) c m by simp
qed simp


definition demo_client :: "bare_codec \<Rightarrow> client_env" where
  "demo_client ba = \<lparr>cl_crypto = demo_crypto, cl_bare = ba, cl_from_openssh = (\<lambda>_. Some (Ed25519 (replicate 32 9))),
     cl_lookup_host = (\<lambda>h port. Some [SockV4 1 port]),
     cl_interfaces = [(1, ''lo'', [V4 0x7F000001]), (2, ''eth0'', [V6 1, V4 0x0A000001]), (3, ''down'', [])],
     cl_sender_ok = (\<lambda>_ _. True), cl_bind_ok = (\<lambda>_. True)\<rparr>"

lemma demo_broadcast:
  "broadcast_bytes_to_fabric (demo_client ba) [1] [V4 0xE0000003] 2240 [] =
     [(ViaV4 0x7F000001, SockV4 0xE0000003 2240, [1]), (ViaV4 0x0A000001, SockV4 0xE0000003 2240, [1])]"
  by (simp add: broadcast_bytes_to_fabric_def multicast_sends_def peer_sends_def demo_client_def
      map_filter_Cons map_filter_Nil)


section \<open>The requests of netmap\<close>

definition requests_of :: "bare_codec \<Rightarrow> transmit list \<Rightarrow> program_data set" where
  "requests_of ba ts = {p. \<exists>t \<in> set ts. ba_from_slice ba (snd (snd t)) = Some (ExecuteRequest p)}"

lemma make_request_decodes:
  assumes "make_request env wasm source uuid our depth = Some msg"
    and "\<And>m. bare_round_trips (cl_bare env) m"
  shows "ba_from_slice (cl_bare env) msg =
    Some (ExecuteRequest \<lparr>pd_source = source, pd_human_name = ''network-map'', pd_wasm_program_bytes = wasm,
      pd_signature = [], pd_request_uuid = uuid, pd_depth_budget = depth,
      pd_visited = (if our = [] then [] else [our]), pd_arg_list = [], pd_arg_map = []\<rparr>)"
  using assms unfolding make_request_def netmap_request_def bare_round_trips_def
  by (auto simp: builder_defs bind_eq_Some_conv)

lemma netmap_peer_sends_mem:
  assumes "t \<in> set (fst (netmap_peer_sends env mk trusted port peers))"
  shows "\<exists>peer \<in> set peers. resolve_peer_addr (cl_lookup_host env) (connect_hosts peer) port = Some (fst (snd t)) \<and>
    mk (initial_depth_budget (peer_trusted env trusted peer)) = Some (snd (snd t))"
  using assms
  by (induction peers) (auto split: option.splits prod.splits if_splits)

lemma netmap_sends_mem:
  assumes "t \<in> set (fst (netmap_sends env wasm source uuid our keys local groups port peers))"
  shows "make_request env wasm source uuid our UNTRUSTED_FORWARD_DEPTH = Some (snd (snd t)) \<or>
    (\<exists>peer \<in> set peers. resolve_peer_addr (cl_lookup_host env) (connect_hosts peer) port = Some (fst (snd t)) \<and>
       make_request env wasm source uuid our
         (initial_depth_budget (peer_trusted env (netmap_trusted env our keys) peer)) = Some (snd (snd t)))"
proof -
  let ?mk = "make_request env wasm source uuid our"
  obtain req where req: "?mk UNTRUSTED_FORWARD_DEPTH = Some req"
    using assms by (cases "?mk UNTRUSTED_FORWARD_DEPTH") (auto simp: netmap_sends_def Let_def)
  have "t \<in> set (netmap_group_sends env req groups port) \<Longrightarrow> snd (snd t) = req"
    by (auto simp: netmap_group_sends_def split: if_splits)
  moreover have "snd (snd t) = req \<or> t \<in> set (netmap_group_sends env req groups port) \<or>
      t \<in> set (fst (netmap_peer_sends env ?mk (netmap_trusted env our keys) port peers))"
    using assms by (auto simp: netmap_sends_def Let_def req split: if_splits prod.splits)
  ultimately show ?thesis using req netmap_peer_sends_mem by blast
qed

text \<open>How far a map request reaches. Every datagram \<open>netmap\<close> sends carries the discovery program
  under the user's identity and the one uuid of the invocation, with our key as the only visited
  node; whatever the nodes that receive it do, it is forwarded at most twice in a row, or at most
  eight times when it went to a peer whose pinned key is one we trust.\<close>

theorem netmap_requests_bounded:
  assumes "\<And>m. bare_round_trips (cl_bare env) m"
    and "t \<in> set (fst (netmap_sends env wasm source uuid our keys local groups port peers))"
  shows "\<exists>p. ba_from_slice (cl_bare env) (snd (snd t)) = Some (ExecuteRequest p) \<and>
    pd_source p = source \<and> pd_wasm_program_bytes p = wasm \<and> pd_request_uuid p = uuid \<and>
    pd_visited p = (if our = [] then [] else [our]) \<and>
    (\<forall>qs. forward_chain p qs \<longrightarrow> length qs \<le> 2 \<or>
       length qs \<le> 8 \<and> (\<exists>peer \<in> set peers. peer_trusted env (netmap_trusted env our keys) peer \<and>
          resolve_peer_addr (cl_lookup_host env) (connect_hosts peer) port = Some (fst (snd t))))"
proof -
  have u: "unat (initial_depth_budget False) = 2" "unat (initial_depth_budget True) = 8" "unat UNTRUSTED_FORWARD_DEPTH = 2"
    by (simp_all add: depth_defs)
  show ?thesis
    using netmap_sends_mem [OF assms(2)]
  proof (elim disjE bexE conjE)
    assume m: "make_request env wasm source uuid our UNTRUSTED_FORWARD_DEPTH = Some (snd (snd t))"
    show ?thesis
      unfolding make_request_decodes [OF m assms(1)] using forward_chain_length u(3) by fastforce
  next
    fix peer
    assume p: "peer \<in> set peers"
      "resolve_peer_addr (cl_lookup_host env) (connect_hosts peer) port = Some (fst (snd t))"
      and m: "make_request env wasm source uuid our
         (initial_depth_budget (peer_trusted env (netmap_trusted env our keys) peer)) = Some (snd (snd t))"
    show ?thesis
    proof (cases "peer_trusted env (netmap_trusted env our keys) peer")
      case True
      with m have "make_request env wasm source uuid our (initial_depth_budget True) = Some (snd (snd t))" by simp
      note d = make_request_decodes [OF this assms(1)]
      show ?thesis unfolding d using forward_chain_length u(2) p True by fastforce
    next
      case False
      with m have "make_request env wasm source uuid our (initial_depth_budget False) = Some (snd (snd t))" by simp
      note d = make_request_decodes [OF this assms(1)]
      show ?thesis unfolding d using forward_chain_length u(1) by fastforce
    qed
  qed
qed

definition demo_map_request :: program_data where
  "demo_map_request = \<lparr>pd_source = demo_identity, pd_human_name = ''network-map'', pd_wasm_program_bytes = [0],
     pd_signature = [], pd_request_uuid = [4], pd_depth_budget = 2, pd_visited = [[5]], pd_arg_list = [], pd_arg_map = []\<rparr>"

theorem netmap_requests_bounded_witness:
  "(Routed, SockV4 0x7F000001 2240, [1]) \<in>
     set (fst (netmap_sends (demo_client (demo_bare (ExecuteRequest demo_map_request) [1])) [0] demo_identity [4] [5] []
       True [] 2240 [])) \<and>
   (\<exists>p. ba_from_slice (demo_bare (ExecuteRequest demo_map_request) [1]) [1] = Some (ExecuteRequest p) \<and>
      pd_visited p = [[5]] \<and> pd_request_uuid p = [4])"
proof -
  let ?env = "demo_client (demo_bare (ExecuteRequest demo_map_request) [1])"
  have req: "make_request ?env [0] demo_identity [4] [5] UNTRUSTED_FORWARD_DEPTH = Some [1]"
    by (simp add: make_request_def netmap_request_def builder_defs demo_client_def demo_bare_def
        demo_map_request_def UNTRUSTED_FORWARD_DEPTH_def)
  then have m: "(Routed, SockV4 0x7F000001 2240, [1]) \<in> set (fst (netmap_sends ?env [0] demo_identity [4] [5] [] True [] 2240 []))"
    by (simp add: netmap_sends_def)
  have "bare_round_trips (cl_bare ?env) m" for m
    by (simp add: demo_client_def demo_bare_round_trips)
  from netmap_requests_bounded [OF this m] m show ?thesis by (auto simp: demo_client_def)
qed

section \<open>Copies of a program\<close>

lemma drain_replicates_mem:
  assumes "t \<in> set (drain_replicates env wasm source name groups port peers reqs)"
  obtains req pd where "req \<in> set reqs"
    and "program_request wasm source name (rr_arg_list req) (rr_arg_map req) = Some pd"
    and "ba_to_vec (cl_bare env) (ExecuteRequest pd) = Some (snd (snd t))"
proof -
  from assms obtain req ts where req: "req \<in> set reqs" and t: "t \<in> set ts"
      and b: "broadcast_program_to_fabric env wasm source name (rr_arg_list req) (rr_arg_map req) groups port peers = Some ts"
    by (auto simp: drain_replicates_def split: option.splits)
  from b obtain pd msg where "program_request wasm source name (rr_arg_list req) (rr_arg_map req) = Some pd"
      "ba_to_vec (cl_bare env) (ExecuteRequest pd) = Some msg" "ts = broadcast_bytes_to_fabric env msg groups port peers"
    by (auto simp: broadcast_program_to_fabric_def bind_eq_Some_conv)
  with that [OF req] broadcast_same_bytes t show thesis by simp
qed

text \<open>What a program can spread. Every datagram that leaves for the requests of a program is an
  execute request with the program itself, under the launcher's identity and with the arguments
  of one of its requests, and no node forwards it.\<close>

theorem replicas_carry_program:
  assumes "\<And>m. bare_round_trips (cl_bare env) m"
    and "t \<in> set (drain_replicates env wasm source name groups port peers (hs_replicated (host_run c d calls hs)))"
  shows "\<exists>p req. ba_from_slice (cl_bare env) (snd (snd t)) = Some (ExecuteRequest p) \<and>
    req \<in> set (hs_replicated (host_run c d calls hs)) \<and>
    pd_wasm_program_bytes p = wasm \<and> pd_source p = source \<and> pd_human_name p = name \<and>
    pd_arg_list p = rr_arg_list req \<and> pd_arg_map p = rr_arg_map req \<and>
    {qs. forward_chain p qs} = {[]}"
proof -
  from assms(2) obtain req pd where r: "req \<in> set (hs_replicated (host_run c d calls hs))"
      "program_request wasm source name (rr_arg_list req) (rr_arg_map req) = Some pd"
      "ba_to_vec (cl_bare env) (ExecuteRequest pd) = Some (snd (snd t))"
    by (rule drain_replicates_mem)
  then have dec: "ba_from_slice (cl_bare env) (snd (snd t)) = Some (ExecuteRequest pd)"
    using assms(1) unfolding bare_round_trips_def by blast
  have pd: "pd_wasm_program_bytes pd = wasm" "pd_source pd = source" "pd_human_name pd = name"
      "pd_arg_list pd = rr_arg_list req" "pd_arg_map pd = rr_arg_map req" "pd_depth_budget pd = 0"
    using r(2) by (auto simp: program_request_def builder_defs)
  have "{qs. forward_chain pd qs} = {[]}"
    using forward_chain_length [of pd] pd(6) by (auto intro: chain_nil)
  with dec r(1) pd show ?thesis by blast
qed

definition demo_replica :: program_data where
  "demo_replica = \<lparr>pd_source = demo_identity, pd_human_name = ''chat'', pd_wasm_program_bytes = [0],
     pd_signature = [], pd_request_uuid = replicate 16 0, pd_depth_budget = 0, pd_visited = [], pd_arg_list = [''x''],
     pd_arg_map = [(''mode'', ''deliver'')]\<rparr>"

definition demo_replicating_host :: host_state where
  "demo_replicating_host = (demo_host [])\<lparr>hs_replicated := [\<lparr>rr_arg_list = [''x''], rr_arg_map = [(''mode'', ''deliver'')]\<rparr>]\<rparr>"

theorem replicas_carry_program_witness:
  "\<exists>p. ba_from_slice (demo_bare (ExecuteRequest demo_replica) [1]) [1] = Some (ExecuteRequest p) \<and>
     pd_arg_map p = [(''mode'', ''deliver'')] \<and> {qs. forward_chain p qs} = {[]}"
proof -
  let ?env = "demo_client (demo_bare (ExecuteRequest demo_replica) [1])"
  let ?run = "host_run (demo_crates (demo_codec CNull [])) demo_store [] demo_replicating_host"
  have req: "program_request [0] demo_identity ''chat'' [''x''] [(''mode'', ''deliver'')] = Some demo_replica"
    by (simp add: program_request_def builder_defs demo_replica_def)
  have run: "hs_replicated ?run = [\<lparr>rr_arg_list = [''x''], rr_arg_map = [(''mode'', ''deliver'')]\<rparr>]"
    by (simp add: demo_replicating_host_def)
  have "cl_bare ?env = demo_bare (ExecuteRequest demo_replica) [1]" by (simp add: demo_client_def)
  then have "broadcast_program_to_fabric ?env [0] demo_identity ''chat'' [''x''] [(''mode'', ''deliver'')] [V4 0xE0000003] 2240 [] =
      Some (broadcast_bytes_to_fabric ?env [1] [V4 0xE0000003] 2240 [])"
    by (simp add: broadcast_program_to_fabric_def req demo_bare_def)
  then have m: "(ViaV4 0x7F000001, SockV4 0xE0000003 2240, [1]) \<in>
      set (drain_replicates ?env [0] demo_identity ''chat'' [V4 0xE0000003] 2240 [] (hs_replicated ?run))"
    unfolding run drain_replicates_def by (simp add: demo_broadcast)
  have b: "bare_round_trips (cl_bare ?env) m" for m by (simp add: demo_client_def demo_bare_round_trips)
  from replicas_carry_program [OF b m] show ?thesis unfolding run by (auto simp: demo_client_def)
qed

end
