(* ===== verification/Terminal.thy ===== *)
theory Terminal
  imports Tty
begin

text \<open>
  A session on the terminal, \<open>attach\<close>, the reader thread, \<open>next_event\<close> and the guard of \<open>src/tty.rs\<close>:
  the modes the terminal is put in and taken out of, and the events that reach the program.
\<close>

section \<open>Attaching and restoring\<close>

record terminal =
  tm_raw :: bool
  tm_alternate :: bool
  tm_cursor_hidden :: bool

text \<open>Whether each call on the terminal succeeds; what is queued takes effect with the flush.\<close>

record attach_env =
  at_raw_ok :: bool
  at_alternate_ok :: bool
  at_hide_ok :: bool
  at_flush_ok :: bool

definition attach :: "attach_env \<Rightarrow> terminal \<Rightarrow> terminal \<times> bool" where
  "attach e t =
     (if \<not> at_raw_ok e then (t, False)
      else let t1 = t\<lparr>tm_raw := True\<rparr>
           in if \<not> at_alternate_ok e then (t1, False)
              else if \<not> at_hide_ok e then (t1, False)
              else if \<not> at_flush_ok e then (t1, False)
              else (t1\<lparr>tm_alternate := True, tm_cursor_hidden := True\<rparr>, True))"

text \<open>The drop of the guard: every call is made, whatever came of the others.\<close>

definition drop_guard :: "bool \<Rightarrow> bool \<Rightarrow> terminal \<Rightarrow> terminal" where
  "drop_guard flush_ok disable_ok t =
     (let t1 = (if flush_ok then t\<lparr>tm_cursor_hidden := False, tm_alternate := False\<rparr> else t)
      in if disable_ok then t1\<lparr>tm_raw := False\<rparr> else t1)"

section \<open>The reader thread\<close>

datatype tick = ReadEvent ct_event | ReadError | NoEvent | PollFailed

text \<open>One round of the loop: whether the stop flag is seen, what the poll yields, and whether the
  receiver still exists. The result is what was sent.\<close>

fun reader :: "(bool \<times> tick \<times> bool) list \<Rightarrow> tty_event list" where
  "reader [] = []"
| "reader ((stop, t, receiver) # rounds) =
     (if stop then []
      else case t of
        ReadEvent ev \<Rightarrow>
          (case map_event ev of
             Some mapped \<Rightarrow> if receiver then mapped # reader rounds else []
           | None \<Rightarrow> reader rounds)
      | ReadError \<Rightarrow> []
      | NoEvent \<Rightarrow> reader rounds
      | PollFailed \<Rightarrow> [])"

text \<open>\<open>next_event\<close>: the oldest event of the channel, or none when nothing comes in time. The channel
  keeps what was sent and not yet received.\<close>

fun next_event :: "tty_event list \<Rightarrow> tty_event option \<times> tty_event list" where
  "next_event [] = (None, [])"
| "next_event (ev # queued) = (Some ev, queued)"

fun receive :: "nat \<Rightarrow> tty_event list \<Rightarrow> tty_event list \<times> tty_event list" where
  "receive 0 queued = ([], queued)"
| "receive (Suc n) queued =
     (case next_event queued of
        (None, queued') \<Rightarrow> receive n queued'
      | (Some ev, queued') \<Rightarrow> (case receive n queued' of (evs, q) \<Rightarrow> (ev # evs, q)))"

section \<open>Lemmas\<close>

definition round_ends :: "bool \<times> tick \<times> bool \<Rightarrow> bool" where
  "round_ends r = (case r of (stop, t, receiver) \<Rightarrow>
     stop \<or> t = ReadError \<or> t = PollFailed \<or> (\<not> receiver \<and> (\<exists>ev. t = ReadEvent ev \<and> map_event ev \<noteq> None)))"

definition round_event :: "bool \<times> tick \<times> bool \<Rightarrow> tty_event option" where
  "round_event r = (case r of (_, ReadEvent ev, _) \<Rightarrow> map_event ev | _ \<Rightarrow> None)"

lemma reader_exact:
  "reader rounds = List.map_filter round_event (takeWhile (\<lambda>r. \<not> round_ends r) rounds)"
  by (induction rounds rule: reader.induct)
    (auto simp: round_ends_def round_event_def map_filter_simps split: tick.splits option.splits)

lemma receive_exact: "receive n queued = (take n queued, drop n queued)"
  by (induction n queued rule: receive.induct) (auto split: prod.splits elim: next_event.elims)

section \<open>Properties\<close>

text \<open>C39: a terminal session. After a successful attach, dropping the guard leaves a terminal out of
  raw mode, on its own screen and with its cursor, when the calls that restore it succeed. An attach
  that fails leaves the terminal as it found it only when raw mode could not be switched on or was on
  already: when a later call fails, the terminal stays in raw mode. The program receives the events
  it understands of those read before the thread ended, once and in order.\<close>

theorem terminal_session:
  "(case attach e t of
      (t1, True) \<Rightarrow> drop_guard True True t1 = \<lparr>tm_raw = False, tm_alternate = False, tm_cursor_hidden = False\<rparr>
    | (t1, False) \<Rightarrow> (t1 = t) = (tm_raw t = (tm_raw t \<or> at_raw_ok e))) \<and>
   fst (receive n (reader rounds)) =
     take n (List.map_filter round_event (takeWhile (\<lambda>r. \<not> round_ends r) rounds))"
proof -
  have "t\<lparr>tm_raw := True\<rparr> = t \<longleftrightarrow> tm_raw t" by (cases t) auto
  then show ?thesis
    by (cases t) (auto simp: attach_def drop_guard_def Let_def receive_exact reader_exact)
qed

end
