(* ===== verification/Addr_Text.thy ===== *)
theory Addr_Text
  imports Net "HOL-Library.Char_ord"
begin

text \<open>
  Reading addresses from text, as the standard library's \<open>IpAddr::from_str\<close> does it: a parser is a
  function from the rest of the input to a value and a new rest, \<open>None\<close> where it fails (and nothing
  is consumed). \<open>Args\<close> and \<open>Config\<close> read addresses that the program printed; the result here is
  that reading undoes printing.
\<close>

section \<open>Parsers\<close>

definition digit_value :: "nat \<Rightarrow> char \<Rightarrow> nat option" where
  "digit_value radix c =
     (let b = of_char c :: nat;
          v = (if 48 \<le> b \<and> b \<le> 57 then b - 48
               else if 97 \<le> b \<and> b \<le> 122 then b - 87
               else if 65 \<le> b \<and> b \<le> 90 then b - 55
               else radix)
      in if v < radix then Some v else None)"

definition digits_value :: "nat \<Rightarrow> string \<Rightarrow> nat" where
  "digits_value radix ds = fold (\<lambda>c acc. acc * radix + the (digit_value radix c)) ds 0"

definition digit_prefix :: "nat \<Rightarrow> string \<Rightarrow> string" where
  "digit_prefix radix s = takeWhile (\<lambda>c. digit_value radix c \<noteq> None) s"

text \<open>A number below \<open>limit\<close> of at most \<open>max_digits\<close> digits.\<close>

definition read_number :: "nat \<Rightarrow> nat \<Rightarrow> bool \<Rightarrow> nat \<Rightarrow> string \<Rightarrow> (nat \<times> string) option" where
  "read_number radix max_digits allow_zero_prefix limit s =
     (let ds = digit_prefix radix s; v = digits_value radix ds in
      if ds = [] \<or> max_digits < length ds \<or>
         \<not> allow_zero_prefix \<and> hd ds = CHR ''0'' \<and> 1 < length ds \<or> limit \<le> v
      then None else Some (v, drop (length ds) s))"

definition read_given_char :: "char \<Rightarrow> string \<Rightarrow> string option" where
  "read_given_char c s = (case s of x # xs \<Rightarrow> if x = c then Some xs else None | [] \<Rightarrow> None)"

definition read_separator :: "char \<Rightarrow> nat \<Rightarrow> (string \<Rightarrow> 'a option) \<Rightarrow> string \<Rightarrow> 'a option" where
  "read_separator sep index inner s =
     (if index = 0 then inner s else Option.bind (read_given_char sep s) inner)"

definition from_digits :: "nat \<Rightarrow> nat list \<Rightarrow> nat" where
  "from_digits b ds = fold (\<lambda>d acc. acc * b + d) ds 0"

text \<open>\<open>n\<close> more octets, from index \<open>i\<close> on.\<close>

fun read_octets :: "nat \<Rightarrow> nat \<Rightarrow> string \<Rightarrow> (nat list \<times> string) option" where
  "read_octets i 0 s = Some ([], s)"
| "read_octets i (Suc n) s =
     (case read_separator (CHR ''.'') i (read_number 10 3 False 256) s of
        None \<Rightarrow> None
      | Some (d, s') \<Rightarrow> map_option (\<lambda>(ds, r). (d # ds, r)) (read_octets (Suc i) n s'))"

definition read_ipv4_addr :: "string \<Rightarrow> (u32 \<times> string) option" where
  "read_ipv4_addr s = map_option (\<lambda>(ds, r). (of_nat (from_digits 256 ds), r)) (read_octets 0 4 s)"

text \<open>The groups from index \<open>i\<close> on, at most \<open>limit\<close>; an embedded IPv4 address ends them and counts
  as two.\<close>

function read_groups :: "nat \<Rightarrow> nat \<Rightarrow> string \<Rightarrow> nat list \<times> bool \<times> string" where
  "read_groups limit i s =
     (if limit \<le> i then ([], False, s)
      else case (if i < limit - 1 then read_separator (CHR '':'') i read_ipv4_addr s else None) of
        Some (v4, s') \<Rightarrow> ([unat (drop_bit 16 v4), unat (v4 AND 0xFFFF)], True, s')
      | None \<Rightarrow>
          (case read_separator (CHR '':'') i (read_number 16 4 True 65536) s of
             None \<Rightarrow> ([], False, s)
           | Some (g, s') \<Rightarrow> (case read_groups limit (Suc i) s' of (gs, v4, r) \<Rightarrow> (g # gs, v4, r))))"
  by pat_completeness auto

termination
  by (relation "measure (\<lambda>(limit, i, s). limit - i)") auto

declare read_groups.simps [simp del]

definition from_segments :: "nat list \<Rightarrow> u128" where
  "from_segments ss = of_nat (from_digits 65536 ss)"

definition read_ipv6_addr :: "string \<Rightarrow> (u128 \<times> string) option" where
  "read_ipv6_addr s =
     (case read_groups 8 0 s of (head, head_ipv4, s1) \<Rightarrow>
        if length head = 8 then Some (from_segments head, s1)
        else if head_ipv4 then None
        else Option.bind (read_given_char (CHR '':'') s1) (\<lambda>s2.
             Option.bind (read_given_char (CHR '':'') s2) (\<lambda>s3.
             case read_groups (8 - (length head + 1)) 0 s3 of (tail, _, s4) \<Rightarrow>
               Some (from_segments (head @ replicate (8 - length head - length tail) 0 @ tail), s4))))"

definition ip_from_str :: "string \<Rightarrow> ip_addr option" where
  "ip_from_str s =
     (case (case read_ipv4_addr s of
              Some (a, r) \<Rightarrow> Some (V4 a, r)
            | None \<Rightarrow> map_option (\<lambda>(a, r). (V6 a, r)) (read_ipv6_addr s)) of
        Some (ip, []) \<Rightarrow> Some ip
      | _ \<Rightarrow> None)"

section \<open>Numbers\<close>

lemma from_digits_snoc [simp]: "from_digits b (ds @ [d]) = from_digits b ds * b + d"
  by (simp add: from_digits_def)

lemma from_digits_zeros: "from_digits b (replicate n 0 @ ds) = from_digits b ds"
  by (induction n) (simp_all add: from_digits_def)

lemma digits_value_snoc: "digits_value r (s @ [c]) = digits_value r s * r + the (digit_value r c)"
  by (simp add: digits_value_def)

lemma digit_char_value:
  assumes "d < 16"
  shows "digit_value 16 (digit_char d) = Some d \<and> (d < 10 \<longrightarrow> digit_value 10 (digit_char d) = Some d) \<and>
    (digit_char d = CHR ''0'' \<longleftrightarrow> d = 0)"
proof -
  have "d \<in> {0, 1, 2, 3, 4, 5, 6, 7, 8, 9, 10, 11, 12, 13, 14, 15}"
    using assms unfolding insert_iff empty_iff by presburger
  then show ?thesis by (auto simp: digit_char_def digit_value_def)
qed

lemma show_base_small: "n < b \<Longrightarrow> show_base b n = [digit_char n]"
  by (subst show_base.simps) simp

lemma show_base_step: "2 \<le> b \<Longrightarrow> b \<le> n \<Longrightarrow> show_base b n = show_base b (n div b) @ [digit_char (n mod b)]"
  by (subst show_base.simps) simp

lemma show_base_digits:
  assumes "b = 10 \<or> b = 16"
  shows "(\<forall>c \<in> set (show_base b n). digit_value b c \<noteq> None) \<and> digits_value b (show_base b n) = n \<and>
    show_base b n \<noteq> [] \<and> (hd (show_base b n) = CHR ''0'' \<longleftrightarrow> n = 0)"
proof (induction n rule: less_induct)
  case (less n)
  show ?case
  proof (cases "n < b")
    case True
    with assms have "n < 16" by auto
    with True assms digit_char_value [of n] show ?thesis
      by (auto simp: show_base_small digits_value_def)
  next
    case False
    have b: "2 \<le> b" using assms by auto
    with False have "n div b < n" "0 < n div b" by (auto simp: div_greater_zero_iff)
    with less have IH: "(\<forall>c \<in> set (show_base b (n div b)). digit_value b c \<noteq> None)"
      "digits_value b (show_base b (n div b)) = n div b" "show_base b (n div b) \<noteq> []"
      "hd (show_base b (n div b)) \<noteq> CHR ''0''" by auto
    have "n mod b < b" using b by simp
    with assms have "digit_value b (digit_char (n mod b)) = Some (n mod b)"
      using digit_char_value [of "n mod b"] by auto
    then show ?thesis using IH False b by (auto simp: show_base_step digits_value_snoc)
  qed
qed

lemma show_base_length: "2 \<le> b \<Longrightarrow> n < b ^ k \<Longrightarrow> 0 < k \<Longrightarrow> length (show_base b n) \<le> k"
proof (induction k arbitrary: n)
  case (Suc k)
  show ?case
  proof (cases "n < b")
    case False
    then have "0 < k" using Suc.prems(1,2) by (cases k) auto
    moreover have "n div b < b ^ k" using Suc.prems by (simp add: less_mult_imp_div_less mult.commute)
    ultimately show ?thesis using Suc.IH [of "n div b"] Suc.prems(1) False by (simp add: show_base_step)
  qed (simp add: show_base_small)
qed simp

text \<open>Where a number ends.\<close>

definition ends :: "nat \<Rightarrow> string \<Rightarrow> bool" where
  "ends radix s \<longleftrightarrow> s = [] \<or> digit_value radix (hd s) = None"

lemma digit_prefix_show:
  assumes "b = 10 \<or> b = 16" and "ends b rest"
  shows "digit_prefix b (show_base b n @ rest) = show_base b n"
  using show_base_digits [OF assms(1), of n] assms(2)
  by (cases rest) (auto simp: digit_prefix_def ends_def takeWhile_append2)

lemma read_number_show:
  assumes "b = 10 \<or> b = 16" and "ends b rest" and "n < limit" and "n < b ^ k" and "0 < k"
  shows "read_number b k z limit (show_base b n @ rest) = Some (n, rest)"
proof -
  have "2 \<le> b" using assms(1) by auto
  then have "length (show_base b n) \<le> k" using show_base_length assms(4,5) by blast
  moreover have "1 < length (show_base b n) \<Longrightarrow> n \<noteq> 0"
    using assms(1) by (cases "n = 0") (auto simp: show_base_small)
  ultimately show ?thesis
    using show_base_digits [OF assms(1), of n] assms(3)
    by (auto simp: read_number_def Let_def digit_prefix_show [OF assms(1,2)])
qed

lemma ends_simps [simp]: "ends r []" "ends 10 (CHR ''.'' # s)" "ends 10 (CHR '':'' # s)" "ends 16 (CHR '':'' # s)"
  by (simp_all add: ends_def digit_value_def)

lemma read_number_none: "ends r s \<Longrightarrow> read_number r k z l s = None"
  by (cases s) (auto simp: read_number_def digit_prefix_def ends_def Let_def)

section \<open>IPv4\<close>

lemma read_separator_0: "read_separator c 0 p s = p s"
  by (simp add: read_separator_def)

lemma read_separator_Suc: "read_separator c (Suc i) p (c # s) = p s"
  by (simp add: read_separator_def read_given_char_def)

definition octets :: "u32 \<Rightarrow> nat list" where
  "octets a = map (\<lambda>i. unat (drop_bit i a AND 0xFF)) [24, 16, 8, 0]"

lemma word_piece: "unat (drop_bit i (a :: 'a::len word) AND mask k) = unat a div 2 ^ i mod 2 ^ k"
proof -
  have "unat (take_bit k (drop_bit i a)) = take_bit k (drop_bit i (unat a))"
    by (simp add: unsigned_take_bit_eq unat_drop_bit_eq)
  then show ?thesis
    by (simp add: take_bit_eq_mask [where ?'a = "'a word"] drop_bit_eq_div [where ?'a = nat] take_bit_eq_mod [where ?'a = nat])
qed

text \<open>The \<open>k\<close> lowest digits of a number, highest first, and back.\<close>

definition low_digits :: "nat \<Rightarrow> nat \<Rightarrow> nat \<Rightarrow> nat list" where
  "low_digits b k n = map (\<lambda>i. n div b ^ i mod b) (rev [0..<k])"

lemma low_digits_Suc: "low_digits b (Suc k) n = low_digits b k (n div b) @ [n mod b]"
proof -
  have "rev [0..<Suc k] = map Suc (rev [0..<k]) @ [0]"
    by (simp only: rev_map [symmetric] map_Suc_upt upt_conv_Cons [of 0 "Suc k"] rev.simps zero_less_Suc)
  then show ?thesis by (simp add: low_digits_def div_mult2_eq del: upt_Suc)
qed

lemma from_low_digits: "from_digits b (low_digits b k n) = n mod b ^ k"
proof (induction k arbitrary: n)
  case (Suc k)
  then show ?case by (simp add: low_digits_Suc mod_mult2_eq mult.commute)
qed (simp add: low_digits_def from_digits_def)

lemma octet: "unat (drop_bit i (a :: u32) AND 0xFF) = unat a div 2 ^ i mod 256"
  using word_piece [of i a 8] by (simp add: mask_eq_exp_minus_1)

lemma from_octets: "of_nat (from_digits 256 (octets a)) = a"
proof -
  have "unat a < 2 ^ 32" using unsigned_less [of a, where ?'a = nat] by simp
  moreover have "octets a = low_digits 256 4 (unat a)"
    by (simp add: octets_def octet low_digits_def upt_conv_Cons)
  ultimately have "from_digits 256 (octets a) = unat a" by (simp add: from_low_digits)
  then show ?thesis by simp
qed

lemma read_ipv4_show:
  assumes "ends 10 rest"
  shows "read_ipv4_addr (show_ipv4 a @ rest) = Some (a, rest)"
proof -
  obtain p q r t where o: "octets a = [p, q, r, t]" and b: "p < 256" "q < 256" "r < 256" "t < 256"
    by (simp add: octets_def octet)
  have s: "show_ipv4 a = show_nat p @ ''.'' @ show_nat q @ ''.'' @ show_nat r @ ''.'' @ show_nat t"
    using o by (simp add: show_ipv4_def octets_def)
  have n: "read_number 10 3 False 256 (show_nat n @ e) = Some (n, e)" if "n < 256" "ends 10 e" for n e
    unfolding show_nat_def using that by (intro read_number_show) auto
  have four: "(4 :: nat) = Suc (Suc (Suc (Suc 0)))" by simp
  have "read_octets 0 4 (show_ipv4 a @ rest) = Some ([p, q, r, t], rest)"
    unfolding s four using b assms by (simp add: read_separator_0 read_separator_Suc n)
  then show ?thesis using from_octets [of a] o by (simp add: read_ipv4_addr_def)
qed

section \<open>IPv6\<close>

text \<open>An IPv4 address shows its first dot right after decimal digits.\<close>

lemma read_ipv4_dot:
  assumes "read_ipv4_addr s \<noteq> None"
  shows "\<exists>r. dropWhile (\<lambda>c. digit_value 10 c \<noteq> None) s = CHR ''.'' # r"
proof -
  have four: "(4 :: nat) = Suc (Suc (Suc (Suc 0)))" by simp
  from assms obtain d s' where "read_number 10 3 False 256 s = Some (d, s')"
      and r: "read_octets (Suc 0) (Suc (Suc (Suc 0))) s' \<noteq> None"
    unfolding read_ipv4_addr_def four by (auto simp: read_separator_0 split: option.splits)
  then have "s' = dropWhile (\<lambda>c. digit_value 10 c \<noteq> None) s"
    by (auto simp: read_number_def digit_prefix_def Let_def dropWhile_eq_drop split: if_splits)
  moreover have "\<exists>t. s' = CHR ''.'' # t"
    using r by (auto simp: read_separator_def read_given_char_def bind_eq_Some_conv split: option.splits list.splits if_splits)
  ultimately show ?thesis by simp
qed

definition colon_or_end :: "string \<Rightarrow> bool" where
  "colon_or_end s \<longleftrightarrow> s = [] \<or> hd s = CHR '':''"

lemma no_ipv4:
  assumes "CHR ''.'' \<notin> set p" and "colon_or_end rest"
  shows "read_ipv4_addr (p @ rest) = None"
proof (rule ccontr)
  let ?P = "\<lambda>c. digit_value 10 c \<noteq> None"
  assume "read_ipv4_addr (p @ rest) \<noteq> None"
  then obtain r where r: "dropWhile ?P (p @ rest) = CHR ''.'' # r" using read_ipv4_dot by blast
  have "dropWhile ?P rest = rest" using assms(2) by (cases rest) (auto simp: colon_or_end_def digit_value_def)
  show False
  proof (cases "\<exists>c \<in> set p. \<not> ?P c")
    case True
    then obtain c where "c \<in> set p" "\<not> ?P c" by blast
    then have "dropWhile ?P (p @ rest) = dropWhile ?P p @ rest" and ne: "dropWhile ?P p \<noteq> []"
      by (auto simp: dropWhile_append1)
    then have "dropWhile ?P p @ rest = CHR ''.'' # r" using r by simp
    with ne have "hd (dropWhile ?P p) = CHR ''.''" by (metis hd_append2 list.sel(1))
    then show False using ne assms(1) by (metis hd_in_set set_dropWhileD)
  next
    case False
    then have "rest = CHR ''.'' # r" using r \<open>dropWhile ?P rest = rest\<close> by (simp add: dropWhile_append2)
    then show False using assms(2) by (simp add: colon_or_end_def)
  qed
qed

lemma hex_no_dot: "CHR ''.'' \<notin> set (show_base 16 n)"
  using show_base_digits [of 16 n] by (auto simp: digit_value_def)

fun groups_text :: "nat \<Rightarrow> nat list \<Rightarrow> string" where
  "groups_text i [] = []"
| "groups_text i (g # gs) = (if i = 0 then [] else '':'') @ show_base 16 g @ groups_text (Suc i) gs"

lemma join_groups: "join '':'' (map (show_base 16) gs) = groups_text 0 gs"
proof -
  have "join '':'' (map (show_base 16) (g # gs)) = show_base 16 g @ groups_text (Suc i) gs" for g gs i
  proof (induction gs arbitrary: g i)
    case (Cons h gs)
    from Cons.IH [of h "Suc i"] show ?case by simp
  qed simp
  then show ?thesis by (cases gs) simp_all
qed

definition stops :: "string \<Rightarrow> bool" where
  "stops rest \<longleftrightarrow> rest = [] \<or> (\<exists>r. rest = CHR '':'' # CHR '':'' # r)"

lemma groups_text_colon: "stops rest \<Longrightarrow> colon_or_end (groups_text (Suc i) gs @ rest)"
  by (cases gs) (auto simp: colon_or_end_def stops_def)

lemma colon_or_end_ends: "colon_or_end s \<Longrightarrow> ends 16 s"
  by (cases s) (auto simp: colon_or_end_def ends_def digit_value_def)

lemma read_separator_text:
  "read_separator c i p ((if i = 0 then [] else [c]) @ s) = p s"
  by (simp add: read_separator_def read_given_char_def)

lemma read_groups_text:
  assumes "\<forall>g \<in> set gs. g < 65536" and "i + length gs \<le> limit" and "stops rest"
  shows "read_groups limit i (groups_text i gs @ rest) = (gs, False, rest)"
  using assms
proof (induction gs arbitrary: i)
  case Nil
  have none: "read_ipv4_addr [] = None" "read_ipv4_addr (CHR '':'' # r) = None" for r
    using no_ipv4 [of "[]" "[]"] no_ipv4 [of "[]" "CHR '':'' # r"] by (simp_all add: colon_or_end_def)
  have "read_separator (CHR '':'') i read_ipv4_addr rest = None"
    "read_separator (CHR '':'') i (read_number 16 4 True 65536) rest = None"
    using Nil(3) by (auto simp: stops_def read_separator_def read_given_char_def none read_number_none)
  then show ?case by (subst read_groups.simps) simp
next
  case (Cons g gs)
  let ?tail = "groups_text (Suc i) gs @ rest"
  let ?text = "(if i = 0 then [] else '':'') @ show_base 16 g @ ?tail"
  have t: "groups_text i (g # gs) @ rest = ?text" by simp
  have c: "colon_or_end ?tail" using groups_text_colon Cons.prems(3) .
  have "read_separator (CHR '':'') i read_ipv4_addr ?text = None"
    unfolding read_separator_text by (rule no_ipv4 [OF hex_no_dot c])
  moreover have "read_separator (CHR '':'') i (read_number 16 4 True 65536) ?text = Some (g, ?tail)"
    unfolding read_separator_text using Cons.prems(1) colon_or_end_ends [OF c] by (intro read_number_show) auto
  moreover have "read_groups limit (Suc i) ?tail = (gs, False, rest)" using Cons by simp
  ultimately show ?case using Cons.prems(2) unfolding t by (subst read_groups.simps) simp
qed

lemma segments_low_digits: "segments a = low_digits 65536 8 (unat a)"
proof -
  have "unat (drop_bit i (a :: u128) AND 0xFFFF) = unat a div 2 ^ i mod 65536" for i
    using word_piece [of i a 16] by (simp add: mask_eq_exp_minus_1)
  then show ?thesis by (simp add: segments_def low_digits_def upt_conv_Cons)
qed

lemma length_segments: "length (segments a) = 8"
  by (simp add: segments_def)

lemma segments_less: "g \<in> set (segments a) \<Longrightarrow> g < 65536"
  by (auto simp: segments_low_digits low_digits_def)

lemma from_segments: "from_segments (segments a) = a"
proof -
  have "unat a < 2 ^ 128" using unsigned_less [of a, where ?'a = nat] by simp
  then show ?thesis by (simp add: from_segments_def segments_low_digits from_low_digits)
qed

text \<open>The longest run of zeros is one.\<close>

definition zero_run :: "nat list \<Rightarrow> nat \<times> nat \<Rightarrow> bool" where
  "zero_run ss p \<longleftrightarrow> fst p + snd p \<le> length ss \<and>
     ss = take (fst p) ss @ replicate (snd p) 0 @ drop (fst p + snd p) ss"

lemma zero_run_here:
  "zero_run ss (0, length (takeWhile (\<lambda>x. x = 0) ss))"
proof -
  have "takeWhile (\<lambda>x. x = 0) ss = replicate (length (takeWhile (\<lambda>x. x = 0) ss)) 0"
    by (intro replicate_length_same [symmetric]) (auto dest: set_takeWhileD)
  then have "ss = replicate (length (takeWhile (\<lambda>x. x = 0) ss)) 0 @ drop (length (takeWhile (\<lambda>x. x = 0) ss)) ss"
    by (metis takeWhile_dropWhile_id dropWhile_eq_drop)
  then show ?thesis by (simp add: zero_run_def length_takeWhile_le)
qed

lemma zero_runs_are: "p \<in> set (zero_runs i ss) \<Longrightarrow> i \<le> fst p \<and> zero_run ss (fst p - i, snd p)"
proof (induction ss arbitrary: i)
  case (Cons s ss)
  show ?case
  proof (cases "p = (i, length (takeWhile (\<lambda>x. x = 0) (s # ss)))")
    case True
    then show ?thesis using zero_run_here [of "s # ss"] by simp
  next
    case False
    then have "p \<in> set (zero_runs (Suc i) ss)" using Cons.prems by simp
    from Cons.IH [OF this] have p: "Suc i \<le> fst p" "zero_run ss (fst p - Suc i, snd p)" by auto
    then have "fst p - i = Suc (fst p - Suc i)" by simp
    with p show ?thesis by (simp add: zero_run_def)
  qed
qed simp

lemma longest_run_is: "zero_run ss (longest_run ss)"
proof -
  have "fold (\<lambda>(i, l) (bi, bl). if bl < l then (i, l) else (bi, bl)) rs b \<in> insert b (set rs)" for rs and b :: "nat \<times> nat"
    by (induction rs arbitrary: b) (auto split: prod.splits if_splits)
  then have "longest_run ss \<in> insert (0, 0) (set (zero_runs 0 ss))" unfolding longest_run_def by blast
  then show ?thesis using zero_runs_are [of "longest_run ss" 0 ss] by (auto simp: zero_run_def)
qed

lemma read_ipv6_full:
  assumes "length gs = 8" and "\<forall>g \<in> set gs. g < 65536"
  shows "read_ipv6_addr (groups_text 0 gs) = Some (from_segments gs, [])"
  using read_groups_text [OF assms(2), of 0 8 "[]"] assms(1) by (simp add: read_ipv6_addr_def stops_def)

lemma read_ipv6_compressed:
  assumes "length h + length t \<le> 7" and "\<forall>g \<in> set (h @ t). g < 65536"
  shows "read_ipv6_addr (groups_text 0 h @ ''::'' @ groups_text 0 t) =
    Some (from_segments (h @ replicate (8 - length h - length t) 0 @ t), [])"
proof -
  have "read_groups 8 0 (groups_text 0 h @ ''::'' @ groups_text 0 t) = (h, False, ''::'' @ groups_text 0 t)"
    using assms by (intro read_groups_text) (auto simp: stops_def)
  moreover have "read_groups (8 - (length h + 1)) 0 (groups_text 0 t) = (t, False, [])"
    using assms read_groups_text [of t 0 "8 - (length h + 1)" "[]"] by (simp add: stops_def)
  ultimately show ?thesis using assms(1) by (simp add: read_ipv6_addr_def read_given_char_def)
qed

lemma read_ipv6_mapped:
  assumes "drop_bit 32 (a :: u128) = 0xFFFF"
  shows "read_ipv6_addr (''::ffff:'' @ show_ipv4 (ucast a)) = Some (a, [])"
proof -
  let ?v = "ucast a :: u32" and ?t = "show_ipv4 (ucast a :: u32)"
  let ?gs = "[65535, unat (drop_bit 16 ?v), unat (?v AND 0xFFFF)]"
  have f: "show_base 16 65535 = ''ffff''"
    by (simp add: show_base_step show_base_small digit_char_def)
  have head: "read_groups 8 0 (''::ffff:'' @ ?t) = ([], False, ''::ffff:'' @ ?t)"
    using read_groups_text [of "[]" 0 8 "''::ffff:'' @ ?t"] by (simp add: stops_def)
  have "read_ipv4_addr (''ffff'' @ '':'' @ ?t) = None"
    by (rule no_ipv4) (auto simp: colon_or_end_def)
  moreover have "read_number 16 4 True 65536 (show_base 16 65535 @ '':'' @ ?t) = Some (65535, '':'' @ ?t)"
    by (rule read_number_show) auto
  moreover have "read_separator (CHR '':'') 1 read_ipv4_addr ('':'' @ ?t) = Some (?v, [])"
    using read_ipv4_show [of "[]" ?v] by (simp add: read_separator_def read_given_char_def)
  ultimately have "read_groups 7 0 (''ffff:'' @ ?t) = (?gs, True, [])"
    by (subst read_groups.simps, subst read_groups.simps) (simp add: read_separator_0 f)
  then have "read_ipv6_addr (''::ffff:'' @ ?t) = Some (from_segments (replicate 5 0 @ ?gs), [])"
    using head by (simp add: read_ipv6_addr_def read_given_char_def)
  moreover have "from_digits 65536 (replicate 5 0 @ ?gs) = unat a"
  proof -
    have "unat (drop_bit 16 ?v) = unat ?v div 65536" "unat (?v AND 0xFFFF) = unat ?v mod 65536"
      using word_piece [of 0 ?v 16] by (simp_all add: unat_drop_bit_eq drop_bit_eq_div [where ?'a = nat] mask_eq_exp_minus_1)
    then have "from_digits 65536 (replicate 5 0 @ ?gs) = 65535 * 4294967296 + (unat ?v div 65536 * 65536 + unat ?v mod 65536)"
      unfolding from_digits_zeros by (simp add: from_digits_def)
    also have "\<dots> = 65535 * 4294967296 + unat ?v" by (simp only: div_mult_mod_eq)
    also have "\<dots> = unat a"
    proof -
      have "unat ?v = unat a mod 4294967296" by (simp add: unsigned_ucast_eq take_bit_eq_mod)
      moreover have "unat a div 4294967296 = 65535"
        using arg_cong [OF assms, of unat] by (simp add: unat_drop_bit_eq drop_bit_eq_div [where ?'a = nat])
      ultimately show ?thesis using div_mult_mod_eq [of "unat a" 4294967296] by simp
    qed
    finally show ?thesis .
  qed
  ultimately show ?thesis by (simp add: from_segments_def)
qed

lemma show_ipv6_no_ipv4: "read_ipv4_addr (show_ipv6 a) = None"
proof -
  have grp: "read_ipv4_addr (groups_text 0 gs @ rest) = None" if "stops rest" for gs rest
  proof (cases gs)
    case Nil
    then show ?thesis using no_ipv4 [of "[]" rest] groups_text_colon [OF that, of 0 "[]"] by simp
  next
    case (Cons g gs')
    then show ?thesis using no_ipv4 [OF hex_no_dot groups_text_colon [OF that], of g 0 gs'] by simp
  qed
  have "read_ipv4_addr (groups_text 0 gs) = None" for gs using grp [of "[]" gs] by (simp add: stops_def)
  moreover have "read_ipv4_addr (groups_text 0 h @ ''::'' @ r) = None" for h r
    by (rule grp) (simp add: stops_def)
  moreover from this [of "[]"] have "read_ipv4_addr (''::ffff:'' @ r) = None" for r by simp
  ultimately show ?thesis
    by (auto simp: show_ipv6_def Let_def join_groups case_prod_unfold)
qed

lemma read_ipv6_show: "read_ipv6_addr (show_ipv6 a) = Some (a, [])"
proof -
  let ?ss = "segments a"
  obtain i l where r: "longest_run ?ss = (i, l)" by fastforce
  then have z: "i + l \<le> 8" "?ss = take i ?ss @ replicate l 0 @ drop (i + l) ?ss"
    using longest_run_is [of ?ss] by (auto simp: zero_run_def length_segments)
  have small: "\<forall>g \<in> set ?ss. g < 65536" using segments_less by blast
  consider "drop_bit 32 a = 0xFFFF" | "drop_bit 32 a \<noteq> 0xFFFF" "1 < l" | "drop_bit 32 a \<noteq> 0xFFFF" "\<not> 1 < l"
    by blast
  then show ?thesis
  proof cases
    case 1
    then show ?thesis using read_ipv6_mapped by (simp add: show_ipv6_def Let_def r)
  next
    case 2
    let ?h = "take i ?ss" and ?t = "drop (i + l) ?ss"
    have "read_ipv6_addr (groups_text 0 ?h @ ''::'' @ groups_text 0 ?t) =
        Some (from_segments (?h @ replicate (8 - length ?h - length ?t) 0 @ ?t), [])"
      using small 2 z(1) by (intro read_ipv6_compressed) (auto simp: length_segments dest: in_set_takeD in_set_dropD)
    moreover have "8 - length ?h - length ?t = l" using z(1) by (simp add: length_segments)
    ultimately show ?thesis using 2 z(2) from_segments [of a] by (simp add: show_ipv6_def Let_def r join_groups)
  next
    case 3
    then show ?thesis using read_ipv6_full [OF length_segments small] from_segments [of a]
      by (simp add: show_ipv6_def Let_def r join_groups)
  qed
qed

text \<open>Reading undoes printing, for every address.\<close>

lemma ip_from_show: "ip_from_str (show_ip ip) = Some ip"
proof (cases ip)
  case (V4 a)
  then show ?thesis using read_ipv4_show [of "[]" a] by (simp add: ip_from_str_def)
next
  case (V6 a)
  then show ?thesis using read_ipv6_show [of a] show_ipv6_no_ipv4 [of a] by (simp add: ip_from_str_def)
qed

section \<open>The characters of an address\<close>

definition addr_char :: "char \<Rightarrow> bool" where
  "addr_char c \<longleftrightarrow> digit_value 16 c \<noteq> None \<or> c = CHR ''.'' \<or> c = CHR '':''"

lemma show_base_addr_chars: "b = 10 \<or> b = 16 \<Longrightarrow> c \<in> set (show_base b n) \<Longrightarrow> addr_char c"
  using show_base_digits [of b n] by (auto simp: addr_char_def digit_value_def Let_def split: if_splits)

lemma show_ipv4_addr_chars: "c \<in> set (show_ipv4 a) \<Longrightarrow> addr_char c"
  by (auto simp: show_ipv4_def show_nat_def Let_def dest: show_base_addr_chars [of 10, OF disjI1, OF refl])
    (simp_all add: addr_char_def)

lemma groups_text_addr_chars: "c \<in> set (groups_text i gs) \<Longrightarrow> addr_char c"
  by (induction gs arbitrary: i)
    (auto simp: addr_char_def split: if_splits dest!: show_base_addr_chars [of 16, OF disjI2, OF refl, unfolded addr_char_def])

lemma show_ip_addr_chars: "c \<in> set (show_ip ip) \<Longrightarrow> addr_char c"
proof (cases ip)
  case (V6 a)
  have k: "c \<in> set ''::ffff:'' \<Longrightarrow> addr_char c" by (auto simp: addr_char_def digit_value_def)
  assume "c \<in> set (show_ip ip)"
  then show ?thesis using k show_ipv4_addr_chars groups_text_addr_chars unfolding V6
    by (auto simp: show_ipv6_def Let_def join_groups case_prod_unfold split: if_splits)
qed (auto intro: show_ipv4_addr_chars)

end
