(* ===== verification/Args.thy ===== *)
theory Args
  imports Addr_Text
begin

text \<open>
  The command line, \<open>src/args.rs\<close>: the commands with their arguments, the readers of program
  arguments and multicast groups, and where the configuration is looked for. What clap does with
  the words of the command line is its own; it prints a default value with \<open>Display\<close> and reads it
  back with \<open>FromStr\<close> like a value given by the user.
\<close>

section \<open>Commands\<close>

type_synonym multicast_address_vec = "ip_addr list"

datatype daemon_action = DInstall | DUninstall | DStart | DStop | DRestart | DStatus

datatype command =
    Info string
  | Configuration
  | GenerateMissingKeys
  | InstallTo string string string
  | Run string bool multicast_address_vec u16 "string list" "string list"
  | RunLocal string "string list" "string list" multicast_address_vec u16
  | ServeCmd multicast_address_vec u16
  | ExtractPrograms string
  | NetmapCmd "string option" bool multicast_address_vec u16
  | Chat "string option" multicast_address_vec u16
  | Daemon daemon_action

record args =
  ar_command :: command
  ar_verbosity :: u8
  ar_config :: "string option"
  ar_log_file :: "string option"

fun owns_terminal :: "command \<Rightarrow> bool" where
  "owns_terminal (Chat _ _ _) = True"
| "owns_terminal _ = False"

definition v_is_info :: "args \<Rightarrow> bool" where "v_is_info a \<longleftrightarrow> 0 < ar_verbosity a"
definition v_is_debug :: "args \<Rightarrow> bool" where "v_is_debug a \<longleftrightarrow> 1 < ar_verbosity a"
definition v_is_everything :: "args \<Rightarrow> bool" where "v_is_everything a \<longleftrightarrow> 2 < ar_verbosity a"

section \<open>Program arguments\<close>

text \<open>\<open>split_once\<close>: at the first occurrence.\<close>

definition split_once :: "char \<Rightarrow> string \<Rightarrow> (string \<times> string) option" where
  "split_once c s =
     (case dropWhile (\<lambda>x. x \<noteq> c) s of
        [] \<Rightarrow> None
      | _ # rest \<Rightarrow> Some (takeWhile (\<lambda>x. x \<noteq> c) s, rest))"

definition parse_arg_map :: "string list \<Rightarrow> (string \<times> string) list" where
  "parse_arg_map entries =
     map (\<lambda>e. case split_once (CHR ''='') e of Some (k, v) \<Rightarrow> (k, v) | None \<Rightarrow> (e, [])) entries"

section \<open>Multicast groups\<close>

definition default_multicast_groups :: multicast_address_vec where
  "default_multicast_groups = [V4 0xE0000003, V6 0xFF020000000000000000000000000003]"

definition show_groups :: "multicast_address_vec \<Rightarrow> string" where
  "show_groups groups = join '','' (map show_ip groups)"

text \<open>\<open>split\<close> on a set of characters: the pieces between them, empty ones included.\<close>

fun split_on :: "(char \<Rightarrow> bool) \<Rightarrow> string \<Rightarrow> string list" where
  "split_on p [] = [[]]"
| "split_on p (c # s) =
     (if p c then [] # split_on p s
      else case split_on p s of piece # pieces \<Rightarrow> (c # piece) # pieces | [] \<Rightarrow> [[c]])"

definition groups_from_str :: "string \<Rightarrow> multicast_address_vec option" where
  "groups_from_str s =
     (let groups = List.map_filter (\<lambda>part.
            case ip_from_str part of
              Some addr \<Rightarrow> if is_multicast addr then Some addr else None
            | None \<Rightarrow> None) (split_on (\<lambda>c. c = CHR '' '' \<or> c = CHR '','') s)
      in if 0 < length groups then Some groups else None)"

definition groups_from_string :: "string \<Rightarrow> multicast_address_vec" where
  "groups_from_string s = (case groups_from_str s of Some parsed \<Rightarrow> parsed | None \<Rightarrow> default_multicast_groups)"

section \<open>The configuration file\<close>

datatype platform = Linux | MacOs | Windows | OtherPlatform

record args_env =
  ae_platform :: platform
  ae_program_data :: "string option"
  ae_exe_dir :: "string option"
  ae_canonicalize :: "string \<Rightarrow> string option"

text \<open>
  \<open>Path::join\<close>. Elsewhere a second path that is absolute replaces the first. On Windows a path with a
  drive or a network prefix does, and one that starts at the root keeps the drive of the first.
\<close>

definition is_sep :: "platform \<Rightarrow> char \<Rightarrow> bool" where
  "is_sep p c \<longleftrightarrow> c = CHR ''/'' \<or> p = Windows \<and> c = CHR 0x5C"

definition path_drive :: "string \<Rightarrow> string" where
  "path_drive s = (case s of c # d # _ \<Rightarrow> if d = CHR '':'' then [c, d] else [] | _ \<Rightarrow> [])"

definition append_component :: "platform \<Rightarrow> string \<Rightarrow> string \<Rightarrow> string" where
  "append_component p a b =
     (if a = [] \<or> is_sep p (last a) \<or> p = Windows \<and> a = path_drive a then a @ b
      else a @ (if p = Windows then CHR 0x5C else CHR ''/'') # b)"

definition path_join :: "platform \<Rightarrow> string \<Rightarrow> string \<Rightarrow> string" where
  "path_join p a b =
     (case b of
        [] \<Rightarrow> append_component p a b
      | c # rest \<Rightarrow>
          if p = Windows \<and> path_drive b \<noteq> [] then b
          else if is_sep p c then
            (if p = Windows \<and> \<not> (rest \<noteq> [] \<and> is_sep p (hd rest)) then path_drive a @ b else b)
          else append_component p a b)"

definition default_config_path :: "args_env \<Rightarrow> string" where
  "default_config_path e =
     (case ae_platform e of
        Windows \<Rightarrow>
          path_join Windows (path_join Windows
            (case ae_program_data e of Some base \<Rightarrow> base | None \<Rightarrow> ''C:'' @ [CHR 0x5C] @ ''ProgramData'')
            ''weverywhere'') ''weverywhere.toml''
      | MacOs \<Rightarrow> ''/Library/Application Support/weverywhere/weverywhere.toml''
      | _ \<Rightarrow> ''/etc/weverywhere.toml'')"

text \<open>\<open>ae_exe_dir\<close> is the directory of the running executable, when both can be told.\<close>

definition exe_relative_config :: "args_env \<Rightarrow> string option" where
  "exe_relative_config e =
     Option.bind (ae_exe_dir e) (\<lambda>dir.
       ae_canonicalize e (foldl (path_join (ae_platform e)) dir [''..'', ''etc'', ''weverywhere.toml'']))"

definition config_path :: "args_env \<Rightarrow> args \<Rightarrow> string" where
  "config_path e a =
     (case ar_config a of
        Some explicit \<Rightarrow> explicit
      | None \<Rightarrow>
          (case exe_relative_config e of
             Some found \<Rightarrow> found
           | None \<Rightarrow> default_config_path e))"

section \<open>Lemmas\<close>

lemma split_on_none: "(\<And>c. c \<in> set s \<Longrightarrow> \<not> p c) \<Longrightarrow> split_on p s = [s]"
  by (induction s) auto

lemma split_on_not_Nil: "split_on p s \<noteq> []"
  by (induction s) (auto split: list.splits)

lemma split_on_join:
  assumes "ss \<noteq> []" and "\<forall>s\<in>set ss. \<forall>c\<in>set s. \<not> p c" and "p sep"
  shows "split_on p (join [sep] ss) = ss"
proof -
  have sep: "split_on p (s @ sep # r) = s # split_on p r" if "\<And>c. c \<in> set s \<Longrightarrow> \<not> p c" for s r
    using that by (induction s) (auto simp: assms(3))
  from assms(1,2) show ?thesis
  proof (induction "[sep]" ss rule: join.induct)
    case (2 s)
    then show ?case by (simp add: split_on_none)
  next
    case (3 s t ss)
    have "split_on p (s @ sep # join [sep] (t # ss)) = s # split_on p (join [sep] (t # ss))"
      by (rule sep) (use 3(3) in simp)
    moreover have "split_on p (join [sep] (t # ss)) = t # ss"
      by (rule 3(1)) (use 3(3) in simp_all)
    ultimately show ?case by simp
  qed simp
qed

lemma mem_map_filter: "y \<in> set (List.map_filter f xs) \<longleftrightarrow> (\<exists>x \<in> set xs. f x = Some y)"
  by (induction xs) (auto simp: map_filter_simps split: option.splits)

lemma addr_char_no_sep: "addr_char c \<Longrightarrow> c \<noteq> CHR '' '' \<and> c \<noteq> CHR '',''"
  by (auto simp: addr_char_def digit_value_def)

lemma default_groups_multicast: "default_multicast_groups \<noteq> [] \<and> list_all is_multicast default_multicast_groups"
  by (simp add: default_multicast_groups_def drop_bit_eq_div)

lemma split_once_key: "c \<notin> set k \<Longrightarrow> split_once c (k @ c # v) = Some (k, v)"
proof -
  assume "c \<notin> set k"
  then have "dropWhile (\<lambda>x. x \<noteq> c) (k @ c # v) = c # v \<and> takeWhile (\<lambda>x. x \<noteq> c) (k @ c # v) = k"
    by (induction k) auto
  then show ?thesis by (simp add: split_once_def)
qed

section \<open>Properties\<close>

text \<open>C35: the multicast groups survive the trip through text. A list of groups that is printed, as
  the default of an option is, and read again is the same list, in order, whichever textual form
  each address has; and whatever text is given, what the program ends up with is never empty and
  holds multicast addresses only.\<close>

theorem multicast_groups_round_trip:
  "(groups_from_str (show_groups gs) = Some gs \<longleftrightarrow> gs \<noteq> [] \<and> list_all is_multicast gs) \<and>
   groups_from_string s \<noteq> [] \<and> list_all is_multicast (groups_from_string s)"
proof -
  let ?sep = "\<lambda>c. c = CHR '' '' \<or> c = CHR '',''"
  let ?read = "\<lambda>part. case ip_from_str part of Some addr \<Rightarrow> if is_multicast addr then Some addr else None | None \<Rightarrow> None"
  have ok: "g \<noteq> [] \<and> list_all is_multicast g" if "groups_from_str s = Some g" for s g
    using that by (auto simp: groups_from_str_def Let_def list_all_iff mem_map_filter split: if_splits option.splits)
  have "groups_from_str (show_groups gs) = Some gs" if gs: "gs \<noteq> []" "list_all is_multicast gs"
  proof -
    have "split_on ?sep (show_groups gs) = map show_ip gs"
      unfolding show_groups_def using gs(1) show_ip_addr_chars addr_char_no_sep by (intro split_on_join) auto
    moreover have "List.map_filter ?read (map show_ip gs) = gs"
      using gs(2) by (induction gs) (auto simp: map_filter_def ip_from_show)
    ultimately show ?thesis using gs(1) by (simp add: groups_from_str_def)
  qed
  with ok show ?thesis
    using default_groups_multicast by (auto simp: groups_from_string_def split: option.splits)
qed

text \<open>Program arguments given as \<open>key=value\<close> arrive as they were given: in order, repeated keys
  included, a value with any further \<open>=\<close> in it whole.\<close>

lemma parse_arg_map_exact:
  assumes "\<And>k v. (k, v) \<in> set kvs \<Longrightarrow> CHR ''='' \<notin> set k"
  shows "parse_arg_map (map (\<lambda>(k, v). k @ ''='' @ v) kvs) = kvs"
  using assms
proof (induction kvs)
  case (Cons kv kvs)
  obtain k v where kv: "kv = (k, v)" by (cases kv)
  have "split_once (CHR ''='') (k @ CHR ''='' # v) = Some (k, v)"
    by (rule split_once_key) (use Cons.prems kv in auto)
  moreover have "parse_arg_map (map (\<lambda>(k, v). k @ ''='' @ v) kvs) = kvs"
    by (rule Cons.IH) (use Cons.prems in auto)
  ultimately show ?case by (simp add: kv parse_arg_map_def)
qed (simp add: parse_arg_map_def)

end
