(* ===== verification/Calendar.thy ===== *)
theory Calendar
  imports Args Utf8 "HOL-Library.Signed_Division"
begin

text \<open>
  The version string of a build, \<open>src/build.rs\<close>: year, month and the hours since the start of the
  month, computed from the clock with a civil-calendar conversion. The conversion is compared with
  a calendar that counts days one at a time.
\<close>

section \<open>civil_from_days\<close>

text \<open>
  \<open>sdiv\<close> is Rust's division on \<open>i64\<close>, which rounds towards zero. The argument is a count of days
  that came from seconds in a \<open>u64\<close>, far below the bounds of an \<open>i64\<close>.
\<close>

definition civil_from_days :: "int \<Rightarrow> int \<times> nat \<times> nat" where
  "civil_from_days z0 =
     (let z = z0 + 719468;
          era = (if z \<ge> 0 then z else z - 146096) sdiv 146097;
          doe = z - era * 146097;
          yoe = (doe - doe sdiv 1460 + doe sdiv 36524 - doe sdiv 146096) sdiv 365;
          y = yoe + era * 400;
          doy = doe - (365 * yoe + yoe sdiv 4 - yoe sdiv 100);
          mp = (5 * doy + 2) sdiv 153;
          d = nat (doy - (153 * mp + 2) sdiv 5 + 1);
          m = nat (if mp < 10 then mp + 3 else mp - 9);
          year = (if m \<le> 2 then y + 1 else y)
      in (year, m, d))"

definition version_parts :: "u64 \<Rightarrow> int \<times> nat \<times> nat" where
  "version_parts secs =
     (let days = int (unat (secs div 86400));
          secs_of_day = secs mod 86400;
          hour = unat (secs_of_day div 3600);
          (year, month, day) = civil_from_days days;
          hours_in_month = (day - 1) * 24 + hour
      in (year, month, hours_in_month))"

definition show_int :: "int \<Rightarrow> string" where
  "show_int i = (if i < 0 then ''-'' @ show_nat (nat (- i)) else show_nat (nat i))"

definition pad2 :: "nat \<Rightarrow> string" where
  "pad2 n = (if n < 10 then ''0'' @ show_nat n else show_nat n)"

text \<open>The clock is the seconds since the epoch, or nothing when it is before the epoch.\<close>

definition compute_version :: "u64 option \<Rightarrow> string" where
  "compute_version now =
     (let (year, month, hours_in_month) = version_parts (case now of Some s \<Rightarrow> s | None \<Rightarrow> 0)
      in show_int year @ ''.'' @ pad2 month @ ''.'' @ show_nat hours_in_month)"

text \<open>A version set in the environment of the build wins, unless it is blank.\<close>

definition build_version :: "string option \<Rightarrow> u64 option \<Rightarrow> string" where
  "build_version pinned now =
     (case map_option trim pinned of
        Some v \<Rightarrow> if v = [] then compute_version now else v
      | None \<Rightarrow> compute_version now)"

section \<open>The calendar\<close>

definition leap :: "int \<Rightarrow> bool" where
  "leap y \<longleftrightarrow> 4 dvd y \<and> (\<not> 100 dvd y \<or> 400 dvd y)"

definition days_in_month :: "int \<Rightarrow> nat \<Rightarrow> nat" where
  "days_in_month y m =
     (if m = 2 then if leap y then 29 else 28 else if m \<in> {4, 6, 9, 11} then 30 else 31)"

fun next_date :: "int \<times> nat \<times> nat \<Rightarrow> int \<times> nat \<times> nat" where
  "next_date (y, m, d) =
     (if d < days_in_month y m then (y, m, d + 1)
      else if m < 12 then (y, m + 1, 1) else (y + 1, 1, 1))"

section \<open>The conversion in three steps\<close>

text \<open>With non-negative operands \<open>sdiv\<close> is \<open>div\<close>, and the correction before it makes the first
  division round down.\<close>

lemma sdiv_nonneg: "0 \<le> (a :: int) \<Longrightarrow> 0 < b \<Longrightarrow> a sdiv b = a div b"
  by (cases "a = 0") (simp_all add: signed_divide_int_def sgn_if)

definition year_estimate :: "int \<Rightarrow> int" where
  "year_estimate doe = doe - doe div 1460 + doe div 36524 - doe div 146096"

definition month_day :: "int \<Rightarrow> nat \<times> nat" where
  "month_day doy =
     (let mp = (5 * doy + 2) div 153
      in (nat (if mp < 10 then mp + 3 else mp - 9), nat (doy - (153 * mp + 2) div 5 + 1)))"

definition date_of :: "int \<Rightarrow> int \<Rightarrow> int \<times> nat \<times> nat" where
  "date_of y doy = (let (m, d) = month_day doy in (if m \<le> 2 then y + 1 else y, m, d))"


lemma era_floor: "(if z \<ge> 0 then z else z - 146096) sdiv 146097 = (z :: int) div 146097"
proof (cases "0 \<le> z")
  case False
  then have "(z - 146096) sdiv 146097 = - ((146096 - z) div 146097)"
    by (simp add: signed_divide_int_def sgn_if)
  also have "(146096 - z) div 146097 = - (z div 146097)"
  proof (rule int_div_pos_eq)
    show "146096 - z = 146097 * - (z div 146097) + (146096 - z mod 146097)"
      using mult_div_mod_eq [of 146097 z] by linarith
    show "0 \<le> 146096 - z mod 146097" "146096 - z mod 146097 < 146097"
      using pos_mod_bound [of 146097 z] pos_mod_sign [of 146097 z] by simp_all
  qed
  finally show ?thesis using False by simp
qed (simp add: sdiv_nonneg)


text \<open>
  A year starts in March here. Day \<open>k\<close> of year \<open>100 c + 4 a + b\<close> of a cycle of 400 years is day
  \<open>36524 c + 1461 a + 365 b + k\<close> of the cycle, and the estimate of the year from it is exact.
\<close>

lemma year_of_cycle_day:
  fixes a b c k :: int
  assumes "0 \<le> c" "c \<le> 3" and "0 \<le> a" "a \<le> 24" and "0 \<le> b" "b \<le> 3"
    and "0 \<le> k" and k: "k < 365 \<or> k = 365 \<and> b = 3 \<and> (a < 24 \<or> c = 3)"
  shows "year_estimate (36524 * c + 1461 * a + 365 * b + k) div 365 = 100 * c + 4 * a + b"
proof -
  let ?d = "36524 * c + 1461 * a + 365 * b + k"
  have len: "k \<le> 365" using k by auto
  let ?q = "(24 * c + a + 365 * b + k) div 1460"
  have "?d = (24 * c + a + 365 * b + k) + 1460 * (25 * c + a)" by simp
  then have d1: "?d div 1460 = 25 * c + a + ?q"
    by (simp only: div_mult_self2)
  have d2: "?d div 36524 - ?d div 146096 = c"
  proof (cases "?d = 146096")
    case True
    then have "c = 3" using assms len by linarith
    then show ?thesis using True by simp
  next
    case False
    have "1461 * a + 365 * b + k < 36524 \<and> ?d < 146096"
      using assms False by auto
    moreover from this have "?d div 36524 = c"
      by (intro int_div_pos_eq [where r = "1461 * a + 365 * b + k"]) (use assms in auto)
    moreover have "0 \<le> ?d" using assms by simp
    ultimately show ?thesis by simp
  qed
  have q: "0 \<le> k - ?q \<and> k - ?q < 365"
  proof (cases "24 * c + a + 365 * b + k < 1460")
    case True
    then have "?q = 0" using assms by simp
    then show ?thesis using assms True by auto
  next
    case False
    have "?q = 1" by (rule int_div_pos_eq [where r = "24 * c + a + 365 * b + k - 1460"]) (use assms len False in auto)
    then show ?thesis using assms len False by auto
  qed
  have "year_estimate ?d = ?d - (25 * c + a + ?q) + c"
    using d2 unfolding year_estimate_def d1 by simp
  then have "year_estimate ?d = 365 * (100 * c + 4 * a + b) + (k - ?q)"
    by (simp add: algebra_simps)
  then show ?thesis using q by (intro int_div_pos_eq [where r = "k - ?q"]) auto
qed

lemma cycle_day:
  fixes doe :: int
  assumes "0 \<le> doe" "doe < 146097"
  obtains c a b k where "0 \<le> c" "c \<le> 3" "0 \<le> a" "a \<le> 24" "0 \<le> b" "b \<le> 3" "0 \<le> k"
    "k < 365 \<or> k = 365 \<and> b = 3 \<and> (a < 24 \<or> c = 3)" "doe = 36524 * c + 1461 * a + 365 * b + k"
proof -
  define c where "c = min 3 (doe div 36524)"
  define r where "r = doe - 36524 * c"
  define a where "a = r div 1461"
  define s where "s = r mod 1461"
  define b where "b = min 3 (s div 365)"
  define k where "k = s - 365 * b"
  have c: "0 \<le> c" "c \<le> 3" using assms by (auto simp: c_def)
  have r: "0 \<le> r" "r < 36524 \<or> r = 36524 \<and> c = 3"
    using assms div_mult_mod_eq [of doe 36524] pos_mod_bound [of 36524 doe] pos_mod_sign [of 36524 doe]
    by (auto simp: r_def c_def min_def)
  have rs: "r = 1461 * a + s" "0 \<le> s" "s < 1461" by (auto simp: a_def s_def)
  have a: "0 \<le> a" "a \<le> 24" using r rs by auto
  have b: "0 \<le> b" "b \<le> 3" using rs by (auto simp: b_def)
  have k: "0 \<le> k" "k < 365 \<or> k = 365 \<and> b = 3"
    using rs div_mult_mod_eq [of s 365] pos_mod_bound [of 365 s] pos_mod_sign [of 365 s]
    by (auto simp: k_def b_def min_def)
  have "k < 365 \<or> k = 365 \<and> b = 3 \<and> (a < 24 \<or> c = 3)"
    using k(2) r rs a c b by (auto simp: k_def)
  moreover have "doe = 36524 * c + 1461 * a + 365 * b + k" using rs(1) by (simp add: r_def k_def)
  ultimately show thesis using that c a b k(1) by blast
qed


lemma month_day_row:
  assumes "153 * i \<le> 5 * k + 2" "5 * k + 2 < 153 * i + 153"
  shows "month_day k = (nat (if i < 10 then i + 3 else i - 9), nat (k - (153 * i + 2) div 5 + 1))"
proof -
  have "(5 * k + 2) div 153 = i"
    by (rule int_div_pos_eq [where r = "5 * k + 2 - 153 * i"]) (use assms in auto)
  then show ?thesis by (simp add: month_day_def)
qed

lemma month_day_table:
  assumes "0 \<le> k" "k \<le> 365"
  shows "month_day k =
    (if k < 31 then (3, nat (k + 1)) else if k < 61 then (4, nat (k - 30)) else if k < 92 then (5, nat (k - 60)) else 
     if k < 122 then (6, nat (k - 91)) else if k < 153 then (7, nat (k - 121)) else if k < 184 then (8, nat (k - 152)) else 
     if k < 214 then (9, nat (k - 183)) else if k < 245 then (10, nat (k - 213)) else if k < 275 then (11, nat (k - 244)) else 
     if k < 306 then (12, nat (k - 274)) else if k < 337 then (1, nat (k - 305)) else (2, nat (k - 336)))"
proof -
  consider "0 \<le> k \<and> k < 31" | "31 \<le> k \<and> k < 61" | "61 \<le> k \<and> k < 92" | "92 \<le> k \<and> k < 122"
    | "122 \<le> k \<and> k < 153" | "153 \<le> k \<and> k < 184" | "184 \<le> k \<and> k < 214" | "214 \<le> k \<and> k < 245"
    | "245 \<le> k \<and> k < 275" | "275 \<le> k \<and> k < 306" | "306 \<le> k \<and> k < 337" | "337 \<le> k \<and> k < 366"
   
    using assms by linarith
  then show ?thesis
  proof cases
    case 1 then show ?thesis using month_day_row [of 0 k] by simp
  next
    case 2 then show ?thesis using month_day_row [of 1 k] by simp
  next
    case 3 then show ?thesis using month_day_row [of 2 k] by simp
  next
    case 4 then show ?thesis using month_day_row [of 3 k] by simp
  next
    case 5 then show ?thesis using month_day_row [of 4 k] by simp
  next
    case 6 then show ?thesis using month_day_row [of 5 k] by simp
  next
    case 7 then show ?thesis using month_day_row [of 6 k] by simp
  next
    case 8 then show ?thesis using month_day_row [of 7 k] by simp
  next
    case 9 then show ?thesis using month_day_row [of 8 k] by simp
  next
    case 10 then show ?thesis using month_day_row [of 9 k] by simp
  next
    case 11 then show ?thesis using month_day_row [of 10 k] by simp
  next
    case 12 then show ?thesis using month_day_row [of 11 k] by simp
  qed
qed

text \<open>The years that start in March: day \<open>k\<close> of year \<open>Y\<close>, \<open>march_start Y\<close> days after March 1 of
  year 0.\<close>

definition march_start :: "int \<Rightarrow> int" where
  "march_start Y = 365 * Y + Y div 4 - Y div 100 + Y div 400"

definition march_length :: "int \<Rightarrow> int" where
  "march_length Y = (if leap (Y + 1) then 366 else 365)"

lemma succ_div: "0 < n \<Longrightarrow> (y + 1) div n = y div n + (if n dvd y + 1 then 1 else 0)" for y n :: int
proof -
  assume n: "0 < n"
  show ?thesis
  proof (cases "n dvd y + 1")
    case True
    then obtain q where q: "y + 1 = n * q" by (rule dvdE)
    then have "y div n = q - 1"
      by (intro int_div_pos_eq [where r = "n - 1"]) (use n in \<open>auto simp: algebra_simps\<close>)
    then show ?thesis using True q n by simp
  next
    case False
    then have "(y + 1) mod n \<noteq> 0" by (simp add: dvd_eq_mod_eq_0)
    then have "0 < (y + 1) mod n" using pos_mod_sign [OF n, of "y + 1"] by linarith
    then have "y div n = (y + 1) div n"
      by (intro int_div_pos_eq [where r = "(y + 1) mod n - 1"])
        (use mult_div_mod_eq [of n "y + 1"] pos_mod_bound [OF n, of "y + 1"] in linarith)+
    then show ?thesis using False by simp
  qed
qed

lemma leap_days:
  assumes "r \<Longrightarrow> q" "q \<Longrightarrow> p"
  shows "365 * (Y + 1) + (A + (if p then 1 else 0)) - (B + (if q then 1 else 0)) + (C + (if r then 1 else 0)) =
    365 * Y + A - B + C + (if p \<and> (\<not> q \<or> r) then 366 else (365 :: int))"
  using assms by auto

lemma march_start_succ: "march_start (Y + 1) = march_start Y + march_length Y"
proof -
  have "100 dvd Y + 1 \<Longrightarrow> 4 dvd Y + 1" by (rule dvd_trans [of 4 100]) simp_all
  moreover have "400 dvd Y + 1 \<Longrightarrow> 100 dvd Y + 1" by (rule dvd_trans [of 100 400]) simp_all
  ultimately show ?thesis
    unfolding march_start_def march_length_def leap_def
      succ_div [of 4 Y, simplified] succ_div [of 100 Y, simplified] succ_div [of 400 Y, simplified]
    by (intro leap_days)
qed

lemma march_start_mono: "X < Y \<Longrightarrow> march_start X + march_length X \<le> march_start Y"
proof -
  have "march_start (X + 1) \<le> march_start (X + 1 + int n)" for n
  proof (induction n)
    case (Suc n)
    have "march_start (X + 1 + int n) \<le> march_start (X + 1 + int n + 1)"
      using march_start_succ [of "X + 1 + int n"] by (simp add: march_length_def)
    with Suc show ?case by (simp add: algebra_simps)
  qed simp
  from this [of "nat (Y - X - 1)"] show "X < Y \<Longrightarrow> ?thesis" by (simp add: march_start_succ)
qed

lemma march_day_unique:
  assumes "march_start X + j = march_start Y + k"
    and "0 \<le> j" "j < march_length X" and "0 \<le> k" "k < march_length Y"
  shows "X = Y \<and> j = k"
  using march_start_mono [of X Y] march_start_mono [of Y X] assms by (cases X Y rule: linorder_cases) auto


lemma cycle_year_length:
  fixes a b c k era :: int
  assumes "0 \<le> a" "a \<le> 24" and "k < 365 \<or> k = 365 \<and> b = 3 \<and> (a < 24 \<or> c = 3)"
  shows "k < 365 \<or> k = 365 \<and> leap (era * 400 + (100 * c + (4 * a + b)) + 1)"
proof (cases "k < 365")
  case False
  with assms have k: "k = 365" "b = 3" "a < 24 \<or> c = 3" by auto
  let ?y = "era * 400 + (100 * c + (4 * a + b)) + 1"
  have y: "?y = 100 * (4 * era + c) + 4 * (a + 1)" using k by simp
  have "4 dvd ?y" unfolding y by (rule dvd_add) simp_all
  moreover have "\<not> 100 dvd ?y \<or> 400 dvd ?y"
  proof (cases "a < 24")
    case True
    then have "\<not> 100 dvd 4 * (a + 1)" using assms(1) by (intro zdvd_not_zless) auto
    then show ?thesis unfolding y by (simp add: dvd_add_right_iff)
  next
    case False
    then have "?y = 400 * (era + 1)" using k assms(2) by simp
    then show ?thesis by (metis dvd_triv_left)
  qed
  ultimately show ?thesis using k(1) by (simp add: leap_def)
qed simp

lemma civil_from_days_march:
  obtains Y k where "civil_from_days z = date_of Y k" "0 \<le> k" "k < march_length Y"
    "z + 719468 = march_start Y + k"
proof -
  define era where "era = (z + 719468) div 146097"
  define doe where "doe = (z + 719468) mod 146097"
  have doe: "0 \<le> doe" "doe < 146097" "z + 719468 = era * 146097 + doe"
    by (simp_all add: doe_def era_def)
  from cycle_day [OF doe(1,2)] obtain c a b k where d:
    "0 \<le> c" "c \<le> 3" "0 \<le> a" "a \<le> 24" "0 \<le> b" "b \<le> 3" "0 \<le> k"
    "k < 365 \<or> k = 365 \<and> b = 3 \<and> (a < 24 \<or> c = 3)" "doe = 36524 * c + 1461 * a + 365 * b + k" .
  define y where "y = 100 * c + 4 * a + b"
  have yoe: "year_estimate doe div 365 = y"
    unfolding y_def d(9) by (rule year_of_cycle_day) (use d in auto)
  have y4: "y div 4 = 25 * c + a"
    by (rule int_div_pos_eq [where r = b]) (use d in \<open>auto simp: y_def\<close>)
  have y100: "y div 100 = c"
    by (rule int_div_pos_eq [where r = "4 * a + b"]) (use d in \<open>auto simp: y_def\<close>)
  have doy: "doe - (365 * y + y div 4 - y div 100) = k"
    unfolding y4 y100 by (simp add: d(9) y_def)
  have y400: "(era * 400 + y) div 4 = era * 100 + y div 4" "(era * 400 + y) div 100 = era * 4 + y div 100"
    "(era * 400 + y) div 400 = era"
    by (rule int_div_pos_eq [where r = "y mod 4"] int_div_pos_eq [where r = "y mod 100"]
        int_div_pos_eq [where r = y]; use d in \<open>auto simp: y_def\<close>)+
  have start: "z + 719468 = march_start (era * 400 + y) + k"
    using doy doe(3) unfolding march_start_def y400 by (simp add: algebra_simps)
  have "0 \<le> k" by (rule d)
  moreover have "k < march_length (era * 400 + y)"
    using cycle_year_length [OF d(3,4,8), of era] by (auto simp: y_def add.assoc march_length_def)
  moreover have "civil_from_days z = date_of (era * 400 + y) k"
  proof -
    have "0 \<le> year_estimate doe" using yoe d by (auto simp: y_def pos_imp_zdiv_nonneg_iff)
    then have yoe': "(doe - doe sdiv 1460 + doe sdiv 36524 - doe sdiv 146096) sdiv 365 = y"
      using yoe doe(1) by (simp add: sdiv_nonneg year_estimate_def)
    have doy': "doe - (365 * y + y sdiv 4 - y sdiv 100) = k"
      using doy d by (simp add: sdiv_nonneg y_def)
    have doe': "z + 719468 - era * 146097 = doe" using doe by simp
    have mp: "(5 * k + 2) sdiv 153 = (5 * k + 2) div 153"
      "(153 * ((5 * k + 2) div 153) + 2) sdiv 5 = (153 * ((5 * k + 2) div 153) + 2) div 5"
      using d(7) by (simp_all add: sdiv_nonneg pos_imp_zdiv_nonneg_iff)
    show ?thesis
      unfolding civil_from_days_def Let_def era_floor era_def [symmetric] doe' yoe' doy' mp
        date_of_def month_day_def prod.case
      by (simp only: add.commute)
  qed
  ultimately show thesis using start that by blast
qed

text \<open>Within a year that starts in March, the next day is the next date; after its last day comes
  March 1 of the next one.\<close>

lemma date_of_next:
  assumes "0 \<le> k" "k < march_length Y"
  shows "next_date (date_of Y k) = (if k + 1 < march_length Y then date_of Y (k + 1) else date_of (Y + 1) 0)"
proof -
  have len: "k \<le> 365" "k = 365 \<Longrightarrow> march_length Y = 366" "365 \<le> march_length Y" "march_length Y \<le> 366"
    and leap: "leap (Y + 1) \<longleftrightarrow> march_length Y = 366"
    using assms by (auto simp: march_length_def split: if_splits)
  consider "0 \<le> k \<and> k < 30" | "k = 30" | "31 \<le> k \<and> k < 60" | "k = 60" | "61 \<le> k \<and> k < 91" | "k = 91" | 
    "92 \<le> k \<and> k < 121" | "k = 121" | "122 \<le> k \<and> k < 152" | "k = 152" | "153 \<le> k \<and> k < 183" | "k = 183" | 
    "184 \<le> k \<and> k < 213" | "k = 213" | "214 \<le> k \<and> k < 244" | "k = 244" | "245 \<le> k \<and> k < 274" | "k = 274" | 
    "275 \<le> k \<and> k < 305" | "k = 305" | "306 \<le> k \<and> k < 336" | "k = 336" | "337 \<le> k \<and> k < 364" | "k = 364" | 
    "k = 365"
    using assms(1) len(1) by atomize_elim presburger
  then show ?thesis
    by cases (use len in \<open>simp_all add: date_of_def month_day_table days_in_month_def leap\<close>, linarith+)
qed


lemma civil_from_days_next: "civil_from_days (z + 1) = next_date (civil_from_days z)"
proof -
  obtain Y k where Y: "civil_from_days z = date_of Y k" "0 \<le> k" "k < march_length Y"
    "z + 719468 = march_start Y + k" by (rule civil_from_days_march)
  obtain X j where X: "civil_from_days (z + 1) = date_of X j" "0 \<le> j" "j < march_length X"
    "z + 1 + 719468 = march_start X + j" by (rule civil_from_days_march)
  show ?thesis
  proof (cases "k + 1 < march_length Y")
    case True
    have "X = Y \<and> j = k + 1"
      by (rule march_day_unique) (use X Y True in auto)
    then show ?thesis using X(1) Y(1) date_of_next [OF Y(2,3)] True by simp
  next
    case False
    then have "k + 1 = march_length Y" using Y(3) by simp
    then have "X = Y + 1 \<and> j = 0"
      by (intro march_day_unique) (use X Y in \<open>auto simp: march_start_succ march_length_def\<close>)
    then show ?thesis using X(1) Y(1) date_of_next [OF Y(2,3)] False by simp
  qed
qed

lemma civil_from_days_epoch: "civil_from_days 0 = (1970, 1, 1)"
  by code_simp

lemma funpow_next_add: "(next_date ^^ (m + n)) d = (next_date ^^ n) ((next_date ^^ m) d)"
  by (simp add: add.commute [of m n] funpow_add)

text \<open>Dates in the order of the calendar.\<close>

fun earlier :: "int \<times> nat \<times> nat \<Rightarrow> int \<times> nat \<times> nat \<Rightarrow> bool" where
  "earlier (y, m, d) (y', m', d') \<longleftrightarrow> y < y' \<or> y = y' \<and> (m < m' \<or> m = m' \<and> d < d')"

lemma earlier_trans: "earlier a b \<Longrightarrow> earlier b c \<Longrightarrow> earlier a c"
  by (cases a; cases b; cases c) auto

lemma earlier_irrefl: "\<not> earlier a a"
  by (cases a) simp

fun valid_date :: "int \<times> nat \<times> nat \<Rightarrow> bool" where
  "valid_date (y, m, d) \<longleftrightarrow> 1 \<le> m \<and> m \<le> 12 \<and> 1 \<le> d \<and> d \<le> days_in_month y m"

lemma next_date_valid: "valid_date d \<Longrightarrow> valid_date (next_date d)"
  by (cases d) (auto simp: days_in_month_def)

lemma earlier_next: "valid_date d \<Longrightarrow> earlier d (next_date d)"
  by (cases d) auto

lemma funpow_valid: "valid_date d \<Longrightarrow> valid_date ((next_date ^^ n) d)"
  by (induction n) (auto intro: next_date_valid simp del: valid_date.simps next_date.simps)

lemma epoch_valid: "valid_date (1970, 1, 1)"
  by (simp add: days_in_month_def)

lemma civil_from_days_funpow: "civil_from_days (int n) = (next_date ^^ n) (1970, 1, 1)"
proof (induction n)
  case (Suc n)
  then show ?case using civil_from_days_next [of "int n"] by (simp add: add.commute del: next_date.simps)
qed (simp add: civil_from_days_epoch)

lemma civil_from_days_mono: "m < n \<Longrightarrow> earlier (civil_from_days (int m)) (civil_from_days (int n))"
proof (induction n)
  case (Suc n)
  have "earlier (civil_from_days (int n)) (civil_from_days (int (Suc n)))"
    using earlier_next [OF funpow_valid [OF epoch_valid, of n]] civil_from_days_funpow [of n] civil_from_days_funpow [of "Suc n"]
    by (simp del: next_date.simps)
  with Suc show ?case by (cases "m = n") (auto intro: earlier_trans)
qed simp

section \<open>Properties\<close>

text \<open>C28: the calendar conversion of the build script is the calendar. The arithmetic in eras of 400
  years gives January 1 1970 for day 0, for any number of days what counting the days one at a time
  from there gives, and also before the epoch one day more is the next date and every date
  exists.\<close>

theorem civil_from_days_is_calendar:
  "civil_from_days (int n) = (next_date ^^ n) (1970, 1, 1) \<and>
   civil_from_days (z + 1) = next_date (civil_from_days z) \<and>
   (case civil_from_days z of (y, m, d) \<Rightarrow> 1 \<le> m \<and> m \<le> 12 \<and> 1 \<le> d \<and> d \<le> days_in_month y m)"
proof -
  have "valid_date (civil_from_days z)" if "civil_from_days z = date_of Y k" "0 \<le> k" "k < march_length Y" for Y k
  proof -
    have "0 \<le> k" "k < 365 \<or> k = 365 \<and> leap (Y + 1)"
      using that by (auto simp: march_length_def split: if_splits)
    then show ?thesis
      by (auto simp: that(1) date_of_def month_day_table days_in_month_def)
  qed
  then have "valid_date (civil_from_days z)" by (meson civil_from_days_march)
  then show ?thesis
    by (auto simp: civil_from_days_funpow civil_from_days_next split: prod.splits simp del: next_date.simps)
qed


lemma show_nat_digits: "\<forall>c \<in> set (show_nat n). digit_value 10 c \<noteq> None" and show_nat_not_Nil: "show_nat n \<noteq> []"
  using show_base_digits [of 10 n] by (simp_all add: show_nat_def)

lemma show_nat_inject: "show_nat m = show_nat n \<longleftrightarrow> m = n"
  using show_base_digits [of 10 m] show_base_digits [of 10 n] unfolding show_nat_def by metis

lemma digit_value_no_sign: "digit_value 10 c \<noteq> None \<Longrightarrow> c \<noteq> CHR ''-'' \<and> c \<noteq> CHR ''.''"
  by (auto simp: digit_value_def)

lemma show_int_inject: "show_int i = show_int j \<longleftrightarrow> i = j"
proof -
  have "CHR ''-'' \<notin> set (show_nat n)" for n using show_nat_digits [of n] digit_value_no_sign by blast
  then have "''-'' @ s \<noteq> show_nat n" "show_nat n \<noteq> ''-'' @ s" for s n by (metis append_Cons list.set_intros(1))+
  then show ?thesis by (auto simp: show_int_def show_nat_inject simp flip: append_Cons)
qed

lemma pad2_inject: "pad2 m = pad2 n \<longleftrightarrow> m = n"
proof -
  have "length (show_nat k) = 1" if "k < 10" for k using that by (simp add: show_nat_def show_base_small)
  moreover have "hd (show_nat k) = CHR ''0'' \<longleftrightarrow> k = 0" for k
    using show_base_digits [of 10 k] by (simp add: show_nat_def)
  ultimately have "CHR ''0'' # s \<noteq> show_nat k" "show_nat k \<noteq> CHR ''0'' # s" if "\<not> k < 10" for s k
    using that by (metis list.sel(1) zero_less_numeral)+
  then show ?thesis by (auto simp: pad2_def show_nat_inject)
qed

lemma no_dots: "CHR ''.'' \<notin> set (show_int i)" "CHR ''.'' \<notin> set (pad2 n)" "CHR ''.'' \<notin> set (show_nat n)"
  using show_nat_digits digit_value_no_sign by (auto simp: show_int_def pad2_def)

lemma compute_version_inject:
  "compute_version (Some s) = compute_version (Some t) \<longleftrightarrow> version_parts s = version_parts t"
proof -
  obtain y m h where s: "version_parts s = (y, m, h)" by (cases "version_parts s")
  obtain y' m' h' where t: "version_parts t = (y', m', h')" by (cases "version_parts t")
  have "compute_version (Some s) = join ''.'' [show_int y, pad2 m, show_nat h]"
    "compute_version (Some t) = join ''.'' [show_int y', pad2 m', show_nat h']"
    by (simp_all add: compute_version_def s t)
  moreover have "split_on (\<lambda>c. c = CHR ''.'') (join ''.'' [show_int y, pad2 m, show_nat h]) =
      [show_int y, pad2 m, show_nat h]" for y m h
    by (rule split_on_join) (use no_dots in auto)
  ultimately show ?thesis
    using s t by (metis list.inject prod.inject show_int_inject pad2_inject show_nat_inject)
qed

lemma civil_from_days_day: "1 \<le> snd (snd (civil_from_days (int n)))"
  using funpow_valid [OF epoch_valid, of n]
  by (cases "(next_date ^^ n) (1970, 1, 1)") (simp add: civil_from_days_funpow del: next_date.simps)

lemma earlier_hours:
  assumes "earlier (civil_from_days (int m)) (civil_from_days (int n))" and "h < 24"
    and "civil_from_days (int m) = (y, mo, d)" and "civil_from_days (int n) = (y', mo', d')"
  shows "earlier (y, mo, (d - 1) * 24 + h) (y', mo', (d' - 1) * 24 + h')"
  using assms civil_from_days_day [of m] civil_from_days_day [of n] by auto

lemma div_hours:
  "n div 86400 = n div 3600 div 24" "n mod 86400 div 3600 = n div 3600 mod (24 :: nat)"
  using div_mult2_eq [of n 3600 24] mod_mult2_eq [of n 3600 24] by simp_all

lemma version_parts_hour:
  assumes "u div 3600 < v div (3600 :: nat)" "u = unat s" "v = unat t"
  shows "earlier (version_parts s) (version_parts t)"
proof -
  let ?H = "\<lambda>n :: nat. n mod 86400 div 3600"
  have H: "?H n < 24" for n by (simp add: div_hours)
  have parts: "version_parts s = (case civil_from_days (int (unat s div 86400)) of
      (y, m, d) \<Rightarrow> (y, m, (d - 1) * 24 + ?H (unat s)))" for s
    by (simp add: version_parts_def Let_def unat_div unat_mod)
  obtain y mo d where c: "civil_from_days (int (u div 86400)) = (y, mo, d)" by (cases "civil_from_days (int (u div 86400))")
  obtain y' mo' d' where c': "civil_from_days (int (v div 86400)) = (y', mo', d')" by (cases "civil_from_days (int (v div 86400))")
  have "u div 3600 = 24 * (u div 3600 div 24) + u div 3600 mod 24" "v div 3600 = 24 * (v div 3600 div 24) + v div 3600 mod 24"
    by simp_all
  then have "u div 3600 div 24 < v div 3600 div 24 \<or>
      u div 3600 div 24 = v div 3600 div 24 \<and> u div 3600 mod 24 < v div 3600 mod 24"
    using assms(1) div_le_mono [OF less_imp_le [OF assms(1)], of 24] by (metis le_less nat_add_left_cancel_less)
  then have "u div 86400 < v div 86400 \<or> u div 86400 = v div 86400 \<and> ?H u < ?H v"
    unfolding div_hours .
  then show ?thesis
  proof
    assume "u div 86400 < v div 86400"
    then have "earlier (civil_from_days (int (u div 86400))) (civil_from_days (int (v div 86400)))"
      by (rule civil_from_days_mono)
    from earlier_hours [OF this H c c'] show ?thesis
      using c c' by (simp add: parts assms(2,3))
  next
    assume "u div 86400 = v div 86400 \<and> ?H u < ?H v"
    then show ?thesis using c c' by (simp add: parts assms(2,3))
  qed
qed

text \<open>The version of a build tells its hour. Of two builds on whatever clocks, the version of
  one comes before that of the other, comparing year, then month, then number, exactly when its
  hour does, and the version strings are the same exactly when the hours are.\<close>

theorem versions_follow_the_clock:
  "(earlier (version_parts s) (version_parts t) \<longleftrightarrow> s div 3600 < t div 3600) \<and>
   (compute_version (Some s) = compute_version (Some t) \<longleftrightarrow> s div 3600 = t div 3600)"
proof -
  have less: "s div 3600 < t div 3600 \<longleftrightarrow> unat s div 3600 < unat t div 3600" for s t :: u64
    by (simp add: word_less_nat_alt unat_div)
  have eq: "s div 3600 = t div 3600 \<longleftrightarrow> unat s div 3600 = unat t div 3600"
    by (simp add: word_unat_eq_iff unat_div)
  have hour: "earlier (version_parts s) (version_parts t)" if "unat s div 3600 < unat t div 3600" for s t
    using that by (intro version_parts_hour) auto
  have same: "version_parts s = version_parts t" if "unat s div 3600 = unat t div 3600"
  proof -
    have "unat s div 86400 = unat t div 86400" "unat s mod 86400 div 3600 = unat t mod 86400 div 3600"
      unfolding div_hours that by (rule refl)+
    then show ?thesis by (simp add: version_parts_def Let_def unat_div unat_mod)
  qed
  consider "unat s div 3600 < unat t div 3600" | "unat s div 3600 = unat t div 3600"
    | "unat t div 3600 < unat s div 3600" by linarith
  then show ?thesis
  proof cases
    case 1
    from hour [OF 1] have "version_parts s \<noteq> version_parts t" using earlier_irrefl by metis
    with 1 hour [OF 1] show ?thesis unfolding less eq compute_version_inject by simp
  next
    case 2
    with same show ?thesis unfolding less eq compute_version_inject by (simp add: earlier_irrefl)
  next
    case 3
    have "\<not> earlier (version_parts s) (version_parts t)" "version_parts s \<noteq> version_parts t"
      using hour [OF 3] earlier_irrefl earlier_trans by metis+
    with 3 show ?thesis unfolding less eq compute_version_inject by simp
  qed
qed

end
