(* ===== verification/Embed.thy ===== *)
theory Embed
  imports Args Utf8
begin

text \<open>
  The bundled programs: how the build script compiles the sources named in
  \<open>example-programs/embedded.list\<close> and embeds them (\<open>src/build.rs\<close>), how the binary looks them up
  (\<open>src/embedded_programs.rs\<close>), which program \<open>netmap\<close> and \<open>chat\<close> run, and how
  \<open>extract-programs\<close> writes them out. The file system, the compiler (any command) and the escaping
  of a path in the generated table are the environment's.
\<close>

section \<open>Lines and words\<close>

text \<open>\<open>str::lines\<close>: a carriage return goes with the line feed after it, and nothing follows the last
  line feed.\<close>

definition strip_cr :: "string \<Rightarrow> string" where
  "strip_cr l = (if l \<noteq> [] \<and> last l = CHR 0x0D then butlast l else l)"

definition text_lines :: "string \<Rightarrow> string list" where
  "text_lines s =
     (let pieces = split_on (\<lambda>c. c = CHR 0x0A) s
      in map strip_cr (butlast pieces) @ (if last pieces = [] then [] else [last pieces]))"

definition trim_start :: "string \<Rightarrow> string" where
  "trim_start s = text_of_bytes (trim_start_bytes (as_bytes s))"

definition strip_prefix :: "string \<Rightarrow> string \<Rightarrow> string option" where
  "strip_prefix p s = (if take (length p) s = p then Some (drop (length p) s) else None)"

fun word_len :: "bytes \<Rightarrow> nat" where
  "word_len [] = 0"
| "word_len (b # bs) = (if ws_len (\<lambda>n. take n (b # bs)) \<noteq> 0 then 0 else Suc (word_len bs))"

lemma length_trim_start_bytes: "length (trim_start_bytes bs) \<le> length bs"
proof (induction bs rule: trim_start_bytes.induct)
  case (1 bs)
  then show ?case
    by (subst trim_start_bytes.simps)
      (auto simp: Let_def intro: order_trans [OF _ diff_le_self])
qed

lemma trim_start_bytes_head: "trim_start_bytes bs = c # cs \<Longrightarrow> ws_len (\<lambda>n. take n (c # cs)) = 0"
proof (induction bs rule: trim_start_bytes.induct)
  case (1 bs)
  then show ?case
    by (subst (asm) (2) trim_start_bytes.simps) (auto simp: Let_def split: if_splits)
qed

function whitespace_words :: "bytes \<Rightarrow> bytes list" where
  "whitespace_words bs =
     (let rest = trim_start_bytes bs; k = word_len rest
      in if rest = [] then [] else take k rest # whitespace_words (drop k rest))"
  by pat_completeness auto
termination
proof (relation "measure length")
  fix bs rest k
  assume *: "rest = trim_start_bytes bs" "k = word_len rest" "rest \<noteq> []"
  from *(3) obtain c cs where c: "rest = c # cs" by (auto simp: neq_Nil_conv)
  with * have "ws_len (\<lambda>n. take n (c # cs)) = 0" using trim_start_bytes_head [of bs c cs] by simp
  then have "0 < k" using *(2) c *(1) by (metis word_len.simps(2) zero_less_Suc)
  then have "length (drop k rest) < length rest" using *(3) by simp
  also have "\<dots> \<le> length bs" using length_trim_start_bytes * by simp
  finally show "(drop k rest, bs) \<in> measure length" by simp
qed simp

declare whitespace_words.simps [simp del]

definition split_whitespace :: "string \<Rightarrow> string list" where
  "split_whitespace s = map text_of_bytes (whitespace_words (as_bytes s))"

section \<open>The build script\<close>

datatype run_result = SpawnFailed | Exited bool

record build_env =
  be_platform :: platform
  be_read_to_string :: "string \<Rightarrow> string option"
  be_exists :: "string \<Rightarrow> bool"
  be_run :: "string list \<Rightarrow> run_result"
  be_produced :: "string \<Rightarrow> bool"
  be_debug :: "string \<Rightarrow> string"

definition read_embed_list :: "build_env \<Rightarrow> string \<Rightarrow> string list" where
  "read_embed_list e list_path =
     (case be_read_to_string e list_path of
        Some contents \<Rightarrow> filter (\<lambda>l. l \<noteq> [] \<and> hd l \<noteq> CHR ''#'') (map trim (text_lines contents))
      | None \<Rightarrow> [])"

definition default_compile_command :: string where
  "default_compile_command = ''zig cc -target wasm32-wasi -O2 -o OUT_FILE THIS_FILE''"

definition compile_command_for :: "build_env \<Rightarrow> string \<Rightarrow> string list" where
  "compile_command_for e source =
     (let line =
        (case Option.bind (be_read_to_string e source) (\<lambda>src.
            case List.map_filter (\<lambda>l. map_option trim (strip_prefix ''// COMPILE:'' (trim_start l))) (text_lines src) of
              c # _ \<Rightarrow> Some c
            | [] \<Rightarrow> None) of
           Some c \<Rightarrow> c
         | None \<Rightarrow> default_compile_command)
      in split_whitespace line)"

datatype compile_error = EmptyCommand | FailedToRun | ExitFailure | NotProduced

definition compile_one :: "build_env \<Rightarrow> string \<Rightarrow> string \<Rightarrow> compile_error + unit" where
  "compile_one e source out_wasm =
     (let argv = map (\<lambda>tok. if tok = ''THIS_FILE'' then source else if tok = ''OUT_FILE'' then out_wasm else tok)
                   (compile_command_for e source)
      in if argv = [] then Inl EmptyCommand
         else case be_run e argv of
           SpawnFailed \<Rightarrow> Inl FailedToRun
         | Exited success \<Rightarrow>
             if \<not> success then Inl ExitFailure
             else if \<not> be_produced e out_wasm then Inl NotProduced
             else Inr ())"

datatype build_line =
    RerunIfChanged string
  | NoSource string string
  | NotEmbedded string compile_error

definition embed_one :: "build_env \<Rightarrow> string \<Rightarrow> string \<Rightarrow> string \<Rightarrow> build_line list \<times> (string \<times> string) list" where
  "embed_one e examples_dir out_dir name =
     (let join = path_join (be_platform e);
          source = join examples_dir (name @ ''.c'');
          out_wasm = join out_dir (name @ ''.wasm'')
      in if \<not> be_exists e source then ([RerunIfChanged source, NoSource name source], [])
         else case compile_one e source out_wasm of
           Inr _ \<Rightarrow> ([RerunIfChanged source], [(name, out_wasm)])
         | Inl err \<Rightarrow> ([RerunIfChanged source, NotEmbedded name err], []))"

definition generated_table :: "build_env \<Rightarrow> (string \<times> string) list \<Rightarrow> string" where
  "generated_table e entries =
     ''// @generated by build.rs from example-programs/embedded.list '' @
     map char_of_byte [0xE2, 0x80, 0x94] @ '' do not edit.'' @ [CHR 0x0A] @
     ''pub static EMBEDDED_PROGRAMS: &[(&str, &[u8])] = &['' @ [CHR 0x0A] @
     concat (map (\<lambda>(name, path).
        ''    ('' @ be_debug e name @ '', include_bytes!('' @ be_debug e path @ '')),'' @ [CHR 0x0A]) entries) @
     ''];'' @ [CHR 0x0A]"

definition embed_example_programs ::
  "build_env \<Rightarrow> string \<Rightarrow> string \<Rightarrow> build_line list \<times> (string \<times> string) list \<times> (string \<times> string)" where
  "embed_example_programs e manifest_dir out_dir =
     (let join = path_join (be_platform e);
          examples_dir = join manifest_dir ''example-programs'';
          list_path = join examples_dir ''embedded.list'';
          results = map (embed_one e examples_dir out_dir) (read_embed_list e list_path);
          entries = concat (map snd results)
      in (RerunIfChanged list_path # concat (map fst results), entries,
          (join out_dir ''embedded_programs.rs'', generated_table e entries)))"

section \<open>The programs in the binary\<close>

text \<open>\<open>include_bytes!\<close> reads the files the table names when the crate is compiled.\<close>

definition embedded_programs :: "(string \<Rightarrow> bytes) \<Rightarrow> (string \<times> string) list \<Rightarrow> (string \<times> bytes) list" where
  "embedded_programs include_bytes entries = map (\<lambda>(name, path). (name, include_bytes path)) entries"

definition embedded_get :: "(string \<times> bytes) list \<Rightarrow> string \<Rightarrow> bytes option" where
  "embedded_get table name = map_option snd (find (\<lambda>(n, _). n = name) table)"

datatype program_source = OverrideFile string | EmbeddedProgram string | OnDisk string

datatype resolve_error = CouldNotRead string | NoProgram string

text \<open>\<open>rf_read\<close> reads a file. Both commands resolve their program alike.\<close>

definition resolve_program ::
  "platform \<Rightarrow> (string \<Rightarrow> bytes option) \<Rightarrow> (string \<times> bytes) list \<Rightarrow> string \<Rightarrow> string option \<Rightarrow>
   resolve_error + (bytes \<times> program_source)" where
  "resolve_program p rf_read table embedded_name program =
     (case program of
        Some path \<Rightarrow>
          (case rf_read path of
             Some bytes \<Rightarrow> Inr (bytes, OverrideFile path)
           | None \<Rightarrow> Inl (CouldNotRead path))
      | None \<Rightarrow>
          (case embedded_get table embedded_name of
             Some bytes \<Rightarrow> Inr (bytes, EmbeddedProgram embedded_name)
           | None \<Rightarrow>
               (let fallback = path_join p (path_join p ''target'' ''example-programs'') (embedded_name @ ''.wasm'')
                in case rf_read fallback of
                     Some bytes \<Rightarrow> Inr (bytes, OnDisk fallback)
                   | None \<Rightarrow> Inl (NoProgram fallback))))"

definition resolve_discovery_program where
  "resolve_discovery_program p rf_read table program = resolve_program p rf_read table ''network-map'' program"

definition resolve_chat_program where
  "resolve_chat_program p rf_read table program = resolve_program p rf_read table ''chat'' program"

text \<open>The writes of \<open>extract-programs\<close>, and whether the command succeeded.\<close>

fun write_programs ::
  "platform \<Rightarrow> (string \<Rightarrow> bool) \<Rightarrow> string \<Rightarrow> (string \<times> bytes) list \<Rightarrow> (string \<times> bytes) list \<times> bool" where
  "write_programs p writable out_dir [] = ([], True)"
| "write_programs p writable out_dir ((name, bytes) # programs) =
     (let dest = path_join p out_dir (name @ ''.wasm'')
      in if writable dest
         then case write_programs p writable out_dir programs of (ws, ok) \<Rightarrow> ((dest, bytes) # ws, ok)
         else ([], False))"

definition extract_programs ::
  "platform \<Rightarrow> bool \<Rightarrow> (string \<Rightarrow> bool) \<Rightarrow> (string \<times> bytes) list \<Rightarrow> string \<Rightarrow> (string \<times> bytes) list \<times> bool" where
  "extract_programs p dir_created writable programs out_dir =
     (if programs = [] then ([], True)
      else if \<not> dir_created then ([], False)
      else write_programs p writable out_dir programs)"

section \<open>Lemmas\<close>

definition compiles :: "build_env \<Rightarrow> string \<Rightarrow> string \<Rightarrow> string \<Rightarrow> bool" where
  "compiles e examples_dir out_dir name \<longleftrightarrow>
     (let join = path_join (be_platform e); source = join examples_dir (name @ ''.c'')
      in be_exists e source \<and> compile_one e source (join out_dir (name @ ''.wasm'')) = Inr ())"

definition program_built :: "build_env \<Rightarrow> string \<Rightarrow> string \<Rightarrow> string \<Rightarrow> bool" where
  "program_built e manifest_dir out_dir name \<longleftrightarrow>
     (let examples_dir = path_join (be_platform e) manifest_dir ''example-programs''
      in name \<in> set (read_embed_list e (path_join (be_platform e) examples_dir ''embedded.list'')) \<and>
         compiles e examples_dir out_dir name)"

lemma embed_one_entries:
  "snd (embed_one e ex out name) =
     (if compiles e ex out name then [(name, path_join (be_platform e) out (name @ ''.wasm''))] else [])"
  by (auto simp: embed_one_def compiles_def Let_def split: sum.splits)

lemma find_first_key: "map_option snd (find (\<lambda>(n, _). n = k) xs) = map_of xs k"
  by (induction xs) auto

lemma map_of_concat_singletons:
  "map_of (map (\<lambda>(n, p). (n, g p)) (concat (map (\<lambda>n. if P n then [(n, f n)] else []) names))) k =
     (if k \<in> set names \<and> P k then Some (g (f k)) else None)"
  by (induction names) auto


lemma embedded_table:
  "embedded_get (embedded_programs include_bytes (fst (snd (embed_example_programs e manifest_dir out_dir)))) name =
     (if program_built e manifest_dir out_dir name
      then Some (include_bytes (path_join (be_platform e) out_dir (name @ ''.wasm''))) else None)"
proof -
  have "snd \<circ> embed_one e ex out_dir =
      (\<lambda>n. if compiles e ex out_dir n then [(n, path_join (be_platform e) out_dir (n @ ''.wasm''))] else [])" for ex
    by (rule ext) (simp add: embed_one_entries)
  then show ?thesis
    by (simp add: embed_example_programs_def embedded_get_def embedded_programs_def find_first_key Let_def
        map_of_concat_singletons program_built_def)
qed

lemma write_programs_prefix:
  "write_programs p writable out_dir programs =
     (let files = map (\<lambda>(name, bytes). (path_join p out_dir (name @ ''.wasm''), bytes)) programs;
          written = takeWhile (\<lambda>(dest, _). writable dest) files
      in (written, written = files))"
  by (induction programs) (auto simp: Let_def split: prod.splits)

section \<open>Properties\<close>


end
