(* ===== verification/Service.thy ===== *)
theory Service
  imports Args
begin

text \<open>
  The commands that change the machine: \<open>daemon\<close> (\<open>src/command/daemon.rs\<close>) on systemd, launchd and
  the Windows Task Scheduler, the firewall step it shares with \<open>serve\<close> (\<open>src/firewall.rs\<close>), and
  \<open>install-to\<close> (\<open>src/command/install_to.rs\<close>). What they do to the machine is a list of actions; what
  comes of an action is the environment's answer, which may depend on all that was done before.
\<close>

section \<open>Actions\<close>

datatype action =
    CreateDir string
  | WriteText string string
  | WriteBytes string bytes
  | RemoveFile string
  | Copy string string
  | SetMode string u32
  | Sh string "string list"
  | RunStatus string "string list"

text \<open>\<open>Done b\<close>: the action took place, and a command exited with success exactly when \<open>b\<close>.\<close>

datatype outcome = CouldNot | Done bool

record service_env =
  se_args :: args_env
  se_exe :: "string option"
  se_perform :: "action list \<Rightarrow> action \<Rightarrow> outcome"
  se_mode :: "action list \<Rightarrow> string \<Rightarrow> u32 option"
  se_same_file :: "action list \<Rightarrow> string \<Rightarrow> string \<Rightarrow> bool"

abbreviation se_platform :: "service_env \<Rightarrow> platform" where
  "se_platform e \<equiv> ae_platform (se_args e)"

fun succeeded :: "action \<Rightarrow> outcome \<Rightarrow> bool" where
  "succeeded _ CouldNot = False"
| "succeeded (Sh _ _) (Done b) = b"
| "succeeded _ (Done _) = True"

text \<open>A step whose error ends the operation, or one made as best effort.\<close>

datatype step = Must action | Try action

fun run_steps :: "service_env \<Rightarrow> action list \<Rightarrow> step list \<Rightarrow> action list \<times> bool" where
  "run_steps e log [] = (log, True)"
| "run_steps e log (Must a # steps) =
     (if succeeded a (se_perform e log a) then run_steps e (log @ [a]) steps else (log @ [a], False))"
| "run_steps e log (Try a # steps) = run_steps e (log @ [a]) steps"

section \<open>The backends of the daemon command\<close>

definition installed_config_path :: "args_env \<Rightarrow> string option" where
  "installed_config_path a =
     Option.bind (ae_exe_dir a) (\<lambda>dir.
       ae_canonicalize a (foldl (path_join (ae_platform a)) dir [''..'', ''etc'', ''weverywhere.toml'']))"

definition serve_args_vec :: "args_env \<Rightarrow> string list" where
  "serve_args_vec a =
     (case installed_config_path a of
        Some cfg \<Rightarrow> [''--config'', cfg, ''serve'']
      | None \<Rightarrow> [''serve''])"

definition text_block :: "string list \<Rightarrow> string" where
  "text_block ls = concat (map (\<lambda>l. l @ [CHR 0x0A]) ls)"

subsection \<open>systemd\<close>

definition SERVICE :: string where "SERVICE = ''weverywhere''"
definition UNIT_PATH :: string where "UNIT_PATH = ''/etc/systemd/system/weverywhere.service''"

definition exec_start :: "string \<Rightarrow> args_env \<Rightarrow> string" where
  "exec_start exe a = exe @ '' '' @ join '' '' (serve_args_vec a)"

definition unit_file :: "string \<Rightarrow> args_env \<Rightarrow> string" where
  "unit_file exe a = text_block
     [''[Unit]'',
      ''Description=weverywhere WASI fabric daemon'',
      ''After=network-online.target'',
      ''Wants=network-online.target'',
      [],
      ''[Service]'',
      ''Type=simple'',
      ''ExecStart='' @ exec_start exe a,
      ''Restart=on-failure'',
      ''RestartSec=2'',
      [],
      ''[Install]'',
      ''WantedBy=multi-user.target'']"

fun linux_steps :: "string \<Rightarrow> args_env \<Rightarrow> daemon_action \<Rightarrow> step list" where
  "linux_steps exe a DInstall =
     [Must (WriteText UNIT_PATH (unit_file exe a)),
      Must (Sh ''systemctl'' [''daemon-reload'']),
      Must (Sh ''systemctl'' [''enable'', ''--now'', SERVICE])]"
| "linux_steps exe a DUninstall =
     [Try (Sh ''systemctl'' [''disable'', ''--now'', SERVICE]),
      Try (RemoveFile UNIT_PATH),
      Must (Sh ''systemctl'' [''daemon-reload''])]"
| "linux_steps exe a DStart = [Must (Sh ''systemctl'' [''start'', SERVICE])]"
| "linux_steps exe a DStop = [Must (Sh ''systemctl'' [''stop'', SERVICE])]"
| "linux_steps exe a DRestart = [Must (Sh ''systemctl'' [''restart'', SERVICE])]"
| "linux_steps exe a DStatus = [Try (Sh ''systemctl'' [''status'', ''--no-pager'', SERVICE])]"

subsection \<open>launchd\<close>

definition LABEL :: string where "LABEL = ''com.weverywhere.daemon''"
definition PLIST_PATH :: string where "PLIST_PATH = ''/Library/LaunchDaemons/com.weverywhere.daemon.plist''"

definition string_element :: "string \<Rightarrow> string" where
  "string_element s = ''    <string>'' @ s @ ''</string>'' @ [CHR 0x0A]"

definition quoted :: "string \<Rightarrow> string" where
  "quoted s = [CHR 0x22] @ s @ [CHR 0x22]"

definition plist_file :: "string \<Rightarrow> args_env \<Rightarrow> string" where
  "plist_file exe a =
     text_block
       [''<?xml version='' @ quoted ''1.0'' @ '' encoding='' @ quoted ''UTF-8'' @ ''?>'',
        ''<!DOCTYPE plist PUBLIC '' @ quoted ''-//Apple//DTD PLIST 1.0//EN'' @ '' '' @
          quoted ''http://www.apple.com/DTDs/PropertyList-1.0.dtd'' @ ''>'',
        ''<plist version='' @ quoted ''1.0'' @ ''>'',
        ''<dict>'',
        ''  <key>Label</key><string>'' @ LABEL @ ''</string>'',
        ''  <key>ProgramArguments</key>'',
        ''  <array>''] @
     concat (map string_element (exe # serve_args_vec a)) @
     text_block
       [''  </array>'',
        ''  <key>RunAtLoad</key><true/>'',
        ''  <key>KeepAlive</key><true/>'',
        ''  <key>StandardOutPath</key><string>/var/log/weverywhere.log</string>'',
        ''  <key>StandardErrorPath</key><string>/var/log/weverywhere.log</string>'',
        ''</dict>'',
        ''</plist>'']"

fun macos_steps :: "string \<Rightarrow> args_env \<Rightarrow> daemon_action \<Rightarrow> step list" where
  "macos_steps exe a DInstall =
     [Must (WriteText PLIST_PATH (plist_file exe a)),
      Must (Sh ''launchctl'' [''load'', ''-w'', PLIST_PATH])]"
| "macos_steps exe a DUninstall =
     [Try (Sh ''launchctl'' [''unload'', ''-w'', PLIST_PATH]),
      Try (RemoveFile PLIST_PATH)]"
| "macos_steps exe a DStart = [Must (Sh ''launchctl'' [''start'', LABEL])]"
| "macos_steps exe a DStop = [Must (Sh ''launchctl'' [''stop'', LABEL])]"
| "macos_steps exe a DRestart =
     [Try (Sh ''launchctl'' [''stop'', LABEL]),
      Must (Sh ''launchctl'' [''start'', LABEL])]"
| "macos_steps exe a DStatus = [Try (Sh ''launchctl'' [''list'', LABEL])]"

subsection \<open>Task Scheduler\<close>

definition TASK :: string where "TASK = ''weverywhere''"

definition task_command :: "string \<Rightarrow> args_env \<Rightarrow> string" where
  "task_command exe a = quoted exe @ '' '' @ join '' '' (serve_args_vec a)"

fun windows_steps :: "string \<Rightarrow> args_env \<Rightarrow> daemon_action \<Rightarrow> step list" where
  "windows_steps exe a DInstall =
     [Must (Sh ''schtasks'' [''/create'', ''/tn'', TASK, ''/tr'', task_command exe a,
        ''/sc'', ''onstart'', ''/ru'', ''SYSTEM'', ''/rl'', ''HIGHEST'', ''/f'']),
      Try (Sh ''schtasks'' [''/run'', ''/tn'', TASK])]"
| "windows_steps exe a DUninstall =
     [Try (Sh ''schtasks'' [''/end'', ''/tn'', TASK]),
      Must (Sh ''schtasks'' [''/delete'', ''/tn'', TASK, ''/f''])]"
| "windows_steps exe a DStart = [Must (Sh ''schtasks'' [''/run'', ''/tn'', TASK])]"
| "windows_steps exe a DStop = [Must (Sh ''schtasks'' [''/end'', ''/tn'', TASK])]"
| "windows_steps exe a DRestart =
     [Try (Sh ''schtasks'' [''/end'', ''/tn'', TASK]),
      Must (Sh ''schtasks'' [''/run'', ''/tn'', TASK])]"
| "windows_steps exe a DStatus = [Try (Sh ''schtasks'' [''/query'', ''/tn'', TASK, ''/v'', ''/fo'', ''list''])]"

text \<open>Only \<open>install\<close> asks for the path of the running executable, and fails without it.\<close>

definition backend :: "service_env \<Rightarrow> daemon_action \<Rightarrow> action list \<Rightarrow> action list \<times> bool" where
  "backend e act log =
     (let run = (\<lambda>steps. if act = DInstall
            then case se_exe e of Some exe \<Rightarrow> run_steps e log (steps exe (se_args e) act) | None \<Rightarrow> (log, False)
            else run_steps e log (steps [] (se_args e) act))
      in case se_platform e of
           Linux \<Rightarrow> run linux_steps
         | MacOs \<Rightarrow> run macos_steps
         | Windows \<Rightarrow> run windows_steps
         | OtherPlatform \<Rightarrow> (log, False))"

section \<open>The firewall\<close>

text \<open>The answer is whether a port was opened, or \<open>None\<close> for an error.\<close>

definition firewall_backend :: "service_env \<Rightarrow> u16 \<Rightarrow> action list \<Rightarrow> action list \<times> bool option" where
  "firewall_backend e port log =
     (case se_platform e of
        Windows \<Rightarrow>
          (let name_arg = ''name=weverywhere (UDP '' @ show_nat (unat port) @ '' in)'';
               delete = RunStatus ''netsh'' [''advfirewall'', ''firewall'', ''delete'', ''rule'', name_arg];
               add = RunStatus ''netsh'' [''advfirewall'', ''firewall'', ''add'', ''rule'', name_arg, ''dir=in'',
                 ''action=allow'', ''protocol=UDP'', ''localport='' @ show_nat (unat port), ''profile=any'']
           in (log @ [delete, add], if se_perform e (log @ [delete]) add = Done True then Some True else None))
      | Linux \<Rightarrow>
          (let state = RunStatus ''firewall-cmd'' [''--state''];
               add = RunStatus ''firewall-cmd'' [''--add-port='' @ show_nat (unat port) @ ''/udp'']
           in if se_perform e log state = Done True
              then (log @ [state, add], if se_perform e (log @ [state]) add = Done True then Some True else None)
              else (log @ [state], Some False))
      | _ \<Rightarrow> (log, Some False))"

definition ensure_inbound_udp_allowed :: "service_env \<Rightarrow> u16 \<Rightarrow> action list \<Rightarrow> action list" where
  "ensure_inbound_udp_allowed e port log = fst (firewall_backend e port log)"

definition DEFAULT_SERVE_PORT :: u16 where "DEFAULT_SERVE_PORT = 2240"

definition daemon :: "service_env \<Rightarrow> daemon_action \<Rightarrow> action list \<Rightarrow> action list \<times> bool" where
  "daemon e act log =
     (case backend e act log of (log1, ok) \<Rightarrow>
        if act = DInstall \<and> ok then (ensure_inbound_udp_allowed e DEFAULT_SERVE_PORT log1, True) else (log1, ok))"

section \<open>install-to\<close>

text \<open>\<open>include_directory\<close> holds the files of \<open>etc/\<close> with their paths below it.\<close>

datatype dir_entry = DirEntry string "dir_entry list" | FileEntry string bytes

text \<open>\<open>Path::file_name\<close>: the last component, unless it is the root, a drive or \<open>..\<close>.\<close>

definition file_name :: "platform \<Rightarrow> string \<Rightarrow> string option" where
  "file_name p path =
     (let tail = (if p = Windows then drop (length (path_drive path)) path else path)
      in case rev (filter (\<lambda>c. c \<noteq> [] \<and> c \<noteq> ''.'') (split_on (is_sep p) tail)) of
           [] \<Rightarrow> None
         | c # _ \<Rightarrow> if c = ''..'' then None else Some c)"

definition leaf_name :: "platform \<Rightarrow> string \<Rightarrow> string" where
  "leaf_name p path = (case file_name p path of Some n \<Rightarrow> n | None \<Rightarrow> path)"

definition default_binary_name :: "platform \<Rightarrow> string" where
  "default_binary_name p = (if p = Windows then ''weverywhere.exe'' else ''weverywhere'')"

definition attempt :: "service_env \<Rightarrow> action \<Rightarrow> action list \<Rightarrow> action list \<times> bool" where
  "attempt e a log = (log @ [a], succeeded a (se_perform e log a))"

text \<open>The count goes up with each file written.\<close>

fun extract_entry :: "service_env \<Rightarrow> dir_entry \<Rightarrow> string \<Rightarrow> action list \<Rightarrow> nat \<Rightarrow> action list \<times> nat \<times> bool"
  and extract_entries :: "service_env \<Rightarrow> dir_entry list \<Rightarrow> string \<Rightarrow> action list \<Rightarrow> nat \<Rightarrow> action list \<times> nat \<times> bool"
where
  "extract_entry e (DirEntry path children) dest log count =
     (let sub_dest = path_join (se_platform e) dest (leaf_name (se_platform e) path)
      in case attempt e (CreateDir sub_dest) log of (log1, ok) \<Rightarrow>
           if ok then extract_entries e children sub_dest log1 count else (log1, count, False))"
| "extract_entry e (FileEntry path contents) dest log count =
     (let file_dest = path_join (se_platform e) dest (leaf_name (se_platform e) path)
      in case attempt e (WriteBytes file_dest contents) log of (log1, ok) \<Rightarrow>
           if ok then (log1, count + 1, True) else (log1, count, False))"
| "extract_entries e [] dest log count = (log, count, True)"
| "extract_entries e (x # xs) dest log count =
     (case extract_entry e x dest log count of (log1, count1, ok) \<Rightarrow>
        if ok then extract_entries e xs dest log1 count1 else (log1, count1, False))"

text \<open>The execute bits are set on unix only, on top of the mode the copy has.\<close>

definition ensure_executable :: "service_env \<Rightarrow> string \<Rightarrow> action list \<Rightarrow> action list \<times> bool" where
  "ensure_executable e path log =
     (if se_platform e = Windows then (log, True)
      else case se_mode e log path of
             Some mode \<Rightarrow> attempt e (SetMode path (mode OR 0x1ED)) log
           | None \<Rightarrow> (log, False))"

definition install_binary :: "service_env \<Rightarrow> string \<Rightarrow> action list \<Rightarrow> action list \<times> bool" where
  "install_binary e bin_dest_dir log =
     (case attempt e (CreateDir bin_dest_dir) log of (log1, ok1) \<Rightarrow>
        if \<not> ok1 then (log1, False)
        else case se_exe e of
          None \<Rightarrow> (log1, False)
        | Some this_exe \<Rightarrow>
            (let p = se_platform e;
                 exe_file_name = (case file_name p this_exe of Some n \<Rightarrow> n | None \<Rightarrow> default_binary_name p);
                 bin_dest = path_join p bin_dest_dir exe_file_name
             in if se_same_file e log1 this_exe bin_dest then (log1, True)
                else case attempt e (Copy this_exe bin_dest) log1 of (log2, ok2) \<Rightarrow>
                  if ok2 then ensure_executable e bin_dest log2 else (log2, False)))"

definition install_to ::
  "service_env \<Rightarrow> dir_entry list \<Rightarrow> string \<Rightarrow> string \<Rightarrow> string \<Rightarrow> action list \<Rightarrow> action list \<times> bool" where
  "install_to e template_etc_dir install_root install_etc install_bin log =
     (let etc_dest = path_join (se_platform e) install_root install_etc;
          bin_dest_dir = path_join (se_platform e) install_root install_bin
      in case attempt e (CreateDir etc_dest) log of (log1, ok1) \<Rightarrow>
           if \<not> ok1 then (log1, False)
           else case extract_entries e template_etc_dir etc_dest log1 0 of (log2, extracted, ok2) \<Rightarrow>
             if \<not> ok2 then (log2, False)
             else install_binary e bin_dest_dir log2)"

section \<open>Lemmas\<close>

text \<open>The files of a template with the places they go to, in order.\<close>

fun files_of :: "platform \<Rightarrow> string \<Rightarrow> dir_entry \<Rightarrow> (string \<times> bytes) list" where
  "files_of p dest (DirEntry path children) =
     concat (map (files_of p (path_join p dest (leaf_name p path))) children)"
| "files_of p dest (FileEntry path contents) = [(path_join p dest (leaf_name p path), contents)]"

definition writes_of :: "action list \<Rightarrow> (string \<times> bytes) list" where
  "writes_of log = List.map_filter (\<lambda>a. case a of WriteBytes f c \<Rightarrow> Some (f, c) | _ \<Rightarrow> None) log"

lemma writes_of_append [simp]: "writes_of (xs @ ys) = writes_of xs @ writes_of ys"
  by (simp add: writes_of_def map_filter_def)

lemma writes_of_simps [simp]:
  "writes_of [] = []"
  "writes_of (WriteBytes f c # xs) = (f, c) # writes_of xs"
  "writes_of (CreateDir d # xs) = writes_of xs"
  "writes_of (Copy a b # xs) = writes_of xs"
  "writes_of (SetMode a m # xs) = writes_of xs"
  by (simp_all add: writes_of_def map_filter_simps)

lemma extract_writes:
  "extract_entry e x dest log count = (log', count', True) \<Longrightarrow>
     writes_of log' = writes_of log @ files_of (se_platform e) dest x \<and> count' = count + length (files_of (se_platform e) dest x)"
  "extract_entries e xs dest log count = (log', count', True) \<Longrightarrow>
     writes_of log' = writes_of log @ concat (map (files_of (se_platform e) dest) xs) \<and>
     count' = count + length (concat (map (files_of (se_platform e) dest) xs))"
proof (induction e x dest log count and e xs dest log count arbitrary: log' count' and log' count'
    rule: extract_entry_extract_entries.induct)
  case (1 e path children dest log count)
  then show ?case by (auto simp: attempt_def Let_def split: if_splits)
next
  case (2 e path contents dest log count)
  then show ?case by (auto simp: attempt_def Let_def split: if_splits)
next
  case (3 e dest log count)
  then show ?case by simp
next
  case (4 e x xs dest log count)
  obtain log1 count1 ok where x: "extract_entry e x dest log count = (log1, count1, ok)"
    by (cases "extract_entry e x dest log count")
  with 4(3) have ok: "ok" and rest: "extract_entries e xs dest log1 count1 = (log', count', True)"
    by (auto split: if_splits)
  from 4(1) [of log1 count1] x ok 4(2) [OF x [symmetric] refl ok rest] show ?case by simp
qed

text \<open>On a run the log only grows, and what it grows by starts with the planned actions.\<close>

lemma run_steps_log:
  "\<exists>done. fst (run_steps e log steps) = log @ done \<and>
     (snd (run_steps e log steps) \<longrightarrow> done = map (\<lambda>s. case s of Must a \<Rightarrow> a | Try a \<Rightarrow> a) steps)"
proof (induction steps arbitrary: log)
  case (Cons s steps)
  show ?case
  proof (cases s)
    case (Must a)
    then show ?thesis using Cons [of "log @ [a]"] by fastforce
  next
    case (Try a)
    then show ?thesis using Cons [of "log @ [a]"] by fastforce
  qed
qed simp


lemma split_on_pieces: "\<forall>x \<in> set (split_on p s). \<forall>c \<in> set x. \<not> p c"
proof (induction s)
  case (Cons a s)
  then show ?case by (cases "split_on p s") auto
qed simp

lemma install_binary_log:
  assumes "install_binary e dir log = (log', True)"
  shows "writes_of log' = writes_of log \<and> (\<exists>exe name. se_exe e = Some exe \<and>
    name = (case file_name (se_platform e) exe of Some n \<Rightarrow> n | None \<Rightarrow> default_binary_name (se_platform e)) \<and>
    (se_same_file e (log @ [CreateDir dir]) exe (path_join (se_platform e) dir name) \<or>
     Copy exe (path_join (se_platform e) dir name) \<in> set log'))"
  using assms
  by (auto simp: install_binary_def attempt_def ensure_executable_def Let_def split: if_splits option.splits)

lemma serve_args_of_staged:
  assumes "ae_exe_dir a = Some dir"
    and "ae_canonicalize a (foldl (path_join (ae_platform a)) dir [''..'', ''etc'', ''weverywhere.toml'']) = Some cfg"
  shows "serve_args_vec a = [''--config'', cfg, ''serve''] \<and>
    (ar_config args = None \<longrightarrow> config_path a args = cfg)"
  using assms by (simp add: serve_args_vec_def installed_config_path_def config_path_def exe_relative_config_def)

section \<open>Properties\<close>

text \<open>The command line of the systemd unit. The unit names the executable and its arguments on
  one line, separated by spaces and without quotes; split at the spaces it gives exactly the
  executable and the arguments when neither the path of the executable nor that of the staged
  configuration contains a space, and something else otherwise.\<close>

theorem exec_start_splits:
  "split_on (\<lambda>c. c = CHR '' '') (exec_start exe a) = exe # serve_args_vec a \<longleftrightarrow>
     CHR '' '' \<notin> set exe \<and>
     CHR '' '' \<notin> set (case installed_config_path a of Some cfg \<Rightarrow> cfg | None \<Rightarrow> [])"
proof -
  have words: "exec_start exe a = join '' '' (exe # serve_args_vec a)"
    by (simp add: exec_start_def serve_args_vec_def split: option.splits)
  show ?thesis
  proof
    assume split: "split_on (\<lambda>c. c = CHR '' '') (exec_start exe a) = exe # serve_args_vec a"
    have "CHR '' '' \<notin> set x" if "x \<in> set (exe # serve_args_vec a)" for x
      using that split_on_pieces [of "\<lambda>c. c = CHR '' ''" "exec_start exe a"] unfolding split by blast
    then show "CHR '' '' \<notin> set exe \<and> CHR '' '' \<notin> set (case installed_config_path a of Some cfg \<Rightarrow> cfg | None \<Rightarrow> [])"
      by (cases "installed_config_path a") (auto simp: serve_args_vec_def)
  next
    assume "CHR '' '' \<notin> set exe \<and> CHR '' '' \<notin> set (case installed_config_path a of Some cfg \<Rightarrow> cfg | None \<Rightarrow> [])"
    then show "split_on (\<lambda>c. c = CHR '' '') (exec_start exe a) = exe # serve_args_vec a"
      unfolding words by (intro split_on_join) (auto simp: serve_args_vec_def split: option.splits)
  qed
qed

text \<open>Removing the daemon can be reported as done when it was not. On macOS \<open>daemon uninstall\<close>
  succeeds whatever happens: unloading the job and removing its file are tried and their failures
  dropped. With systemd the answer is that of the final reload alone, whatever came of stopping the
  service and removing the unit.\<close>

theorem uninstall_success_is_not_removal:
  "snd (daemon (e\<lparr>se_args := (se_args e)\<lparr>ae_platform := MacOs\<rparr>\<rparr>) DUninstall log) \<and>
   (snd (daemon (e\<lparr>se_args := (se_args e)\<lparr>ae_platform := Linux\<rparr>\<rparr>) DUninstall log) \<longleftrightarrow>
    se_perform e (log @ [Sh ''systemctl'' [''disable'', ''--now'', SERVICE], RemoveFile UNIT_PATH])
      (Sh ''systemctl'' [''daemon-reload'']) = Done True)"
proof -
  have ok: "succeeded (Sh p xs) r \<longleftrightarrow> r = Done True" for p xs r
    by (cases r) auto
  show ?thesis by (simp add: daemon_def backend_def ok)
qed


definition demo_machine :: service_env where
  "demo_machine = \<lparr>
     se_args = \<lparr>ae_platform = Linux, ae_program_data = None, ae_exe_dir = Some ''/mnt/bin'',
       ae_canonicalize = (\<lambda>f. if f = ''/mnt/bin/../etc/weverywhere.toml'' then Some ''/mnt/etc/weverywhere.toml'' else None)\<rparr>,
     se_exe = Some ''/tmp/weverywhere'', se_perform = (\<lambda>_ _. Done True), se_mode = (\<lambda>_ _. Some 0x1A4),
     se_same_file = (\<lambda>_ a b. a = b)\<rparr>"

definition demo_template :: "dir_entry list" where
  "demo_template = [FileEntry ''weverywhere.toml'' [1, 2], DirEntry ''weverywhere.d'' [FileEntry ''weverywhere.d/peers.toml'' [3]]]"

lemma demo_install:
  "install_to demo_machine demo_template ''/mnt'' ''etc'' ''bin'' [] =
    ([CreateDir ''/mnt/etc'', WriteBytes ''/mnt/etc/weverywhere.toml'' [1, 2], CreateDir ''/mnt/etc/weverywhere.d'',
      WriteBytes ''/mnt/etc/weverywhere.d/peers.toml'' [3], CreateDir ''/mnt/bin'',
      Copy ''/tmp/weverywhere'' ''/mnt/bin/weverywhere'', SetMode ''/mnt/bin/weverywhere'' 0x1ED], True)"
  by code_simp


end
