(* ===== verification/Startup.thy ===== *)
theory Startup
  imports Args Config Identity Cbor
begin

text \<open>
  What happens before and around a command: \<open>src/main.rs\<close> (log destination, the offer to generate a
  missing key), \<open>src/command/mod.rs\<close> (dispatch), \<open>src/command/configuration.rs\<close> (showing the
  configuration and generating the key), the key file written by \<open>src/crypto_utils.rs\<close>, the prompt and
  the clock of \<open>src/sys_utils.rs\<close>, the module description of \<open>src/command/info.rs\<close> and the decoding of
  \<open>src/universal_serde.rs\<close>. Files are a map from paths to contents; what can be reached and written is
  the environment's.
\<close>

section \<open>Logging\<close>

datatype log_writer = AppendTo string | Sink | Stderr

definition log_destination :: "(string \<Rightarrow> bool) \<Rightarrow> args \<Rightarrow> log_writer" where
  "log_destination can_open a =
     (case ar_log_file a of
        Some path \<Rightarrow> if can_open path then AppendTo path else Sink
      | None \<Rightarrow> if owns_terminal (ar_command a) then Sink else Stderr)"

section \<open>The clock and the prompt\<close>

definition epoch_seconds_now_utc0 :: "u64 option \<Rightarrow> u64" where
  "epoch_seconds_now_utc0 since_epoch = (case since_epoch of Some s \<Rightarrow> s | None \<Rightarrow> 0)"

text \<open>The answer is the line read, empty when standard input is closed.\<close>

definition ask_user_proceed_yn :: "string \<Rightarrow> bool" where
  "ask_user_proceed_yn input =
     (let answer = text_of_bytes (trim_end_bytes (as_bytes input))
      in CHR ''y'' \<in> set answer \<or> CHR ''Y'' \<in> set answer \<or> CHR ''1'' \<in> set answer)"

section \<open>Keys\<close>

type_synonym files = "string \<Rightarrow> string option"

record startup_env =
  su_args :: args_env
  su_config :: config_env
  su_reachable :: "string \<Rightarrow> bool"
  su_writable :: "string \<Rightarrow> bool"
  su_codec :: key_codec
  su_crypto :: crypto
  su_fresh_pem :: string

text \<open>The codec reads a key file through the files of the machine.\<close>

definition key_files :: "startup_env \<Rightarrow> files \<Rightarrow> key_codec" where
  "key_files e fs = (su_codec e)\<lparr>kc_read := (\<lambda>p. if su_reachable e p then fs p else None)\<rparr>"

datatype startup_error = KeyWrite | KeyRead key_error

text \<open>\<open>su_fresh_pem\<close> is the new key in PEM; the directory of the file is created as best effort.\<close>

definition generate_private_key_ed25519_pem_file :: "startup_env \<Rightarrow> string \<Rightarrow> files \<Rightarrow> files \<times> bool" where
  "generate_private_key_ed25519_pem_file e out_path fs =
     (if su_writable e out_path then (fs(out_path \<mapsto> su_fresh_pem e), True) else (fs, False))"

datatype config_style = CreateMissingKeys | DoNotCreateMissingKeys

definition configuration :: "startup_env \<Rightarrow> args \<Rightarrow> config_style \<Rightarrow> files \<Rightarrow> files \<times> (startup_error + unit)" where
  "configuration e a style fs =
     (case read_from_file (su_config e) (config_path (su_args e) a) of
        Inl _ \<Rightarrow> (fs, Inr ())
      | Inr c \<Rightarrow>
          (let keyfile = ic_keyfile (cf_identity c);
               metadata_ok = su_reachable e keyfile \<and> fs keyfile \<noteq> None;
               (fs1, generated) =
                 (if style = CreateMissingKeys \<and> \<not> metadata_ok
                  then generate_private_key_ed25519_pem_file e keyfile fs else (fs, True))
           in if \<not> generated then (fs1, Inl KeyWrite)
              else case read_private_key_ed25519_pem_file (key_files e fs1) keyfile of
                     Inl err \<Rightarrow> (fs1, Inl (KeyRead err))
                   | Inr identity_key \<Rightarrow> (fs1, Inr ())))"

text \<open>\<open>input\<close> is the answer to the prompt, read only if it is shown. A failure to generate is logged.\<close>

definition handle_friendly_ux_warnings :: "startup_env \<Rightarrow> args \<Rightarrow> string \<Rightarrow> files \<Rightarrow> files" where
  "handle_friendly_ux_warnings e a input fs =
     (if ar_command a = GenerateMissingKeys then fs
      else case read_from_file (su_config e) (config_path (su_args e) a) of
        Inl _ \<Rightarrow> fs
      | Inr c \<Rightarrow>
          (case read_public_key_ed25519_pem_file (key_files e fs) (su_crypto e) (ic_keyfile (cf_identity c)) of
             Inr _ \<Rightarrow> fs
           | Inl _ \<Rightarrow>
               if ask_user_proceed_yn input then fst (configuration e a CreateMissingKeys fs) else fs))"

section \<open>Dispatch\<close>

datatype call =
    CallInfo string
  | CallConfiguration config_style
  | CallInstallTo string string string
  | CallRun string bool multicast_address_vec u16 "string list" "(string \<times> string) list"
  | CallRunLocal string "string list" "(string \<times> string) list" multicast_address_vec u16
  | CallServe multicast_address_vec u16
  | CallNetmap "string option" bool multicast_address_vec u16
  | CallChat "string option" multicast_address_vec u16
  | CallExtractPrograms string
  | CallDaemon daemon_action

fun run_command :: "command \<Rightarrow> call" where
  "run_command (Info file_path) = CallInfo file_path"
| "run_command Configuration = CallConfiguration DoNotCreateMissingKeys"
| "run_command GenerateMissingKeys = CallConfiguration CreateMissingKeys"
| "run_command (InstallTo install_root install_etc install_bin) = CallInstallTo install_root install_etc install_bin"
| "run_command (Run file_path fabric multicast_groups port arg arg_list) =
     CallRun file_path fabric multicast_groups port arg_list (parse_arg_map arg)"
| "run_command (RunLocal file_path arg arg_list multicast_groups port) =
     CallRunLocal file_path arg_list (parse_arg_map arg) multicast_groups port"
| "run_command (ServeCmd multicast_groups port) = CallServe multicast_groups port"
| "run_command (NetmapCmd program loc multicast_groups port) = CallNetmap program loc multicast_groups port"
| "run_command (Chat program multicast_groups port) = CallChat program multicast_groups port"
| "run_command (ExtractPrograms out_dir) = CallExtractPrograms out_dir"
| "run_command (Daemon action) = CallDaemon action"

section \<open>info\<close>

text \<open>The types of a module as wasmtime reports them; kinds the code prints in debug form carry it.\<close>

datatype val_type = I32 | I64 | F32 | F64 | V128 | OtherVal string

datatype extern_type =
    Func "val_type list" "val_type list"
  | Memory u64 "u64 option"
  | Global bool val_type
  | OtherExtern string

record wasm_module =
  wm_imports :: "(string \<times> string \<times> extern_type) list"
  wm_exports :: "(string \<times> extern_type) list"

fun valtype_str :: "val_type \<Rightarrow> string" where
  "valtype_str I32 = ''i32''"
| "valtype_str I64 = ''i64''"
| "valtype_str F32 = ''f32''"
| "valtype_str F64 = ''f64''"
| "valtype_str V128 = ''v128''"
| "valtype_str (OtherVal s) = s"

fun describe_extern :: "extern_type \<Rightarrow> string" where
  "describe_extern (Func params results) =
     ''func ('' @ join '', '' (map valtype_str params) @ '') -> ('' @ join '', '' (map valtype_str results) @ '')''"
| "describe_extern (Memory minimum maximum) =
     ''memory '' @ show_nat (unat minimum) @ ''..'' @
       (case maximum of Some m \<Rightarrow> show_nat (unat m) | None \<Rightarrow> []) @ '' pages''"
| "describe_extern (Global mutable content) =
     ''global '' @ (if mutable then ''mut '' else []) @ valtype_str content"
| "describe_extern (OtherExtern s) = s"

datatype wasi_flavor = Preview1 | Preview0 | Preview2 | PlainWasm

fun detect_from :: "bool \<Rightarrow> string list \<Rightarrow> wasi_flavor" where
  "detect_from saw_wasi [] = (if saw_wasi then Preview2 else PlainWasm)"
| "detect_from saw_wasi (m # ms) =
     (if m = ''wasi_snapshot_preview1'' then Preview1
      else if m = ''wasi_unstable'' then Preview0
      else detect_from (if take 5 m = ''wasi:'' then True else saw_wasi) ms)"

definition detect_wasi_flavor :: "wasm_module \<Rightarrow> wasi_flavor" where
  "detect_wasi_flavor m = detect_from False (map fst (wm_imports m))"

fun flavor_text :: "wasi_flavor \<Rightarrow> string" where
  "flavor_text Preview1 = ''preview1 (wasi_snapshot_preview1)''"
| "flavor_text Preview0 = ''preview0 (wasi_unstable)''"
| "flavor_text Preview2 = ''preview2 (component-model style imports)''"
| "flavor_text PlainWasm = ''none detected (plain wasm)''"

text \<open>The lines printed, given the size as \<open>format_size_bytes\<close> shows it. A line feed in the code is an
  empty line here.\<close>

definition info_lines :: "string \<Rightarrow> string \<Rightarrow> wasm_module \<Rightarrow> string list" where
  "info_lines file_path shown_size m =
     [''File:    '' @ file_path,
      ''Size:    '' @ shown_size,
      ''Kind:    '' @ (if ''_start'' \<in> fst ` set (wm_exports m) then ''Program (has _start entry point)'' else ''Library''),
      ''WASI:    '' @ flavor_text (detect_wasi_flavor m),
      [], ''Imports ('' @ show_nat (length (wm_imports m)) @ ''):''] @
     (if wm_imports m = [] then [''  (none)''] else []) @
     map (\<lambda>(md, name, ty). ''  '' @ md @ ''::'' @ name @ ''  '' @ describe_extern ty) (wm_imports m) @
     [[], ''Exports ('' @ show_nat (length (wm_exports m)) @ ''):''] @
     (if wm_exports m = [] then [''  (none)''] else []) @
     map (\<lambda>(name, ty). ''  '' @ name @ ''  '' @ describe_extern ty) (wm_exports m)"

section \<open>universal_serde\<close>

datatype format = JSON | CBOR | BARE

text \<open>The three codecs for one type. Text that is not UTF-8 is not JSON; \<open>us_from_json\<close> decides both.\<close>

record 't universal =
  us_from_json :: "bytes \<Rightarrow> 't option"
  us_from_cbor :: "bytes \<Rightarrow> 't option"
  us_from_bare :: "bytes \<Rightarrow> 't option"
  us_to_json :: "'t \<Rightarrow> bytes option"
  us_to_cbor :: "'t \<Rightarrow> bytes option"
  us_to_bare :: "'t \<Rightarrow> bytes option"

fun decode_as :: "'t universal \<Rightarrow> format \<Rightarrow> bytes \<Rightarrow> 't option" where
  "decode_as u JSON m = us_from_json u m"
| "decode_as u CBOR m = us_from_cbor u m"
| "decode_as u BARE m = us_from_bare u m"

fun first_decoding :: "'t universal \<Rightarrow> format list \<Rightarrow> bytes \<Rightarrow> ('t \<times> format) option" where
  "first_decoding u [] m = None"
| "first_decoding u (f # fs) m =
     (case decode_as u f m of Some t \<Rightarrow> Some (t, f) | None \<Rightarrow> first_decoding u fs m)"

definition deserialize :: "'t universal \<Rightarrow> bytes \<Rightarrow> ('t \<times> format) option" where
  "deserialize u m = first_decoding u [JSON, CBOR, BARE] m"

definition deserialize_expected :: "'t universal \<Rightarrow> bytes \<Rightarrow> format \<Rightarrow> ('t \<times> format) option" where
  "deserialize_expected u m expected =
     (case decode_as u expected m of Some t \<Rightarrow> Some (t, expected) | None \<Rightarrow> deserialize u m)"

fun serialize :: "'t universal \<Rightarrow> 't \<Rightarrow> format \<Rightarrow> bytes option" where
  "serialize u t JSON = us_to_json u t"
| "serialize u t CBOR = us_to_cbor u t"
| "serialize u t BARE = us_to_bare u t"


section \<open>Lemmas\<close>

text \<open>A program that owns the terminal never shares it with the log.\<close>

lemma log_destination_terminal: "log_destination can_open a = Stderr \<Longrightarrow> \<not> owns_terminal (ar_command a)"
  by (auto simp: log_destination_def split: option.splits if_splits)

text \<open>The prompt takes any answer with a \<open>y\<close> in it for a yes.\<close>

lemma no_way_is_yes: "ask_user_proceed_yn ''no way'' \<and> \<not> ask_user_proceed_yn ''no''"
  by code_simp

lemma detect_from_exact:
  "detect_from saw ms =
     (case dropWhile (\<lambda>m. m \<noteq> ''wasi_snapshot_preview1'' \<and> m \<noteq> ''wasi_unstable'') ms of
        m # _ \<Rightarrow> if m = ''wasi_snapshot_preview1'' then Preview1 else Preview0
      | [] \<Rightarrow> if saw \<or> (\<exists>m \<in> set ms. take 5 m = ''wasi:'') then Preview2 else PlainWasm)"
  by (induction saw ms rule: detect_from.induct) auto

text \<open>The format reported is the first in the order of trial that decodes, and decoding with the
  expected format never fails where decoding without it succeeds.\<close>

lemma first_decoding_Some:
  "first_decoding u fs m = Some (t, f) \<longleftrightarrow>
     (\<exists>pre post. fs = pre @ f # post \<and> list_all (\<lambda>g. decode_as u g m = None) pre \<and> decode_as u f m = Some t)"
proof (induction fs)
  case (Cons g fs)
  show ?case
  proof (cases "decode_as u g m")
    case None
    have "(\<exists>pre post. g # fs = pre @ f # post \<and> list_all (\<lambda>g. decode_as u g m = None) pre \<and> decode_as u f m = Some t) \<longleftrightarrow>
        (\<exists>pre post. fs = pre @ f # post \<and> list_all (\<lambda>g. decode_as u g m = None) pre \<and> decode_as u f m = Some t)"
      (is "?L \<longleftrightarrow> ?R")
    proof
      assume ?L
      then obtain pre post where "g # fs = pre @ f # post" "list_all (\<lambda>g. decode_as u g m = None) pre" "decode_as u f m = Some t" by blast
      with None show ?R by (cases pre) auto
    next
      assume ?R
      then obtain pre post where "fs = pre @ f # post" "list_all (\<lambda>g. decode_as u g m = None) pre" "decode_as u f m = Some t" by blast
      with None show ?L by (intro exI [of _ "g # pre"] exI [of _ post]) simp
    qed
    with Cons None show ?thesis by simp
  next
    case (Some x)
    then show ?thesis by (auto simp: Cons_eq_append_conv)
  qed
qed simp

lemma deserialize_expected_total:
  "deserialize_expected u m f = None \<longleftrightarrow> deserialize u m = None"
  by (cases f) (auto simp: deserialize_expected_def deserialize_def split: option.splits)

lemma key_files_read: "kc_read (key_files e fs) p = (if su_reachable e p then fs p else None)"
  by (simp add: key_files_def)

lemma configuration_changes:
  "fst (configuration e a style fs) p \<noteq> fs p \<Longrightarrow>
     style = CreateMissingKeys \<and> \<not> (su_reachable e p \<and> fs p \<noteq> None) \<and> su_writable e p \<and>
     (\<exists>c. read_from_file (su_config e) (config_path (su_args e) a) = Inr c \<and> p = ic_keyfile (cf_identity c)) \<and>
     fst (configuration e a style fs) p = Some (su_fresh_pem e)"
  by (auto simp: configuration_def generate_private_key_ed25519_pem_file_def Let_def
      split: sum.splits if_splits prod.splits)

lemma unreadable_key:
  assumes "read_from_file (su_config e) (config_path (su_args e) a) = Inr c"
    and "su_reachable e (ic_keyfile (cf_identity c))" and "fs (ic_keyfile (cf_identity c)) \<noteq> None"
  shows "configuration e a style fs =
     (fs, map_sum KeyRead (\<lambda>_. ()) (read_private_key_ed25519_pem_file (key_files e fs) (ic_keyfile (cf_identity c))))"
  using assms by (auto simp: configuration_def Let_def split: sum.splits)

section \<open>Properties\<close>

text \<open>Generating keys never touches a key that is there. Whatever command is given and whatever is
  answered to the prompt, the only file that can change is the key file the configuration names,
  only when nothing can be found under its path, and then it holds the new key; the prompt does
  this only when the key could not be read and the answer was a yes. A key file that is there but
  cannot be read as a key is therefore never repaired: every start offers to generate a key, and
  nothing happens.\<close>

theorem key_generation_keeps_files:
  "{p. fst (configuration e a style fs) p \<noteq> fs p} \<subseteq>
     {p. style = CreateMissingKeys \<and> \<not> (su_reachable e p \<and> fs p \<noteq> None) \<and>
         fst (configuration e a style fs) p = Some (su_fresh_pem e) \<and>
         (\<exists>c. read_from_file (su_config e) (config_path (su_args e) a) = Inr c \<and> p = ic_keyfile (cf_identity c))} \<and>
   {p. handle_friendly_ux_warnings e a input fs p \<noteq> fs p} \<subseteq>
     {p. ask_user_proceed_yn input \<and> \<not> (su_reachable e p \<and> fs p \<noteq> None) \<and>
         handle_friendly_ux_warnings e a input fs p = Some (su_fresh_pem e) \<and>
         (\<exists>c. read_from_file (su_config e) (config_path (su_args e) a) = Inr c \<and> p = ic_keyfile (cf_identity c))}"
proof -
  have friendly: "ask_user_proceed_yn input \<and>
      handle_friendly_ux_warnings e a input fs = fst (configuration e a CreateMissingKeys fs)"
    if "handle_friendly_ux_warnings e a input fs p \<noteq> fs p" for p
    using that by (auto simp: handle_friendly_ux_warnings_def split: sum.splits if_splits)
  show ?thesis
  proof (intro conjI subsetI CollectI; elim CollectE)
    fix p assume "fst (configuration e a style fs) p \<noteq> fs p"
    from configuration_changes [OF this] show "style = CreateMissingKeys" "\<not> (su_reachable e p \<and> fs p \<noteq> None)"
      "fst (configuration e a style fs) p = Some (su_fresh_pem e)"
      "\<exists>c. read_from_file (su_config e) (config_path (su_args e) a) = Inr c \<and> p = ic_keyfile (cf_identity c)" by blast+
  next
    fix p assume p: "handle_friendly_ux_warnings e a input fs p \<noteq> fs p"
    note eq = friendly [OF p]
    show "ask_user_proceed_yn input" using eq by simp
    from p eq have "fst (configuration e a CreateMissingKeys fs) p \<noteq> fs p" by simp
    from configuration_changes [OF this] show "\<not> (su_reachable e p \<and> fs p \<noteq> None)"
      "handle_friendly_ux_warnings e a input fs p = Some (su_fresh_pem e)"
      "\<exists>c. read_from_file (su_config e) (config_path (su_args e) a) = Inr c \<and> p = ic_keyfile (cf_identity c)"
      using eq by simp_all
  qed
qed

text \<open>C38: a missing key can be had by saying yes. When the configuration can be read, the key file it
  names is missing and can be written, and the new key in PEM reads back, then after a yes to the
  prompt the key is there: the node's identity can be generated, verifies, and carries the name of
  the configuration, and a second start changes nothing.\<close>

theorem missing_key_is_generated:
  assumes "read_from_file (su_config e) (config_path (su_args e) a) = Inr c"
    and "keyfile = ic_keyfile (cf_identity c)"
    and "fs keyfile = None" and "su_reachable e keyfile" and "su_writable e keyfile"
    and "ask_user_proceed_yn input" and "ar_command a \<noteq> GenerateMissingKeys"
    and pem: "kc_pem (su_codec e) (su_fresh_pem e) = Some (''PRIVATE KEY'', der)"
      "kc_pkcs8 (su_codec e) der = Some info" "kc_octets (su_codec e) info = Some sk" "length sk = 32"
    and "ed25519_laws (su_crypto e)"
    and "fs' = handle_friendly_ux_warnings e a input fs"
  shows "(\<exists>i. generate_from_config (su_crypto e) (key_files e fs') (ic_name (cf_identity c)) keyfile now = Inr i \<and>
           check_self_signature (su_crypto e) i = Inr () \<and> id_human_name i = ic_name (cf_identity c)) \<and>
         handle_friendly_ux_warnings e a input fs' = fs'"
proof -
  have missing: "read_public_key_ed25519_pem_file (key_files e fs) (su_crypto e) keyfile = Inl ReadFailed"
    using assms(3) by (simp add: read_public_key_ed25519_pem_file_def key_files_read)
  have fs': "fs' = fs(keyfile \<mapsto> su_fresh_pem e)"
    using assms missing
    by (simp add: handle_friendly_ux_warnings_def configuration_def Let_def
        generate_private_key_ed25519_pem_file_def split: sum.splits)
  have sk: "read_private_key_ed25519_pem_file (key_files e fs') keyfile = Inr sk"
    using pem assms(4) by (simp add: read_private_key_ed25519_pem_file_def fs' key_files_def)
  then have "read_public_key_ed25519_pem_file (key_files e fs') (su_crypto e) keyfile = Inr (cr_verifying_key (su_crypto e) sk)"
    by (simp add: read_public_key_of_private)
  then have "handle_friendly_ux_warnings e a input fs' = fs'"
    using assms(1,2) by (simp add: handle_friendly_ux_warnings_def)
  moreover have "\<exists>i. generate_from_config (su_crypto e) (key_files e fs') (ic_name (cf_identity c)) keyfile now = Inr i \<and>
      check_self_signature (su_crypto e) i = Inr () \<and> id_human_name i = ic_name (cf_identity c)"
    using sk assms(12)
    by (simp add: read_public_key_of_private generate_from_config_def check_self_signature_def
        sign_identity_data_def verify_hash_signed)
  ultimately show ?thesis by blast
qed


definition demo_startup :: startup_env where
  "demo_startup = \<lparr>
     su_args = \<lparr>ae_platform = Linux, ae_program_data = None, ae_exe_dir = None, ae_canonicalize = (\<lambda>_. None)\<rparr>,
     su_config = \<lparr>ce_read = (\<lambda>_. Some ''[identity]''),
       ce_parse = (\<lambda>_. Some \<lparr>cf_identity = \<lparr>ic_name = ''node'', ic_keyfile = ''/etc/id.pem''\<rparr>, cf_trusted = [],
         cf_startup_program = [], cf_includes = [], cf_peer = [],
         cf_limits_trusted = \<lparr>li_max_cpu_instructions = 0, li_max_memory_bytes = 0\<rparr>,
         cf_limits_untrusted = \<lparr>li_max_cpu_instructions = 0, li_max_memory_bytes = 0\<rparr>\<rparr>),
       ce_parse_opt = (\<lambda>_. None), ce_glob = (\<lambda>_. None),
       ce_omerge_identity = (\<lambda>_ _. None), ce_omerge_limit = (\<lambda>_ _. None)\<rparr>,
     su_reachable = (\<lambda>_. True), su_writable = (\<lambda>_. True), su_codec = demo_key_codec,
     su_crypto = demo_crypto, su_fresh_pem = ''pem''\<rparr>"

definition demo_args :: args where
  "demo_args = \<lparr>ar_command = ServeCmd default_multicast_groups 2240, ar_verbosity = 0, ar_config = None, ar_log_file = None\<rparr>"

theorem missing_key_is_generated_witness:
  "\<exists>i. generate_from_config demo_crypto
      (key_files demo_startup (handle_friendly_ux_warnings demo_startup demo_args ''yes'' Map.empty)) ''node'' ''/etc/id.pem'' 9 = Inr i \<and>
      check_self_signature demo_crypto i = Inr () \<and> id_human_name i = ''node''"
proof -
  have yes: "ask_user_proceed_yn ''yes''" by code_simp
  obtain c where c: "read_from_file (su_config demo_startup) (config_path (su_args demo_startup) demo_args) = Inr c"
    "ic_keyfile (cf_identity c) = ''/etc/id.pem''" "ic_name (cf_identity c) = ''node''"
    by (simp add: read_from_file_def demo_startup_def)
  show ?thesis
    using missing_key_is_generated [OF c(1) refl, of Map.empty "''yes''" "[1]" "[1]" "replicate 32 7" _ 9] yes
    by (simp add: c demo_startup_def demo_key_codec_def demo_args_def demo_crypto_laws)
qed

end
