(* ===== verification/Listen.thy ===== *)
theory Listen
  imports Serve Service
begin

text \<open>
  How a node starts to listen, \<open>serve\<close>, \<open>spawn_listeners\<close>, \<open>bind_reuse_udp\<close> and the first half of
  \<open>serve_group\<close> in \<open>src/command/serve.rs\<close>: the firewall step, one socket per multicast group, the
  options it is given and the interfaces on which it joins its group. The socket calls are a list;
  whether a call succeeds is the environment's answer and may depend on the calls before it. The
  second half of \<open>serve_group\<close>, the receive loop, is \<open>serve_loop\<close> of \<open>Serve\<close>.
\<close>

section \<open>Sockets\<close>

datatype sock_op =
    NewSocket bool
  | SetReuseAddress
  | SetOnlyV6
  | SetNonblocking
  | BindTo ip_addr u16
  | FromStd
  | SetMulticastLoop
  | SetMulticastTtl nat
  | JoinV4 u32 u32
  | JoinV6 u128 u32

type_synonym sock_env = "sock_op list \<Rightarrow> sock_op \<Rightarrow> bool"

text \<open>Calls whose errors are returned at once.\<close>

fun all_ops :: "sock_env \<Rightarrow> sock_op list \<Rightarrow> sock_op list \<Rightarrow> sock_op list \<times> bool" where
  "all_ops env log [] = (log, True)"
| "all_ops env log (x # xs) = (if env log x then all_ops env (log @ [x]) xs else (log @ [x], False))"

text \<open>Calls whose errors are logged only, and whether any succeeded.\<close>

fun try_ops :: "sock_env \<Rightarrow> sock_op list \<Rightarrow> sock_op list \<Rightarrow> sock_op list \<times> bool" where
  "try_ops env log [] = (log, False)"
| "try_ops env log (x # xs) =
     (case try_ops env (log @ [x]) xs of (log', any) \<Rightarrow> (log', env log x \<or> any))"

definition bind_reuse_udp :: "sock_env \<Rightarrow> bool \<Rightarrow> u16 \<Rightarrow> sock_op list \<times> bool" where
  "bind_reuse_udp env v4 port =
     all_ops env [] ([NewSocket v4, SetReuseAddress] @ (if v4 then [] else [SetOnlyV6]) @
       [SetNonblocking, BindTo (if v4 then V4 0 else V6 0) port, FromStd])"

definition v4_joins :: "u32 \<Rightarrow> interface list \<Rightarrow> sock_op list" where
  "v4_joins g interfaces =
     concat (map (\<lambda>(_, _, iface_addrs). List.map_filter (\<lambda>a. case a of V4 v \<Rightarrow> Some (JoinV4 g v) | V6 _ \<Rightarrow> None) iface_addrs) interfaces)"

definition v6_joins :: "u128 \<Rightarrow> interface list \<Rightarrow> sock_op list" where
  "v6_joins g interfaces =
     map (\<lambda>(iface_idx, _, _). JoinV6 g iface_idx) (filter (\<lambda>(_, _, iface_addrs). iface_addrs \<noteq> []) interfaces)"

text \<open>The answer is \<open>None\<close> when the function returns an error, else whether any interface was joined.\<close>

definition join_group :: "sock_env \<Rightarrow> interface list \<Rightarrow> ip_addr \<Rightarrow> sock_op list \<Rightarrow> sock_op list \<times> bool option" where
  "join_group env interfaces multicast_addr log =
     (case multicast_addr of
        V4 g \<Rightarrow>
          (case all_ops env log [SetMulticastLoop, SetMulticastTtl 4] of (log1, ok) \<Rightarrow>
             if \<not> ok then (log1, None)
             else case try_ops env log1 (v4_joins g interfaces) of (log2, joined_any) \<Rightarrow>
               if joined_any then (log2, Some True)
               else case all_ops env log2 [JoinV4 g 0] of (log3, ok3) \<Rightarrow>
                 (log3, if ok3 then Some True else None))
      | V6 g \<Rightarrow>
          (case all_ops env log [SetMulticastLoop] of (log1, ok) \<Rightarrow>
             if \<not> ok then (log1, None)
             else case try_ops env log1 (v6_joins g interfaces) of (log2, joined_any) \<Rightarrow>
               (log2, Some joined_any)))"

definition group_socket :: "sock_env \<Rightarrow> interface list \<Rightarrow> ip_addr \<Rightarrow> u16 \<Rightarrow> sock_op list \<times> bool option" where
  "group_socket env interfaces multicast_addr port =
     (case bind_reuse_udp env (is_ipv4 multicast_addr) port of (log, ok) \<Rightarrow>
        if ok then join_group env interfaces multicast_addr log else (log, None))"

text \<open>The listener of a group once its socket is set up: the receive loop. An error before that is
  logged by the task, which ends.\<close>

definition serve_group ::
  "sock_env \<Rightarrow> interface list \<Rightarrow> ip_addr \<Rightarrow> u16 \<Rightarrow> (serve_env \<times> bytes \<times> socket_addr) list \<Rightarrow> executor \<Rightarrow>
   listener \<times> executor \<times> serve_out list" where
  "serve_group env interfaces multicast_addr port datagrams ex =
     (case snd (group_socket env interfaces multicast_addr port) of
        None \<Rightarrow> (Stopped, ex, [])
      | Some joined_any \<Rightarrow> serve_loop datagrams ex)"

definition spawn_listeners ::
  "(ip_addr \<Rightarrow> sock_env) \<Rightarrow> interface list \<Rightarrow> ip_addr list \<Rightarrow> u16 \<Rightarrow> (ip_addr \<times> sock_op list \<times> bool option) list" where
  "spawn_listeners env interfaces multicast_group port =
     map (\<lambda>multicast_addr. (multicast_addr, group_socket (env multicast_addr) interfaces multicast_addr port)) multicast_group"

text \<open>\<open>serve\<close> up to the point where it waits for its listeners. Without a readable configuration it
  ends before it touches the machine.\<close>

definition serve ::
  "service_env \<Rightarrow> (ip_addr \<Rightarrow> sock_env) \<Rightarrow> interface list \<Rightarrow> 'config option \<Rightarrow> ip_addr list \<Rightarrow> u16 \<Rightarrow>
   action list \<times> (ip_addr \<times> sock_op list \<times> bool option) list option" where
  "serve se env interfaces local_config multicast_group port =
     (case local_config of
        None \<Rightarrow> ([], None)
      | Some _ \<Rightarrow> (ensure_inbound_udp_allowed se port [], Some (spawn_listeners env interfaces multicast_group port)))"

section \<open>Lemmas\<close>

definition is_join :: "sock_op \<Rightarrow> bool" where
  "is_join x \<longleftrightarrow> (case x of JoinV4 _ _ \<Rightarrow> True | JoinV6 _ _ \<Rightarrow> True | _ \<Rightarrow> False)"

text \<open>The memberships of a socket: the joins that succeeded.\<close>

fun members :: "sock_env \<Rightarrow> sock_op list \<Rightarrow> sock_op list \<Rightarrow> sock_op list" where
  "members env log [] = []"
| "members env log (x # xs) = (if is_join x \<and> env log x then [x] else []) @ members env (log @ [x]) xs"

abbreviation memberships :: "sock_env \<Rightarrow> sock_op list \<Rightarrow> sock_op set" where
  "memberships env log \<equiv> set (members env [] log)"

lemma members_append: "members env log (xs @ ys) = members env log xs @ members env (log @ xs) ys"
  by (induction xs arbitrary: log) simp_all

lemma all_ops_True: "all_ops env log xs = (log', True) \<Longrightarrow> log' = log @ xs"
proof (induction xs arbitrary: log)
  case (Cons x xs)
  then have "all_ops env (log @ [x]) xs = (log', True)" by (simp split: if_splits)
  from Cons.IH [OF this] show ?case by simp
qed simp

lemma members_no_joins: "\<not> list_ex is_join xs \<Longrightarrow> members env log xs = []"
  by (induction xs arbitrary: log) auto

lemma try_ops_joins:
  "list_all is_join xs \<Longrightarrow> try_ops env log xs = (log @ xs, members env log xs \<noteq> [])"
  by (induction xs arbitrary: log) auto

lemma members_subset: "set (members env log xs) \<subseteq> set xs"
  by (induction xs arbitrary: log) auto

lemma joins_are_joins: "list_all is_join (v4_joins g interfaces)" "list_all is_join (v6_joins h interfaces)"
  by (force simp: v4_joins_def v6_joins_def list_all_iff is_join_def map_filter_mem split: ip_addr.split_asm)+

lemma bind_reuse_udp_members:
  "bind_reuse_udp env v4 port = (log, True) \<Longrightarrow> members env [] log = []"
  by (rule members_no_joins) (auto simp: bind_reuse_udp_def is_join_def dest!: all_ops_True split: if_splits)

lemma join_group_v4:
  assumes none: "members env [] log = []" and join: "join_group env interfaces (V4 g) log = (ops, Some joined)"
  shows "joined \<and> memberships env ops \<noteq> {} \<and>
    (memberships env ops \<subseteq> set (v4_joins g interfaces) \<or> memberships env ops = {JoinV4 g 0})"
proof -
  let ?js = "v4_joins g interfaces"
  obtain log1 where set: "all_ops env log [SetMulticastLoop, SetMulticastTtl 4] = (log1, True)"
    using join by (auto simp: join_group_def split: prod.splits if_splits)
  have "log1 = log @ [SetMulticastLoop, SetMulticastTtl 4]" using all_ops_True [OF set] by simp
  then have none1: "members env [] log1 = []" by (simp add: members_append none is_join_def)
  show ?thesis
  proof (cases "members env log1 ?js = []")
    case True
    then have "join_group env interfaces (V4 g) log =
        (log1 @ ?js @ [JoinV4 g 0], if env (log1 @ ?js) (JoinV4 g 0) then Some True else None)"
      by (simp add: join_group_def set try_ops_joins [OF joins_are_joins(1)] del: all_ops.simps(2)) simp
    then have "ops = log1 @ ?js @ [JoinV4 g 0]" "env (log1 @ ?js) (JoinV4 g 0)" and joined
      using join by (auto split: if_splits)
    then show ?thesis using none1 True by (simp add: members_append is_join_def)
  next
    case False
    then have "join_group env interfaces (V4 g) log = (log1 @ ?js, Some True)"
      by (simp add: join_group_def set try_ops_joins [OF joins_are_joins(1)] del: all_ops.simps)
    then have "ops = log1 @ ?js" and joined using join by auto
    then show ?thesis using none1 False members_subset [of env log1 ?js] by (simp add: members_append)
  qed
qed

lemma join_group_v6:
  assumes none: "members env [] log = []" and join: "join_group env interfaces (V6 g) log = (ops, Some joined)"
  shows "(joined \<longleftrightarrow> memberships env ops \<noteq> {}) \<and> memberships env ops \<subseteq> set (v6_joins g interfaces)"
proof -
  let ?js = "v6_joins g interfaces"
  obtain log1 where set: "all_ops env log [SetMulticastLoop] = (log1, True)"
    using join by (auto simp: join_group_def split: prod.splits if_splits)
  have "log1 = log @ [SetMulticastLoop]" using all_ops_True [OF set] by simp
  then have none1: "members env [] log1 = []" by (simp add: members_append none is_join_def)
  have "join_group env interfaces (V6 g) log = (log1 @ ?js, Some (members env log1 ?js \<noteq> []))"
    by (simp add: join_group_def set try_ops_joins [OF joins_are_joins(2)] del: all_ops.simps)
  then have "ops = log1 @ ?js" "joined \<longleftrightarrow> members env log1 ?js \<noteq> []" using join by auto
  then show ?thesis using none1 members_subset [of env log1 ?js] by (simp add: members_append)
qed

section \<open>Properties\<close>

text \<open>C27: what a listener has joined. A socket for an IPv4 group is used only when it is a member of
  its group: on interfaces of the node that have an IPv4 address, or, when no such interface could
  be joined, on the default one. A socket for an IPv6 group is used also when it is a member on no
  interface at all, and then it receives no multicast; the flag the code keeps tells exactly
  whether there is a membership.\<close>

theorem listener_memberships:
  assumes "group_socket env interfaces multicast_addr port = (ops, Some joined)"
  shows "(joined \<longleftrightarrow> memberships env ops \<noteq> {}) \<and>
    (case multicast_addr of
       V4 g \<Rightarrow> joined \<and> (memberships env ops \<subseteq> set (v4_joins g interfaces) \<or> memberships env ops = {JoinV4 g 0})
     | V6 g \<Rightarrow> memberships env ops \<subseteq> set (v6_joins g interfaces))"
proof -
  obtain log where bind: "bind_reuse_udp env (is_ipv4 multicast_addr) port = (log, True)"
    and join: "join_group env interfaces multicast_addr log = (ops, Some joined)"
    using assms by (auto simp: group_socket_def split: prod.splits if_splits)
  note none = bind_reuse_udp_members [OF bind]
  show ?thesis
    using join_group_v4 [OF none] join_group_v6 [OF none] join by (cases multicast_addr) auto
qed

text \<open>The witness is a node on which no IPv6 group can be joined: its listener runs all the same.\<close>

theorem listener_memberships_witness:
  "\<exists>ops. group_socket (\<lambda>_ x. \<not> is_join x) [(2, ''eth0'', [V6 1])] (V6 0xFF020000000000000000000000000003) 2240 =
     (ops, Some False) \<and> memberships (\<lambda>_ x. \<not> is_join x) ops = {}"
proof -
  have "\<exists>ops. group_socket (\<lambda>_ x. \<not> is_join x) [(2, ''eth0'', [V6 1])] (V6 0xFF020000000000000000000000000003) 2240 =
     (ops, Some False)"
    by (simp add: group_socket_def bind_reuse_udp_def join_group_def v6_joins_def is_join_def)
  then show ?thesis using listener_memberships by blast
qed

end
