(* ===== verification/Commands.thy ===== *)
theory Commands
  imports Client Startup Embed Listen
begin

text \<open>
  The commands that send or launch a program, from the command line to the datagrams:
  \<open>run\<close> (\<open>src/command/run.rs\<close>), \<open>run-local\<close> (\<open>run_local.rs\<close>), \<open>chat\<close> (\<open>chat.rs\<close>) and \<open>netmap\<close>
  (\<open>netmap.rs\<close>), each with the order in which it reads its program, its configuration and its keys,
  and with every point where it gives up; and the sending sockets of \<open>run.rs\<close>.
\<close>

section \<open>Sending sockets\<close>

text \<open>Options of a socket that sends to a group by one interface: the interface is part of it.\<close>

datatype sender_op = Common sock_op | MulticastIfV4 u32 | MulticastIfV6 u32

type_synonym sender_env = "sender_op \<Rightarrow> bool"

text \<open>The socket is usable when all calls but the optional ones succeed.\<close>

definition new_multicast_sender_v4 :: "u32 \<Rightarrow> (sender_op \<times> bool) list" where
  "new_multicast_sender_v4 iface_addr =
     [(Common (NewSocket True), True), (MulticastIfV4 iface_addr, True), (Common (SetMulticastTtl 4), True),
      (Common SetMulticastLoop, False), (Common SetNonblocking, True), (Common (BindTo (V4 0) 0), True), (Common FromStd, True)]"

definition new_multicast_sender_v6 :: "u32 \<Rightarrow> (sender_op \<times> bool) list" where
  "new_multicast_sender_v6 iface_idx =
     [(Common (NewSocket False), True), (MulticastIfV6 iface_idx, True),
      (Common SetMulticastLoop, False), (Common SetNonblocking, True), (Common (BindTo (V6 0) 0), True), (Common FromStd, True)]"

definition run_one_iface_socket :: "ip_addr \<Rightarrow> interface \<Rightarrow> (sender_op \<times> bool) list" where
  "run_one_iface_socket multicast_group iface =
     (case iface of (iface_idx, iface_name, iface_addrs) \<Rightarrow>
        case multicast_group of
          V4 g \<Rightarrow> map (\<lambda>x. (Common x, True))
            ([BindTo (V4 0) 0, SetMulticastLoop, SetMulticastTtl 4] @ v4_joins g [iface])
        | V6 g \<Rightarrow> map (\<lambda>x. (Common x, True)) [BindTo (V6 0) 0, SetMulticastLoop, JoinV6 g iface_idx])"

definition usable :: "sender_env \<Rightarrow> (sender_op \<times> bool) list \<Rightarrow> bool" where
  "usable env ops \<longleftrightarrow> list_all (\<lambda>(x, needed). needed \<longrightarrow> env x) ops"

definition pins_interface :: "(sender_op \<times> bool) list \<Rightarrow> bool" where
  "pins_interface ops \<longleftrightarrow> list_ex (\<lambda>(x, needed). needed \<and> (case x of Common _ \<Rightarrow> False | _ \<Rightarrow> True)) ops"

section \<open>Preparing a request\<close>

text \<open>\<open>ce_file\<close> reads the bytes of a file, \<open>ce_files\<close> holds the key files.\<close>

record command_env =
  cm_startup :: startup_env
  cm_files :: files
  cm_read :: "string \<Rightarrow> bytes option"
  cm_client :: client_env
  cm_now :: u64
  cm_embedded :: "(string \<times> bytes) list"

datatype command_error =
    NoProgramFile
  | BadConfig config_error
  | NoIdentity key_error
  | BadRequest
  | NoTerminal
  | NoSocket
  | ProgramFailed

definition load_config :: "command_env \<Rightarrow> args \<Rightarrow> config_error + config" where
  "load_config e a = read_from_file (su_config (cm_startup e)) (config_path (su_args (cm_startup e)) a)"

definition load_identity :: "command_env \<Rightarrow> config \<Rightarrow> key_error + identity_data" where
  "load_identity e c =
     generate_from_config (su_crypto (cm_startup e)) (key_files (cm_startup e) (cm_files e))
       (ic_name (cf_identity c)) (ic_keyfile (cf_identity c)) (cm_now e)"

definition program_name :: "string \<Rightarrow> string" where
  "program_name file_path = (case path_file_name file_path of Some n \<Rightarrow> n | None \<Rightarrow> ''UNSET_NAME'')"

text \<open>What \<open>run\<close> and \<open>run-local\<close> do first: the program, the configuration, the identity, the request.\<close>

definition prepare ::
  "command_env \<Rightarrow> args \<Rightarrow> string \<Rightarrow> string list \<Rightarrow> (string \<times> string) list \<Rightarrow>
   command_error + (config \<times> program_data)" where
  "prepare e a file_path arg_list arg_map =
     (case cm_read e file_path of
        None \<Rightarrow> Inl NoProgramFile
      | Some wasm_bytes \<Rightarrow>
     (case load_config e a of
        Inl err \<Rightarrow> Inl (BadConfig err)
      | Inr local_config \<Rightarrow>
     (case load_identity e local_config of
        Inl err \<Rightarrow> Inl (NoIdentity err)
      | Inr source \<Rightarrow>
     (case program_request wasm_bytes source (program_name file_path) arg_list arg_map of
        None \<Rightarrow> Inl BadRequest
      | Some pd \<Rightarrow> Inr (local_config, pd)))))"

section \<open>The commands\<close>

definition run ::
  "command_env \<Rightarrow> args \<Rightarrow> string \<Rightarrow> bool \<Rightarrow> ip_addr list \<Rightarrow> u16 \<Rightarrow> string list \<Rightarrow> (string \<times> string) list \<Rightarrow>
   command_error + transmit list" where
  "run e a file_path fabric multicast_groups port arg_list arg_map =
     (case prepare e a file_path arg_list arg_map of
        Inl err \<Rightarrow> Inl err
      | Inr (local_config, pd) \<Rightarrow>
          (case ba_to_vec (cl_bare (cm_client e)) (ExecuteRequest pd) of
             None \<Rightarrow> Inl BadRequest
           | Some execute_req_encoded \<Rightarrow>
               Inr (run_sends (cm_client e) execute_req_encoded fabric multicast_groups port (cf_peer local_config))))"

text \<open>\<open>guest\<close> is what the program does: the copies it asked for before it ended, and its exit code, or
  \<open>None\<close> when waiting for it yields its spawn error. A program that cannot be started is logged.\<close>

definition run_local ::
  "command_env \<Rightarrow> args \<Rightarrow> wasm_engine \<Rightarrow> executor \<Rightarrow> (spawned \<Rightarrow> replicate_request list \<times> u32 option) \<Rightarrow>
   string \<Rightarrow> string list \<Rightarrow> (string \<times> string) list \<Rightarrow> ip_addr list \<Rightarrow> u16 \<Rightarrow> command_error + transmit list" where
  "run_local e a we ex guest file_path arg_list arg_map multicast_groups port =
     (case prepare e a file_path arg_list arg_map of
        Inl err \<Rightarrow> Inl err
      | Inr (local_config, pd) \<Rightarrow>
          (let drain = drain_replicates (cm_client e) (pd_wasm_program_bytes pd) (pd_source pd) (pd_human_name pd)
                 multicast_groups port (cf_peer local_config)
           in case begin_exec (su_crypto (cm_startup e)) we pd (exec_options_default\<lparr>eo_replicate_tx := OpenSink\<rparr>) ex of
                (_, Inl _) \<Rightarrow> Inr []
              | (_, Inr spawned) \<Rightarrow>
                  (case guest spawned of
                     (_, None) \<Rightarrow> Inl ProgramFailed
                   | (queued, Some exit_code) \<Rightarrow> Inr (drain queued))))"

text \<open>
  \<open>chat\<close> needs a terminal (\<open>tty_ok\<close>). Its listeners share the executor and are those of \<open>serve\<close>; the
  messages its program queues are sent while it runs, and \<open>in_time\<close> of them before the sending task
  is stopped 300 ms after it ended.
\<close>

definition chat ::
  "command_env \<Rightarrow> args \<Rightarrow> bool \<Rightarrow> (ip_addr \<Rightarrow> sock_env) \<Rightarrow> wasm_engine \<Rightarrow> executor \<Rightarrow> (spawned \<Rightarrow> bytes list) \<Rightarrow> nat \<Rightarrow>
   string option \<Rightarrow> ip_addr list \<Rightarrow> u16 \<Rightarrow>
   command_error + ((ip_addr \<times> sock_op list \<times> bool option) list \<times> transmit list)" where
  "chat e a tty_ok socks we ex guest in_time program multicast_groups port =
     (case load_config e a of
        Inl err \<Rightarrow> Inl (BadConfig err)
      | Inr local_config \<Rightarrow>
     (case load_identity e local_config of
        Inl err \<Rightarrow> Inl (NoIdentity err)
      | Inr source \<Rightarrow>
     (case resolve_chat_program (ae_platform (su_args (cm_startup e))) (cm_read e) (cm_embedded e) program of
        Inl _ \<Rightarrow> Inl NoProgramFile
      | Inr (wasm_bytes, program_label) \<Rightarrow>
          if \<not> tty_ok then Inl NoTerminal
          else (case chat_program wasm_bytes source of
             None \<Rightarrow> Inl BadRequest
           | Some pd \<Rightarrow>
               (case begin_exec (su_crypto (cm_startup e)) we pd
                       (exec_options_default\<lparr>eo_tty := True, eo_fabric_send_tx := OpenSink, eo_uncapped_fuel := True\<rparr>) ex of
                  (_, Inl _) \<Rightarrow> Inl ProgramFailed
                | (_, Inr spawned) \<Rightarrow>
                    Inr (spawn_listeners socks (cl_interfaces (cm_client e)) multicast_groups port,
                         drain_fabric_messages (cm_client e) multicast_groups port (cf_peer local_config)
                           (take in_time (guest spawned))))))))"

text \<open>What \<open>netmap\<close> sends, and whether it got to the end of it; the map is drawn from what comes back.\<close>

definition netmap ::
  "command_env \<Rightarrow> args \<Rightarrow> bytes \<Rightarrow> string option \<Rightarrow> bool \<Rightarrow> ip_addr list \<Rightarrow> u16 \<Rightarrow>
   command_error + (transmit list \<times> bool)" where
  "netmap e a request_uuid program loc multicast_groups port =
     (case resolve_discovery_program (ae_platform (su_args (cm_startup e))) (cm_read e) (cm_embedded e) program of
        Inl _ \<Rightarrow> Inl NoProgramFile
      | Inr (wasm_bytes, program_label) \<Rightarrow>
     (case load_config e a of
        Inl err \<Rightarrow> Inl (BadConfig err)
      | Inr local_config \<Rightarrow>
     (case load_identity e local_config of
        Inl err \<Rightarrow> Inl (NoIdentity err)
      | Inr source \<Rightarrow>
          (let our_pubkey =
             (case read_public_key_ed25519_pem_file (key_files (cm_startup e) (cm_files e)) (su_crypto (cm_startup e))
                     (ic_keyfile (cf_identity local_config)) of
                Inr vk \<Rightarrow> vk
              | Inl _ \<Rightarrow> [])
           in if \<not> cl_bind_ok (cm_client e) True then Inl NoSocket
              else Inr (netmap_sends (cm_client e) wasm_bytes source request_uuid our_pubkey (cf_trusted local_config)
                     loc multicast_groups port (cf_peer local_config))))))"

section \<open>Lemmas\<close>

text \<open>With \<open>--fabric\<close>, \<open>run\<close> sends by sockets that name no interface; the sockets of the broadcast name one.\<close>

lemma run_socket_not_pinned: "\<not> pins_interface (run_one_iface_socket g iface)"
  by (auto simp: pins_interface_def run_one_iface_socket_def list_ex_iff split: prod.splits ip_addr.splits)

lemma sender_pinned:
  "pins_interface (new_multicast_sender_v4 a) \<and> (usable env (new_multicast_sender_v4 a) \<longrightarrow> env (MulticastIfV4 a))"
  "pins_interface (new_multicast_sender_v6 i) \<and> (usable env (new_multicast_sender_v6 i) \<longrightarrow> env (MulticastIfV6 i))"
  by (simp_all add: pins_interface_def new_multicast_sender_v4_def new_multicast_sender_v6_def usable_def)

lemma prepareD:
  assumes "prepare e a file_path arg_list arg_map = Inr (c, pd)" and "ed25519_laws (su_crypto (cm_startup e))"
  shows "load_config e a = Inr c \<and> cm_read e file_path = Some (pd_wasm_program_bytes pd) \<and>
    check_self_signature (su_crypto (cm_startup e)) (pd_source pd) = Inr () \<and>
    id_human_name (pd_source pd) = ic_name (cf_identity c) \<and>
    pd_human_name pd = program_name file_path \<and> pd_arg_list pd = arg_list \<and> pd_arg_map pd = arg_map \<and>
    pd_depth_budget pd = 0"
  using assms
  by (auto simp: prepare_def program_request_def builder_defs load_identity_def generate_from_config_def
      check_self_signature_def sign_identity_data_def read_public_key_of_private verify_hash_signed
      split: option.splits sum.splits)

lemma run_sends_same_bytes: "t \<in> set (run_sends env msg fabric groups port peers) \<Longrightarrow> snd (snd t) = msg"
  by (auto simp: run_sends_def peer_sends_def map_filter_mem split: option.splits if_splits)

text \<open>A program whose run ends in an error spreads nothing, whatever it asked for before.\<close>

lemma run_local_failure_drops_copies:
  assumes "run_local e a we ex guest file_path arg_list arg_map groups port = Inr sends" and "sends \<noteq> []"
  shows "\<exists>sp queued code. guest sp = (queued, Some code) \<and> queued \<noteq> []"
proof (rule ccontr)
  assume no: "\<not> ?thesis"
  have drain: "drain_replicates env w i n gs p ps [] = []" for env w i n gs p ps
    by (simp add: drain_replicates_def)
  have "queued = []" if "guest sp = (queued, Some code)" for sp queued code
    using no that by blast
  with assms show False
    by (fastforce simp: run_local_def Let_def drain split: sum.splits prod.splits option.splits)
qed

section \<open>Properties\<close>

text \<open>C17: \<open>run\<close>, from the command line to the nodes. Every datagram it sends is an execute request
  with the bytes of the program file, its name, the positional arguments and the named ones as given
  on the command line, under an identity with the configured name that passes its own check; no node
  forwards it, and every node whose engine takes the module starts it, as trusted exactly when the
  node trusts the sender's key and with the fixed amount of fuel.\<close>

theorem run_delivers_program:
  assumes "run_command (ar_command a) = CallRun file_path fabric groups port arg_list arg_map"
    and "run e a file_path fabric groups port arg_list arg_map = Inr sends" and "t \<in> set sends"
    and "\<And>m. bare_round_trips (cl_bare (cm_client e)) m" and "ed25519_laws (su_crypto (cm_startup e))"
    and "cm_read e file_path = Some wasm" and "we_engine_ok we" and "we_module_ok we wasm"
  shows "\<exists>p given c ex' sp.
    ba_from_slice (cl_bare (cm_client e)) (snd (snd t)) = Some (ExecuteRequest p) \<and>
    ar_command a = Run file_path fabric groups port given arg_list \<and> pd_arg_map p = parse_arg_map given \<and>
    pd_arg_list p = arg_list \<and> pd_wasm_program_bytes p = wasm \<and> pd_human_name p = program_name file_path \<and>
    load_config e a = Inr c \<and> id_human_name (pd_source p) = ic_name (cf_identity c) \<and>
    {qs. forward_chain p qs} = {[]} \<and>
    begin_exec (su_crypto (cm_startup e)) we p opts ex = (ex', Inr sp) \<and>
    map_option run_program_is_trusted (dm_get (sp_pid sp) (ex_running_programs ex')) =
      Some (id_public_key (pd_source p) \<in> set (dm_values (ex_trusted_keys ex))) \<and>
    sp_fuel sp = (if eo_uncapped_fuel opts then None else Some 128000)"
proof -
  from assms(1) obtain given where g: "ar_command a = Run file_path fabric groups port given arg_list"
    "arg_map = parse_arg_map given" by (cases "ar_command a") auto
  from assms(2) obtain c pd msg where p: "prepare e a file_path arg_list arg_map = Inr (c, pd)"
    and v: "ba_to_vec (cl_bare (cm_client e)) (ExecuteRequest pd) = Some msg"
    and s: "sends = run_sends (cm_client e) msg fabric groups port (cf_peer c)"
    by (auto simp: run_def split: sum.splits option.splits)
  note pd = prepareD [OF p assms(5)]
  have "snd (snd t) = msg" using assms(3) s run_sends_same_bytes by simp
  then have dec: "ba_from_slice (cl_bare (cm_client e)) (snd (snd t)) = Some (ExecuteRequest pd)"
    using v assms(4) unfolding bare_round_trips_def by blast
  have wasm: "pd_wasm_program_bytes pd = wasm" using pd assms(6) by simp
  have chain: "{qs. forward_chain pd qs} = {[]}"
    using forward_chain_length [of pd] pd by (auto intro: chain_nil)
  obtain ex' sp where "begin_exec (su_crypto (cm_startup e)) we pd opts ex = (ex', Inr sp)"
    "map_option run_program_is_trusted (dm_get (sp_pid sp) (ex_running_programs ex')) =
      Some (id_public_key (pd_source pd) \<in> set (dm_values (ex_trusted_keys ex)))"
    "sp_fuel sp = (if eo_uncapped_fuel opts then None else Some 128000)"
    using pd assms(7,8) wasm
    by (auto simp: begin_exec_def create_pid_def Let_def any_key_fold dm_simps FUEL_def case_prod_unfold)
  with dec g pd wasm chain show ?thesis by blast
qed


definition demo_key_store :: files where
  "demo_key_store = [''/etc/id.pem'' \<mapsto> ''pem'']"

definition demo_source :: identity_data where
  "demo_source = (case generate_from_config demo_crypto (key_files demo_startup demo_key_store) ''node'' ''/etc/id.pem'' 9 of
     Inr i \<Rightarrow> i | Inl _ \<Rightarrow> demo_identity)"

definition demo_request :: program_data where
  "demo_request = \<lparr>pd_source = demo_source, pd_human_name = ''hello.wasm'', pd_wasm_program_bytes = [0],
     pd_signature = [], pd_request_uuid = replicate 16 0, pd_depth_budget = 0, pd_visited = [], pd_arg_list = [''x''],
     pd_arg_map = [(''k'', ''v=1'')]\<rparr>"

definition demo_command :: command_env where
  "demo_command = \<lparr>cm_startup = demo_startup, cm_files = demo_key_store,
     cm_read = (\<lambda>f. if f = ''/tmp/hello.wasm'' then Some [0] else None),
     cm_client = demo_client (demo_bare (ExecuteRequest demo_request) [1]), cm_now = 9, cm_embedded = []\<rparr>"

definition demo_run_args :: args where
  "demo_run_args = \<lparr>ar_command = Run ''/tmp/hello.wasm'' False [] 2240 [''k=v=1''] [''x''],
     ar_verbosity = 0, ar_config = None, ar_log_file = None\<rparr>"

lemma demo_run:
  "run demo_command demo_run_args ''/tmp/hello.wasm'' False [] 2240 [''x''] [(''k'', ''v=1'')] =
     Inr [(Routed, SockV4 0x7F000001 2240, [1])]"
proof -
  obtain c where c: "load_config demo_command demo_run_args = Inr c"
    "ic_keyfile (cf_identity c) = ''/etc/id.pem''" "ic_name (cf_identity c) = ''node''"
    by (simp add: load_config_def read_from_file_def demo_startup_def demo_command_def)
  have "read_private_key_ed25519_pem_file (key_files demo_startup demo_key_store) ''/etc/id.pem'' = Inr (replicate 32 7)"
    by (simp add: read_private_key_ed25519_pem_file_def key_files_def demo_startup_def demo_key_codec_def demo_key_store_def)
  then have "\<exists>i. generate_from_config demo_crypto (key_files demo_startup demo_key_store) ''node'' ''/etc/id.pem'' 9 = Inr i"
    by (simp add: generate_from_config_def read_public_key_of_private)
  then have src: "generate_from_config demo_crypto (key_files demo_startup demo_key_store) ''node'' ''/etc/id.pem'' 9 = Inr demo_source"
    by (auto simp: demo_source_def)
  have id: "load_identity demo_command c = Inr demo_source"
    using c src by (simp add: load_identity_def demo_command_def) (simp add: demo_startup_def)
  have "program_name ''/tmp/hello.wasm'' = ''hello.wasm''" by code_simp
  moreover have "cm_read demo_command ''/tmp/hello.wasm'' = Some [0]" by (simp add: demo_command_def)
  moreover have "program_request [0] demo_source ''hello.wasm'' [''x''] [(''k'', ''v=1'')] = Some demo_request"
    by (simp add: program_request_def builder_defs demo_request_def)
  ultimately have "prepare demo_command demo_run_args ''/tmp/hello.wasm'' [''x''] [(''k'', ''v=1'')] = Inr (c, demo_request)"
    using c id by (simp add: prepare_def)
  moreover have "ba_to_vec (cl_bare (cm_client demo_command)) (ExecuteRequest demo_request) = Some [1]"
    by (simp add: demo_command_def demo_client_def demo_bare_def)
  ultimately show ?thesis by (simp add: run_def run_sends_def)
qed

theorem run_delivers_program_witness:
  "\<exists>p ex' sp. ba_from_slice (demo_bare (ExecuteRequest demo_request) [1]) [1] = Some (ExecuteRequest p) \<and>
     pd_arg_map p = [(''k'', ''v=1'')] \<and>
     begin_exec demo_crypto demo_engine p exec_options_default demo_executor = (ex', Inr sp) \<and> sp_fuel sp = Some 128000"
proof -
  have m: "parse_arg_map [''k=v=1''] = [(''k'', ''v=1'')]" by code_simp
  have cmd: "run_command (ar_command demo_run_args) = CallRun ''/tmp/hello.wasm'' False [] 2240 [''x''] [(''k'', ''v=1'')]"
    by (simp add: demo_run_args_def m)
  have b: "bare_round_trips (cl_bare (cm_client demo_command)) m" for m
    by (simp add: demo_command_def demo_client_def demo_bare_round_trips)
  have laws: "ed25519_laws (su_crypto (cm_startup demo_command))"
    by (simp add: demo_command_def demo_startup_def demo_crypto_laws)
  have wasm: "cm_read demo_command ''/tmp/hello.wasm'' = Some [0]" by (simp add: demo_command_def)
  have engine: "we_engine_ok demo_engine" "we_module_ok demo_engine [0]" by (simp_all add: demo_engine_def)
  show ?thesis
    using run_delivers_program [OF cmd demo_run _ b laws wasm engine, of _ exec_options_default demo_executor] m
    by (auto simp: demo_command_def demo_client_def demo_startup_def exec_options_default_def demo_run_args_def)
qed

end
