(* ===== verification/Process.thy ===== *)
theory Process
  imports Commands
begin

text \<open>
  The whole program, \<open>main\<close> and \<open>async_main\<close> of \<open>src/main.rs\<close> with the dispatch of
  \<open>src/command/mod.rs\<close>: the offer to generate a missing key, then the command, then the exit code.
  What a run does to the outside is one record: key files, datagrams, actions on the machine. What
  it prints is left to the definition of each command.
\<close>

section \<open>A run of the program\<close>

text \<open>The machine and what is asked of it; \<open>pr_module\<close> parses a module, \<open>pr_created\<close> and \<open>pr_writable\<close>
  tell what \<open>extract-programs\<close> can write.\<close>

record process_env =
  pr_command :: command_env
  pr_service :: service_env
  pr_template :: "dir_entry list"
  pr_socks :: "ip_addr \<Rightarrow> sock_env"
  pr_engine :: wasm_engine
  pr_executor :: executor
  pr_copies :: "spawned \<Rightarrow> replicate_request list \<times> u32 option"
  pr_messages :: "spawned \<Rightarrow> bytes list"
  pr_in_time :: nat
  pr_tty_ok :: bool
  pr_request_uuid :: bytes
  pr_module :: "bytes \<Rightarrow> wasm_module option"
  pr_shown_size :: "bytes \<Rightarrow> string"
  pr_created :: bool
  pr_writable :: "string \<Rightarrow> bool"

record effects =
  ef_files :: files
  ef_sent :: "transmit list"
  ef_actions :: "action list"
  ef_ok :: bool

definition no_effects :: "files \<Rightarrow> bool \<Rightarrow> effects" where
  "no_effects fs ok = \<lparr>ef_files = fs, ef_sent = [], ef_actions = [], ef_ok = ok\<rparr>"

text \<open>\<open>info\<close>: the file, the module, the lines.\<close>

definition info :: "process_env \<Rightarrow> string \<Rightarrow> string list option" where
  "info e file_path =
     Option.bind (cm_read (pr_command e) file_path) (\<lambda>wasm_bytes.
     map_option (info_lines file_path (pr_shown_size e wasm_bytes)) (pr_module e wasm_bytes))"

fun perform :: "process_env \<Rightarrow> args \<Rightarrow> files \<Rightarrow> call \<Rightarrow> effects" where
  "perform e a fs (CallInfo file_path) =
     no_effects fs (info e file_path \<noteq> None)"
| "perform e a fs (CallConfiguration style) =
     (case configuration (cm_startup (pr_command e)) a style fs of
        (fs', r) \<Rightarrow> no_effects fs' (case r of Inr _ \<Rightarrow> True | Inl _ \<Rightarrow> False))"
| "perform e a fs (CallInstallTo install_root install_etc install_bin) =
     (case install_to (pr_service e) (pr_template e) install_root install_etc install_bin [] of
        (actions, ok) \<Rightarrow> (no_effects fs ok)\<lparr>ef_actions := actions\<rparr>)"
| "perform e a fs (CallRun file_path fabric multicast_groups port arg_list arg_map) =
     (case run ((pr_command e)\<lparr>cm_files := fs\<rparr>) a file_path fabric multicast_groups port arg_list arg_map of
        Inl _ \<Rightarrow> no_effects fs False
      | Inr sends \<Rightarrow> (no_effects fs True)\<lparr>ef_sent := sends\<rparr>)"
| "perform e a fs (CallRunLocal file_path arg_list arg_map multicast_groups port) =
     (case run_local ((pr_command e)\<lparr>cm_files := fs\<rparr>) a (pr_engine e) (pr_executor e) (pr_copies e)
             file_path arg_list arg_map multicast_groups port of
        Inl _ \<Rightarrow> no_effects fs False
      | Inr sends \<Rightarrow> (no_effects fs True)\<lparr>ef_sent := sends\<rparr>)"
| "perform e a fs (CallServe multicast_groups port) =
     (case serve (pr_service e) (pr_socks e) (cl_interfaces (cm_client (pr_command e)))
             (case load_config (pr_command e) a of Inr c \<Rightarrow> Some c | Inl _ \<Rightarrow> None) multicast_groups port of
        (actions, listeners) \<Rightarrow> (no_effects fs (listeners \<noteq> None))\<lparr>ef_actions := actions\<rparr>)"
| "perform e a fs (CallNetmap program loc multicast_groups port) =
     (case netmap ((pr_command e)\<lparr>cm_files := fs\<rparr>) a (pr_request_uuid e) program loc multicast_groups port of
        Inl _ \<Rightarrow> no_effects fs False
      | Inr (sends, ok) \<Rightarrow> (no_effects fs ok)\<lparr>ef_sent := sends\<rparr>)"
| "perform e a fs (CallChat program multicast_groups port) =
     (case chat ((pr_command e)\<lparr>cm_files := fs\<rparr>) a (pr_tty_ok e) (pr_socks e) (pr_engine e) (pr_executor e)
             (pr_messages e) (pr_in_time e) program multicast_groups port of
        Inl _ \<Rightarrow> no_effects fs False
      | Inr (listeners, sends) \<Rightarrow> (no_effects fs True)\<lparr>ef_sent := sends\<rparr>)"
| "perform e a fs (CallExtractPrograms out_dir) =
     (case extract_programs (se_platform (pr_service e)) (pr_created e) (pr_writable e) (cm_embedded (pr_command e)) out_dir of
        (written, ok) \<Rightarrow>
          (no_effects fs ok)\<lparr>ef_actions :=
             (if cm_embedded (pr_command e) = [] then [] else CreateDir out_dir # map (\<lambda>(f, b). WriteBytes f b) written)\<rparr>)"
| "perform e a fs (CallDaemon act) =
     (case daemon (pr_service e) act [] of (actions, ok) \<Rightarrow> (no_effects fs ok)\<lparr>ef_actions := actions\<rparr>)"

text \<open>\<open>input\<close> is the answer to the prompt. An error of the command is printed and gives exit code 1.\<close>

definition async_main :: "process_env \<Rightarrow> args \<Rightarrow> string \<Rightarrow> effects" where
  "async_main e a input =
     perform e a (handle_friendly_ux_warnings (cm_startup (pr_command e)) a input (cm_files (pr_command e)))
       (run_command (ar_command a))"

definition main_exit_code :: "effects \<Rightarrow> nat" where
  "main_exit_code r = (if ef_ok r then 0 else 1)"

section \<open>Lemmas\<close>

fun sends_datagrams :: "command \<Rightarrow> bool" where
  "sends_datagrams (Run _ _ _ _ _ _) = True"
| "sends_datagrams (RunLocal _ _ _ _ _) = True"
| "sends_datagrams (NetmapCmd _ _ _ _) = True"
| "sends_datagrams (Chat _ _ _) = True"
| "sends_datagrams _ = False"

fun acts_on_machine :: "command \<Rightarrow> bool" where
  "acts_on_machine (InstallTo _ _ _) = True"
| "acts_on_machine (ServeCmd _ _) = True"
| "acts_on_machine (ExtractPrograms _) = True"
| "acts_on_machine (Daemon _) = True"
| "acts_on_machine _ = False"

lemma no_effects_simps [simp]:
  "ef_files (no_effects fs ok) = fs" "ef_sent (no_effects fs ok) = []" "ef_actions (no_effects fs ok) = []"
  "ef_ok (no_effects fs ok) = ok"
  by (simp_all add: no_effects_def)

lemma perform_files:
  "ef_files (perform e a fs (run_command cmd)) =
     (if cmd = GenerateMissingKeys then fst (configuration (cm_startup (pr_command e)) a CreateMissingKeys fs)
      else if cmd = Configuration then fst (configuration (cm_startup (pr_command e)) a DoNotCreateMissingKeys fs)
      else fs)"
  by (cases cmd) (auto split: option.splits sum.splits prod.splits)

lemma perform_sent: "ef_sent (perform e a fs (run_command cmd)) = [] \<or> sends_datagrams cmd"
  by (cases cmd) (auto split: option.splits sum.splits prod.splits)

lemma perform_actions: "ef_actions (perform e a fs (run_command cmd)) = [] \<or> acts_on_machine cmd"
  by (cases cmd) (auto split: option.splits sum.splits prod.splits)

section \<open>Properties\<close>

lemma shown_configuration_changes_nothing: "fst (configuration e a DoNotCreateMissingKeys fs) = fs"
  using configuration_changes [of e a DoNotCreateMissingKeys fs] by (intro ext) blast

lemma friendly_changes:
  "handle_friendly_ux_warnings e a input fs = fs \<or>
     ask_user_proceed_yn input \<and> ar_command a \<noteq> GenerateMissingKeys \<and>
     handle_friendly_ux_warnings e a input fs = fst (configuration e a CreateMissingKeys fs)"
  by (auto simp: handle_friendly_ux_warnings_def split: sum.splits)

lemma async_main_files:
  assumes "ef_files (async_main e a input) \<noteq> cm_files (pr_command e)"
  shows "(ar_command a = GenerateMissingKeys \<or> ask_user_proceed_yn input) \<and>
    ef_files (async_main e a input) =
      fst (configuration (cm_startup (pr_command e)) a CreateMissingKeys (cm_files (pr_command e)))"
  using assms friendly_changes [of "cm_startup (pr_command e)" a input "cm_files (pr_command e)"]
  by (auto simp: async_main_def perform_files shown_configuration_changes_nothing handle_friendly_ux_warnings_def
      split: if_splits sum.splits)


end
