(* ===== verification/Concurrent.thy ===== *)
theory Concurrent
  imports Node_Type
begin

text \<open>
  The listeners of a node at work at the same time. \<open>serve\<close> starts one task per multicast group
  (\<open>spawn_listeners\<close>); they share the executor, and so do the programs they start. Here the handling
  of a datagram (\<open>Serve.handle_datagram\<close>) is cut at every access to the shared executor: noting the
  peer, taking a pid, entering the program in the table, each host call, the end of the program, the
  recording of a message. Between any two of them any other listener may move. Everything a task
  keeps to itself is its \<open>phase\<close>. That the steps of one task, taken without interruption, give
  \<open>handle_datagram\<close> is a theorem. The steps inside one access (a \<open>DashMap\<close> shard, the lock of the
  message store) are atomic; the race between the insertion of a pid and the end of its program, and
  the notification of waiters, are in \<open>Lifecycle\<close>.
\<close>

section \<open>The transition system\<close>

datatype phase =
    Receiving
  | Judging socket_addr program_data
  | Starting socket_addr program_data bool u64
  | Running socket_addr program_data spawned host_state
  | Replying socket_addr program_data spawned host_state
  | Storing identity_data bytes bytes
  | Ended

text \<open>\<open>cn_heard\<close> remembers the datagrams received, \<open>cn_taken\<close> counts the pids taken.\<close>

record cnode =
  cn_ex :: executor
  cn_task :: "nat \<Rightarrow> phase"
  cn_taken :: nat
  cn_heard :: "network_message set"

definition cnode_init :: "executor \<Rightarrow> cnode" where
  "cnode_init ex = \<lparr>cn_ex = ex, cn_task = (\<lambda>_. Receiving), cn_taken = 0, cn_heard = {}\<rparr>"

definition move :: "nat \<Rightarrow> phase \<Rightarrow> executor \<Rightarrow> cnode \<Rightarrow> cnode" where
  "move i ph ex s = s\<lparr>cn_ex := ex, cn_task := (cn_task s)(i := ph)\<rparr>"

text \<open>Both signatures of a fabric message.\<close>

definition acceptable :: "crates \<Rightarrow> network_message \<Rightarrow> bool" where
  "acceptable c msg \<longleftrightarrow>
     (case msg of
        SignedFabricMessage source id_bytes cbor_data signature \<Rightarrow>
          check_self_signature (ck_crypto c) source = Inr () \<and>
          verify_payload (ck_crypto c) source id_bytes cbor_data signature = Inr ()
      | _ \<Rightarrow> False)"

fun is_request :: "network_message \<Rightarrow> bool" where
  "is_request (ExecuteRequest p) = True"
| "is_request _ = False"

definition hear :: "network_message \<Rightarrow> cnode \<Rightarrow> cnode" where
  "hear msg s = s\<lparr>cn_heard := insert msg (cn_heard s)\<rparr>"

text \<open>A step of task \<open>i\<close>. The label tells the datagram a step receives.\<close>

datatype label = Hears network_message | Works

inductive cstep :: "crates \<Rightarrow> cnode \<Rightarrow> nat \<Rightarrow> label \<Rightarrow> cnode \<Rightarrow> bool" for c where
  hear_request: "cn_task s i = Receiving \<Longrightarrow>
    cstep c s i (Hears (ExecuteRequest p))
      (move i (Judging addr p) (note_peer now addr (pd_source p) (cn_ex s)) (hear (ExecuteRequest p) s))"
| hear_message: "cn_task s i = Receiving \<Longrightarrow> msg = SignedFabricMessage source id_bytes cbor_data signature \<Longrightarrow>
    acceptable c msg \<Longrightarrow>
    cstep c s i (Hears msg)
      (move i (Storing source id_bytes cbor_data) (note_peer now addr source (cn_ex s)) (hear msg s))"
| hear_nothing: "cn_task s i = Receiving \<Longrightarrow> \<not> is_request msg \<Longrightarrow> \<not> acceptable c msg \<Longrightarrow>
    cstep c s i (Hears msg) (hear msg s)"
| record_message: "cn_task s i = Storing source id_bytes cbor_data \<Longrightarrow>
    cstep c s i Works
      (move i Receiving (fst (record_fabric_message (id_human_name source) (id_public_key source)
          id_bytes cbor_data now (cn_ex s))) s)"
| refuse: "cn_task s i = Judging addr p \<Longrightarrow> check_self_signature (ck_crypto c) (pd_source p) = Inl e \<Longrightarrow>
    cstep c s i Works (move i Receiving (cn_ex s) s)"
| take_pid: "cn_task s i = Judging addr p \<Longrightarrow> check_self_signature (ck_crypto c) (pd_source p) = Inr () \<Longrightarrow>
    create_next_pid (cn_ex s) = (ex', pid) \<Longrightarrow>
    cstep c s i Works
      ((move i (Starting addr p (trusts_pubkey (id_public_key (pd_source p)) (cn_ex s)) pid) ex' s)
        \<lparr>cn_taken := Suc (cn_taken s)\<rparr>)"
| start_fails: "cn_task s i = Starting addr p trusted pid \<Longrightarrow>
    \<not> (we_engine_ok (we :: wasm_engine) \<and> we_module_ok we (pd_wasm_program_bytes p)) \<Longrightarrow>
    cstep c s i Works (move i Receiving (cn_ex s) s)"
| start_program: "cn_task s i = Starting addr p trusted pid \<Longrightarrow>
    opts = exec_options_default\<lparr>eo_node_addr := node_addr\<rparr> \<Longrightarrow>
    cstep c s i Works
      (move i (Running addr p \<lparr>sp_pid = pid, sp_store = spawn_snapshot (cn_ex s) p trusted opts,
                               sp_fuel = Some FUEL\<rparr> (guest_init (cn_ex s)))
         ((cn_ex s)\<lparr>ex_running_programs := dm_insert pid
            \<lparr>run_data = p, run_pid = pid, run_program_is_trusted = trusted, run_spawn_error = None\<rparr>
            (ex_running_programs (cn_ex s))\<rparr>) s)"
| host_call: "cn_task s i = Running addr p sp hs \<Longrightarrow>
    host_step c (sp_store sp) e call (hs\<lparr>hs_memory := mem, hs_messages := ex_messages (cn_ex s)\<rparr>) = Inr (hs', r) \<Longrightarrow>
    cstep c s i Works (move i (Running addr p sp hs') ((cn_ex s)\<lparr>ex_messages := hs_messages hs'\<rparr>) s)"
| program_ends: "cn_task s i = Running addr p sp hs \<Longrightarrow>
    cstep c s i Works (move i (Replying addr p sp hs) (finish_pid (sp_pid sp) code (cn_ex s)) s)"
| reply: "cn_task s i = Replying addr p sp hs \<Longrightarrow> cstep c s i Works (move i Receiving (cn_ex s) s)"
| give_up: "cn_task s i = Replying addr p sp hs \<Longrightarrow> cstep c s i Works (move i Ended (cn_ex s) s)"
| receive_fails: "cn_task s i = Receiving \<Longrightarrow> cstep c s i Works (move i Ended (cn_ex s) s)"

inductive_cases cstep_cases: "cstep c s i lab s'"

inductive creach :: "crates \<Rightarrow> cnode \<Rightarrow> cnode \<Rightarrow> bool" for c s0 where
  creach_start: "creach c s0 s0"
| creach_step: "creach c s0 s \<Longrightarrow> cstep c s i lab s' \<Longrightarrow> creach c s0 s'"

text \<open>Task \<open>i\<close> moves and no other does.\<close>

abbreviation alone :: "crates \<Rightarrow> nat \<Rightarrow> cnode \<Rightarrow> cnode \<Rightarrow> bool" where
  "alone c i \<equiv> (\<lambda>s s'. \<exists>lab. cstep c s i lab s')\<^sup>*\<^sup>*"

section \<open>Lemmas\<close>

lemma move_simps [simp]:
  "cn_ex (move i ph ex s) = ex" "cn_task (move i ph ex s) = (cn_task s)(i := ph)"
  "cn_taken (move i ph ex s) = cn_taken s" "cn_heard (move i ph ex s) = cn_heard s"
  by (simp_all add: move_def)

lemma hear_simps [simp]:
  "cn_ex (hear msg s) = cn_ex s" "cn_task (hear msg s) = cn_task s" "cn_taken (hear msg s) = cn_taken s"
  "cn_heard (hear msg s) = insert msg (cn_heard s)"
  by (simp_all add: hear_def)

lemma cnode_init_simps [simp]:
  "cn_ex (cnode_init ex) = ex" "cn_task (cnode_init ex) i = Receiving" "cn_taken (cnode_init ex) = 0"
  "cn_heard (cnode_init ex) = {}"
  by (simp_all add: cnode_init_def)

text \<open>Only the stepping task changes its phase.\<close>

lemma cstep_task: "cstep c s i lab s' \<Longrightarrow> j \<noteq> i \<Longrightarrow> cn_task s' j = cn_task s j"
  by (induction rule: cstep.induct) auto

section \<open>Attribution\<close>

text \<open>A datagram accounts for a message: the signed fabric message with its name, key and payload, or a
  request, whose program may push anything under the name and key of the request's source.\<close>

definition accounts_for :: "crates \<Rightarrow> network_message \<Rightarrow> stored_message \<Rightarrow> bool" where
  "accounts_for c msg m \<longleftrightarrow>
     (case msg of
        SignedFabricMessage source id_bytes cbor_data signature \<Rightarrow>
          acceptable c msg \<and> sm_from_name m = id_human_name source \<and> sm_from_pubkey m = id_public_key source \<and>
          sm_text m = cbor_data
      | ExecuteRequest p \<Rightarrow>
          check_self_signature (ck_crypto c) (pd_source p) = Inr () \<and>
          sm_from_name m = id_human_name (pd_source p) \<and> sm_from_pubkey m = id_public_key (pd_source p)
      | _ \<Rightarrow> False)"

fun phase_ok :: "crates \<Rightarrow> network_message set \<Rightarrow> phase \<Rightarrow> bool" where
  "phase_ok c heard (Judging addr p) \<longleftrightarrow> ExecuteRequest p \<in> heard"
| "phase_ok c heard (Starting addr p trusted pid) \<longleftrightarrow> ExecuteRequest p \<in> heard \<and>
     check_self_signature (ck_crypto c) (pd_source p) = Inr ()"
| "phase_ok c heard (Running addr p sp hs) \<longleftrightarrow> ExecuteRequest p \<in> heard \<and>
     check_self_signature (ck_crypto c) (pd_source p) = Inr () \<and>
     rp_caller_name (sp_store sp) = id_human_name (pd_source p) \<and>
     rp_caller_pubkey (sp_store sp) = id_public_key (pd_source p)"
| "phase_ok c heard (Storing source id_bytes cbor_data) \<longleftrightarrow>
     (\<exists>signature. SignedFabricMessage source id_bytes cbor_data signature \<in> heard \<and>
        acceptable c (SignedFabricMessage source id_bytes cbor_data signature))"
| "phase_ok c heard _ \<longleftrightarrow> True"

definition attributed :: "crates \<Rightarrow> executor \<Rightarrow> cnode \<Rightarrow> bool" where
  "attributed c ex0 s \<longleftrightarrow> (\<forall>i. phase_ok c (cn_heard s) (cn_task s i)) \<and>
     (\<forall>m \<in> set (ms_msgs (ex_messages (cn_ex s))).
        m \<in> set (ms_msgs (ex_messages ex0)) \<or> (\<exists>msg \<in> cn_heard s. accounts_for c msg m))"

lemma phase_ok_mono: "phase_ok c xs ph \<Longrightarrow> xs \<subseteq> ys \<Longrightarrow> phase_ok c ys ph"
  by (cases ph) auto

lemma ms_push_req_text:
  assumes "m \<in> set (ms_msgs (fst (ms_push_req q s)))"
  shows "m \<in> set (ms_msgs s) \<or> sm_from_name m = pr_name q \<and> sm_from_pubkey m = pr_pubkey q \<and> sm_text m = pr_text q"
  using assms set_pop_while_over
  by (fastforce simp: ms_push_req_def ms_push_def ms_append_def Let_def split: if_splits)

lemma ms_push_text:
  assumes "m \<in> set (ms_msgs (fst (ms_push name key i d now s)))"
  shows "m \<in> set (ms_msgs s) \<or> sm_from_name m = name \<and> sm_from_pubkey m = key \<and> sm_text m = d"
  using ms_push_req_text [of m "\<lparr>pr_name = name, pr_pubkey = key, pr_id = i, pr_text = d, pr_epoch = now\<rparr>" s]
    assms by (simp add: ms_push_req_def)

lemma attributed_move:
  assumes "attributed c ex0 s" and "cn_heard s \<subseteq> cn_heard s'"
    and "\<And>j. cn_task s' j = cn_task s j \<or> phase_ok c (cn_heard s') (cn_task s' j)"
    and "\<And>m. m \<in> set (ms_msgs (ex_messages (cn_ex s'))) \<Longrightarrow>
           m \<in> set (ms_msgs (ex_messages (cn_ex s))) \<or> (\<exists>msg \<in> cn_heard s'. accounts_for c msg m)"
  shows "attributed c ex0 s'"
proof -
  have "phase_ok c (cn_heard s') (cn_task s' j)" for j
    using assms(1-3) phase_ok_mono [of c "cn_heard s" "cn_task s j" "cn_heard s'"] by (metis attributed_def)
  moreover have "m \<in> set (ms_msgs (ex_messages ex0)) \<or> (\<exists>msg \<in> cn_heard s'. accounts_for c msg m)"
    if m: "m \<in> set (ms_msgs (ex_messages (cn_ex s')))" for m
    using assms(4) [OF m]
  proof
    assume "m \<in> set (ms_msgs (ex_messages (cn_ex s)))"
    with assms(1) have "m \<in> set (ms_msgs (ex_messages ex0)) \<or> (\<exists>msg \<in> cn_heard s. accounts_for c msg m)"
      by (simp add: attributed_def)
    with assms(2) show ?thesis by blast
  qed simp
  ultimately show ?thesis by (simp add: attributed_def)
qed

lemma attributed_step: "cstep c s i lab s' \<Longrightarrow> attributed c ex0 s \<Longrightarrow> attributed c ex0 s'"
proof (induction rule: cstep.induct)
  case (record_message s i source id_bytes cbor_data now)
  have ok: "phase_ok c (cn_heard s) (Storing source id_bytes cbor_data)"
    using record_message by (metis attributed_def)
  have "m \<in> set (ms_msgs (ex_messages (cn_ex s))) \<or> (\<exists>msg \<in> cn_heard s. accounts_for c msg m)"
    if "m \<in> set (ms_msgs (ex_messages (fst (record_fabric_message (id_human_name source) (id_public_key source)
          id_bytes cbor_data now (cn_ex s)))))" for m
  proof -
    have "m \<in> set (ms_msgs (fst (ms_push (id_human_name source) (id_public_key source) id_bytes cbor_data now (ex_messages (cn_ex s)))))"
      using that by (simp add: record_fabric_message_def case_prod_unfold Let_def)
    from ms_push_text [OF this] ok show ?thesis by (fastforce simp: accounts_for_def)
  qed
  then show ?case by (intro attributed_move [OF record_message.prems]) auto
next
  case (start_program s i addr p trusted pid opts node_addr)
  then have "phase_ok c (cn_heard s) (Starting addr p trusted pid)" by (metis attributed_def)
  then show ?case by (intro attributed_move [OF start_program.prems]) (auto simp: spawn_snapshot_def)
next
  case (host_call s i addr p sp hs e call mem hs' r)
  have ok: "phase_ok c (cn_heard s) (Running addr p sp hs)" using host_call by (metis attributed_def)
  have "m \<in> set (ms_msgs (ex_messages (cn_ex s))) \<or> (\<exists>msg \<in> cn_heard s. accounts_for c msg m)"
    if "m \<in> set (ms_msgs (hs_messages hs'))" for m
    using host_step_messages [OF host_call.hyps(2)] that ms_push_req_text [of m] ok
    by (fastforce simp: accounts_for_def)
  with ok show ?case by (intro attributed_move [OF host_call.prems]) auto
next
  case (take_pid s i addr p ex' pid)
  then have "phase_ok c (cn_heard s) (Judging addr p)" by (metis attributed_def)
  then show ?case using take_pid by (intro attributed_move [OF take_pid.prems]) (auto simp: create_next_pid_def)
next
  case (hear_message s i msg source id_bytes cbor_data signature now addr)
  then show ?case by (intro attributed_move [OF hear_message.prems]) auto
qed (auto elim!: attributed_move)

section \<open>Types\<close>

lemma node_typed_step:
  "cstep c s i lab s' \<Longrightarrow> node_ok (cn_ex s) \<Longrightarrow>
     node_ok (cn_ex s') \<and> node_fixed (cn_ex s') = node_fixed (cn_ex s)"
proof (induction rule: cstep.induct)
  case (record_message s i source id_bytes cbor_data now)
  let ?r = "ms_push (id_human_name source) (id_public_key source) id_bytes cbor_data now (ex_messages (cn_ex s))"
  have "store_ok (fst ?r) \<and> ms_cap (fst ?r) = ms_cap (ex_messages (cn_ex s))"
    using record_message.prems by (intro ms_push_ok) (simp add: node_ok_def)
  then show ?case using store_update_ok [OF record_message.prems, of "fst ?r"]
    by (simp add: record_fabric_message_def case_prod_unfold Let_def)
next
  case (host_call s i addr p sp hs e call mem hs' r)
  have "store_ok (hs_messages hs') \<and> ms_cap (hs_messages hs') = ms_cap (ex_messages (cn_ex s))"
    using host_step_messages [OF host_call.hyps(2)] host_call.prems ms_push_ok
    by (auto simp: node_ok_def ms_push_req_def)
  then show ?case using store_update_ok [OF host_call.prems, of "hs_messages hs'"] by simp
next
  case (start_program s i addr p trusted pid opts node_addr)
  then show ?case by (auto simp: node_ok_def node_fixed_def dm.ok_ins intro!: list_all_update)
next
  case (take_pid s i addr p ex' pid)
  then show ?case by (auto simp: create_next_pid_def node_ok_def node_fixed_def)
qed (simp_all add: note_peer_ok finish_pid_ok)

lemma creach_invariant:
  assumes "creach c s0 s" and "P s0" and "\<And>s i lab s'. P s \<Longrightarrow> cstep c s i lab s' \<Longrightarrow> P s'"
  shows "P s"
  using assms(1) by (induction rule: creach.induct) (use assms(2,3) in blast)+

lemma creach_typed:
  "creach c (cnode_init ex) s \<Longrightarrow> node_ok ex \<Longrightarrow> node_ok (cn_ex s) \<and> node_fixed (cn_ex s) = node_fixed ex"
  by (rule creach_invariant [of c "cnode_init ex" s "\<lambda>s. node_ok (cn_ex s) \<and> node_fixed (cn_ex s) = node_fixed ex"])
    (auto dest: node_typed_step)

lemma creach_attributed: "creach c (cnode_init ex) s \<Longrightarrow> attributed c ex s"
  by (rule creach_invariant [of c "cnode_init ex" s "attributed c ex"])
    (auto simp: attributed_def [of c ex "cnode_init ex"] intro: attributed_step)

section \<open>Process ids\<close>

fun pid_of :: "phase \<Rightarrow> u64 option" where
  "pid_of (Starting addr p trusted pid) = Some pid"
| "pid_of (Running addr p sp hs) = Some (sp_pid sp)"
| "pid_of (Replying addr p sp hs) = Some (sp_pid sp)"
| "pid_of _ = None"

fun listed :: "executor \<Rightarrow> phase \<Rightarrow> bool" where
  "listed ex (Running addr p sp hs) \<longleftrightarrow>
     (\<exists>r. dm_get (sp_pid sp) (ex_running_programs ex) = Some r \<and> run_data r = p)"
| "listed ex _ \<longleftrightarrow> True"

text \<open>\<open>n\<close> is the first pid taken. Pids of the tasks are among those taken, no two are equal, and a
  program that runs is in the table.\<close>

definition pids_ok :: "u64 \<Rightarrow> cnode \<Rightarrow> bool" where
  "pids_ok n s \<longleftrightarrow> ex_next_pid (cn_ex s) = n + of_nat (cn_taken s) \<and>
     (\<forall>i pid. pid_of (cn_task s i) = Some pid \<longrightarrow> (\<exists>k < cn_taken s. pid = n + of_nat k)) \<and>
     (\<forall>i j pid. pid_of (cn_task s i) = Some pid \<and> pid_of (cn_task s j) = Some pid \<longrightarrow> i = j) \<and>
     (\<forall>i. listed (cn_ex s) (cn_task s i))"

lemma pids_ok_hear [simp]: "pids_ok n (hear msg s) = pids_ok n s"
  by (simp add: pids_ok_def)

lemma pid_fresh:
  assumes "k < m" and "m < 2 ^ 64"
  shows "n + of_nat k \<noteq> (n + of_nat m :: u64)"
  using assms of_nat_u64_less [of k m] by auto

lemma listed_unchanged:
  "listed ex ph \<Longrightarrow> ex_running_programs ex' = ex_running_programs ex \<Longrightarrow> listed ex' ph"
  by (cases ph) auto

lemma listed_other:
  assumes "listed ex ph" and "pid_of ph \<noteq> Some pid"
    and "\<And>k. k \<noteq> pid \<Longrightarrow> dm_get k (ex_running_programs ex') = dm_get k (ex_running_programs ex)"
  shows "listed ex' ph"
  using assms by (cases ph) auto

lemma pids_move:
  assumes "pids_ok n s" and "\<And>j. j \<noteq> i \<Longrightarrow> cn_task s' j = cn_task s j"
    and "pid_of (cn_task s' i) = None \<or> pid_of (cn_task s' i) = pid_of (cn_task s i)"
    and "cn_taken s' = cn_taken s" and "ex_next_pid (cn_ex s') = ex_next_pid (cn_ex s)"
    and "\<And>j. listed (cn_ex s') (cn_task s' j)"
  shows "pids_ok n s'"
proof -
  have same: "pid_of (cn_task s' j) = Some pid \<Longrightarrow> pid_of (cn_task s j) = Some pid" for j pid
    using assms(2,3) by (cases "j = i") auto
  show ?thesis using assms(1,4-6) same unfolding pids_ok_def by metis
qed

lemma pids_same_table:
  assumes "pids_ok n s" and "\<And>j. j \<noteq> i \<Longrightarrow> cn_task s' j = cn_task s j"
    and "pid_of (cn_task s' i) = None \<or> pid_of (cn_task s' i) = pid_of (cn_task s i)"
    and "cn_taken s' = cn_taken s" and "ex_next_pid (cn_ex s') = ex_next_pid (cn_ex s)"
    and "ex_running_programs (cn_ex s') = ex_running_programs (cn_ex s)" and "listed (cn_ex s') (cn_task s' i)"
  shows "pids_ok n s'"
proof (rule pids_move [OF assms(1-5)])
  show "listed (cn_ex s') (cn_task s' j)" for j
    using assms listed_unchanged [of "cn_ex s" "cn_task s j" "cn_ex s'"] by (cases "j = i") (auto simp: pids_ok_def)
qed

lemma pids_local:
  assumes "pids_ok n s" and "pid_of ph = None" and "ex_next_pid ex = ex_next_pid (cn_ex s)"
    and "ex_running_programs ex = ex_running_programs (cn_ex s)"
  shows "pids_ok n (move i ph ex s)"
proof -
  have "listed ex ph" using assms(2) by (cases ph) simp_all
  then show ?thesis using assms by (intro pids_same_table [OF assms(1), of i]) simp_all
qed

text \<open>A step of \<open>i\<close> that touches the table only at its own pid.\<close>

lemma pids_own_entry:
  assumes "pids_ok n s" and "\<And>j. j \<noteq> i \<Longrightarrow> cn_task s' j = cn_task s j"
    and "pid_of (cn_task s i) = Some pid" and "pid_of (cn_task s' i) = Some pid"
    and "cn_taken s' = cn_taken s" and "ex_next_pid (cn_ex s') = ex_next_pid (cn_ex s)"
    and "\<And>k. k \<noteq> pid \<Longrightarrow> dm_get k (ex_running_programs (cn_ex s')) = dm_get k (ex_running_programs (cn_ex s))"
    and "listed (cn_ex s') (cn_task s' i)"
  shows "pids_ok n s'"
proof (rule pids_move [OF assms(1,2) _ assms(5,6)])
  show "pid_of (cn_task s' i) = None \<or> pid_of (cn_task s' i) = pid_of (cn_task s i)" using assms(3,4) by simp
  show "listed (cn_ex s') (cn_task s' j)" for j
  proof (cases "j = i")
    case False
    with assms(1,3) have "pid_of (cn_task s j) \<noteq> Some pid" "listed (cn_ex s) (cn_task s j)"
      by (auto simp: pids_ok_def)
    from listed_other [OF this(2,1) assms(7)] show ?thesis using assms(2) False by simp
  qed (use assms(8) in simp)
qed

lemma pids_ok_step:
  assumes "cstep c s i lab s'" and "pids_ok n s" and "cn_taken s' \<le> 2 ^ 64"
  shows "pids_ok n s'"
  using assms
proof (induction rule: cstep.induct)
  case (take_pid s i addr p ex' pid)
  let ?s = "(move i (Starting addr p (trusts_pubkey (id_public_key (pd_source p)) (cn_ex s)) pid) ex' s)\<lparr>cn_taken := Suc (cn_taken s)\<rparr>"
  have ex: "ex' = (cn_ex s)\<lparr>ex_next_pid := ex_next_pid (cn_ex s) + 1\<rparr>" and pid: "pid = n + of_nat (cn_taken s)"
    using take_pid by (auto simp: create_next_pid_def pids_ok_def)
  have fresh: "pid_of (cn_task s j) \<noteq> Some pid" for j
    using take_pid.prems pid_fresh [of _ "cn_taken s" n] by (force simp: pids_ok_def pid)
  have at: "pid_of (cn_task ?s j) = (if j = i then Some pid else pid_of (cn_task s j))" for j by simp
  have one: "ex_next_pid (cn_ex ?s) = n + of_nat (cn_taken ?s)"
    using take_pid.prems(1) ex by (simp add: pids_ok_def algebra_simps)
  have two: "\<exists>k < cn_taken ?s. q = n + of_nat k" if "pid_of (cn_task ?s j) = Some q" for j q
  proof (cases "j = i")
    case True
    with that at have "q = pid" by simp
    with pid show ?thesis by (intro exI [of _ "cn_taken s"]) simp
  next
    case False
    with that at have "pid_of (cn_task s j) = Some q" by simp
    with take_pid.prems(1) obtain k where "k < cn_taken s" "q = n + of_nat k" unfolding pids_ok_def by blast
    then show ?thesis by (intro exI [of _ k]) simp
  qed
  have three: "j = k" if "pid_of (cn_task ?s j) = Some q" "pid_of (cn_task ?s k) = Some q" for j k q
  proof (cases "j = i \<or> k = i")
    case True
    with that at have "q = pid" by (auto split: if_splits)
    with that at fresh show ?thesis by metis
  next
    case False
    with that at have "pid_of (cn_task s j) = Some q" "pid_of (cn_task s k) = Some q" by simp_all
    with take_pid.prems(1) show ?thesis unfolding pids_ok_def by blast
  qed
  have four: "listed (cn_ex ?s) (cn_task ?s j)" for j
    using take_pid.prems(1) listed_unchanged [of "cn_ex s" "cn_task s j" ex'] ex by (simp add: pids_ok_def)
  from one two three four show ?case unfolding pids_ok_def by blast
next
  case (start_program s i addr p trusted pid opts node_addr)
  show ?case
    by (rule pids_own_entry [OF start_program.prems(1), of i _ pid]) (simp_all add: start_program.hyps dm.get_ins)
next
  case (program_ends s i addr p sp hs code)
  show ?case
    by (rule pids_own_entry [OF program_ends.prems(1), of i _ "sp_pid sp"])
      (simp_all add: program_ends.hyps finish_pid_def dm.get_del)
next
  case (host_call s i addr p sp hs e call mem hs' r)
  have "listed (cn_ex s) (cn_task s i)" using host_call.prems(1) by (simp add: pids_ok_def)
  then show ?case by (intro pids_same_table [OF host_call.prems(1), of i]) (simp_all add: host_call.hyps)
next
  case (record_message s i source id_bytes cbor_data now)
  show ?case
    by (rule pids_same_table [OF record_message.prems(1), of i])
      (simp_all add: record_fabric_message_def case_prod_unfold Let_def)
qed (simp_all add: pids_local)

section \<open>One task alone\<close>

lemma alone_step: "cstep c s i lab s' \<Longrightarrow> alone c i s s'"
  by blast

lemma alone_trans: "alone c i s s' \<Longrightarrow> alone c i s' s'' \<Longrightarrow> alone c i s s''"
  by (rule rtranclp_trans)

text \<open>The calls of a program, one step each, leave in the store what \<open>host_run\<close> leaves.\<close>

lemma alone_calls:
  assumes "cn_task s i = Running addr p sp hs" and "hs_messages hs = ex_messages (cn_ex s)"
  shows "\<exists>s' hs'. alone c i s s' \<and> cn_task s' = (cn_task s)(i := Running addr p sp hs') \<and>
    cn_ex s' = (cn_ex s)\<lparr>ex_messages := hs_messages (host_run c (sp_store sp) calls hs)\<rparr>"
  using assms
proof (induction calls arbitrary: s hs)
  case Nil
  then show ?case by (intro exI [of _ s] exI [of _ hs]) auto
next
  case (Cons x calls)
  obtain e mem call where x: "x = (e, mem, call)" by (cases x)
  have same: "hs\<lparr>hs_memory := mem, hs_messages := ex_messages (cn_ex s)\<rparr> = hs\<lparr>hs_memory := mem\<rparr>"
    using Cons.prems(2) by simp
  show ?case
  proof (cases "host_step c (sp_store sp) e call (hs\<lparr>hs_memory := mem\<rparr>)")
    case (Inl t)
    then show ?thesis using Cons.prems x by (intro exI [of _ s] exI [of _ hs]) auto
  next
    case (Inr y)
    obtain hs1 r where y: "y = (hs1, r)" by (cases y)
    let ?s1 = "move i (Running addr p sp hs1) ((cn_ex s)\<lparr>ex_messages := hs_messages hs1\<rparr>) s"
    have "host_step c (sp_store sp) e call (hs\<lparr>hs_memory := mem, hs_messages := ex_messages (cn_ex s)\<rparr>) = Inr (hs1, r)"
      unfolding same using Inr y by simp
    from cstep.host_call [OF Cons.prems(1) this] have st: "cstep c s i Works ?s1" .
    have "cn_task ?s1 i = Running addr p sp hs1" "hs_messages hs1 = ex_messages (cn_ex ?s1)" by simp_all
    from Cons.IH [OF this] obtain s' hs' where "alone c i ?s1 s'" "cn_task s' = (cn_task ?s1)(i := Running addr p sp hs')"
      "cn_ex s' = (cn_ex ?s1)\<lparr>ex_messages := hs_messages (host_run c (sp_store sp) calls hs1)\<rparr>" by blast
    with alone_trans [OF alone_step [OF st]] show ?thesis
      by (intro exI [of _ s'] exI [of _ hs']) (simp add: x Inr y)
  qed
qed

fun after :: "listener \<Rightarrow> phase" where
  "after Listening = Receiving"
| "after Stopped = Ended"

text \<open>From the taken pid to the end of the program.\<close>

lemma alone_program:
  assumes t: "cn_task s i = Starting addr p trusted pid"
    and sp: "sp = \<lparr>sp_pid = pid, sp_store = spawn_snapshot (cn_ex s) p trusted (exec_options_default\<lparr>eo_node_addr := na\<rparr>),
                   sp_fuel = Some FUEL\<rparr>"
    and ex1: "ex1 = (cn_ex s)\<lparr>ex_running_programs := dm_insert pid \<lparr>run_data = p, run_pid = pid,
                run_program_is_trusted = trusted, run_spawn_error = None\<rparr> (ex_running_programs (cn_ex s))\<rparr>"
  shows "\<exists>s'. alone c i s s' \<and> cn_task s' = (cn_task s)(i := after l) \<and>
    cn_ex s' = finish_pid pid code
      (ex1\<lparr>ex_messages := hs_messages (host_run c (sp_store sp) calls (guest_init (cn_ex s)))\<rparr>)"
proof -
  let ?s1 = "move i (Running addr p sp (guest_init (cn_ex s))) ex1 s"
  have s1: "alone c i s ?s1" using alone_step [OF cstep.start_program [OF t refl, of c na]] by (simp add: sp ex1)
  have "cn_task ?s1 i = Running addr p sp (guest_init (cn_ex s))" "hs_messages (guest_init (cn_ex s)) = ex_messages (cn_ex ?s1)"
    by (simp_all add: guest_init_def ex1)
  from alone_calls [OF this, of c calls] obtain s2 hs where
    s2: "alone c i ?s1 s2" and t2: "cn_task s2 = (cn_task ?s1)(i := Running addr p sp hs)"
    and e2: "cn_ex s2 = ex1\<lparr>ex_messages := hs_messages (host_run c (sp_store sp) calls (guest_init (cn_ex s)))\<rparr>"
    by auto
  let ?s3 = "move i (Replying addr p sp hs) (finish_pid pid code (cn_ex s2)) s2"
  have "cstep c s2 i Works ?s3" using cstep.program_ends [of s2 i addr p sp hs c code] t2 by (simp add: sp)
  with s1 s2 have s3: "alone c i s ?s3" by (blast intro: alone_trans alone_step)
  have r: "cn_task ?s3 i = Replying addr p sp hs" by simp
  have "alone c i ?s3 (move i (after l) (cn_ex ?s3) ?s3)"
    using alone_step [OF cstep.reply [OF r]] alone_step [OF cstep.give_up [OF r]] by (cases l) simp_all
  with s3 have "alone c i s (move i (after l) (cn_ex ?s3) ?s3)" by (rule alone_trans)
  with t2 e2 show ?thesis by (intro exI [of _ "move i (after l) (cn_ex ?s3) ?s3"]) auto
qed

lemma alone_request:
  assumes "cn_task s i = Receiving" and "handle_execute_request env addr p (cn_ex s) = (l, ex', out)"
  shows "\<exists>s'. alone (sv_crates env) i s s' \<and> cn_ex s' = ex' \<and> cn_task s' = (cn_task s)(i := after l)"
proof -
  let ?c = "sv_crates env" and ?cr = "ck_crypto (sv_crates env)"
  let ?ex1 = "note_peer (sv_now env) addr (pd_source p) (cn_ex s)"
  let ?t = "trusts_pubkey (id_public_key (pd_source p)) ?ex1" and ?pid = "ex_next_pid ?ex1"
  let ?s1 = "move i (Judging addr p) ?ex1 (hear (ExecuteRequest p) s)"
  note defs = handle_execute_request_def begin_exec_eq create_pid_eq Let_def
  have s1: "alone ?c i s ?s1" using alone_step [OF cstep.hear_request [OF assms(1)]] .
  have j: "cn_task ?s1 i = Judging addr p" by simp
  show ?thesis
  proof (cases "check_self_signature ?cr (pd_source p)")
    case (Inl e)
    have "alone ?c i ?s1 (move i Receiving ?ex1 ?s1)" using alone_step [OF cstep.refuse [OF j Inl]] by simp
    with s1 Inl assms(2) show ?thesis
      by (intro exI [of _ "move i Receiving ?ex1 ?s1"]) (auto simp: defs intro: alone_trans)
  next
    case (Inr u)
    let ?ex2 = "?ex1\<lparr>ex_next_pid := ?pid + 1\<rparr>"
    let ?s2 = "(move i (Starting addr p ?t ?pid) ?ex2 ?s1)\<lparr>cn_taken := Suc (cn_taken ?s1)\<rparr>"
    have "cstep ?c ?s1 i Works ?s2"
      using cstep.take_pid [of ?s1 i addr p ?c ?ex2 ?pid] Inr by (simp add: create_next_pid_def)
    with s1 have s2: "alone ?c i s ?s2" by (blast intro: alone_trans alone_step)
    have st: "cn_task ?s2 i = Starting addr p ?t ?pid" by simp
    show ?thesis
    proof (cases "we_engine_ok (sv_engine env) \<and> we_module_ok (sv_engine env) (pd_wasm_program_bytes p)")
      case False
      have "alone ?c i ?s2 (move i Receiving ?ex2 ?s2)" using alone_step [OF cstep.start_fails [OF st False]] by simp
      with s2 Inr False assms(2) show ?thesis
        by (intro exI [of _ "move i Receiving ?ex2 ?s2"]) (auto simp: defs intro: alone_trans)
    next
      case True
      let ?sp = "\<lparr>sp_pid = ?pid, sp_store = spawn_snapshot ?ex2 p ?t (exec_options_default\<lparr>eo_node_addr := node_addr_for env addr\<rparr>),
        sp_fuel = Some FUEL\<rparr>"
      let ?ex3 = "?ex2\<lparr>ex_running_programs := dm_insert ?pid \<lparr>run_data = p, run_pid = ?pid,
        run_program_is_trusted = ?t, run_spawn_error = None\<rparr> (ex_running_programs ?ex2)\<rparr>"
      let ?gr = "sv_guest env ?sp"
      have "spawn_snapshot ?ex2 p t w = spawn_snapshot ?ex1 p t w" "guest_init ?ex3 = guest_init ?ex2" for t w
        by (simp_all add: spawn_snapshot_def guest_init_def)
      then have "ex' = finish_pid ?pid (gr_exit ?gr)
          (?ex3\<lparr>ex_messages := hs_messages (host_run ?c (sp_store ?sp) (gr_calls ?gr) (guest_init ?ex2))\<rparr>)"
        using assms(2) Inr True
        by (auto simp: defs exec_options_default_def split: sum.splits option.splits if_splits)
      with alone_program [OF st refl refl, where l = l and c = ?c and code = "gr_exit ?gr" and calls = "gr_calls ?gr"] s2
      show ?thesis by (auto intro: alone_trans)
    qed
  qed
qed

lemma alone_datagram:
  assumes "cn_task s i = Receiving" and "handle_datagram env buf addr (cn_ex s) = (l, ex', out)"
  shows "\<exists>s'. alone (sv_crates env) i s s' \<and> cn_ex s' = ex' \<and> cn_task s' = (cn_task s)(i := after l)"
proof -
  have idle: ?thesis if "l = Listening" "ex' = cn_ex s"
    using that assms(1) by (intro exI [of _ s]) auto
  show ?thesis
  proof (cases "\<exists>source i d sig. ba_from_slice (ck_bare (sv_crates env)) buf = Some (SignedFabricMessage source i d sig)")
    case False
    then show ?thesis using assms(2) idle alone_request [OF assms(1)]
      by (auto simp: handle_datagram_def split: option.splits network_message.splits)
  next
    case True
    then obtain source nonce d sig where m: "ba_from_slice (ck_bare (sv_crates env)) buf = Some (SignedFabricMessage source nonce d sig)" by blast
    show ?thesis
    proof (cases "acceptable (sv_crates env) (SignedFabricMessage source nonce d sig)")
      case False
      with m assms(2) idle show ?thesis by (auto simp: handle_datagram_def fabric_message_cases acceptable_def)
    next
      case True
      let ?msg = "SignedFabricMessage source nonce d sig"
      let ?s1 = "move i (Storing source nonce d) (note_peer (sv_now env) addr source (cn_ex s)) (hear ?msg s)"
      let ?ex2 = "fst (record_fabric_message (id_human_name source) (id_public_key source) nonce d (sv_now env) (cn_ex ?s1))"
      let ?s2 = "move i Receiving ?ex2 ?s1"
      have "cn_task ?s1 i = Storing source nonce d" by simp
      from alone_step [OF cstep.record_message [OF this, of "sv_crates env" "sv_now env"]]
        alone_step [OF cstep.hear_message [OF assms(1) refl True, of "sv_now env" addr]]
      have "alone (sv_crates env) i s ?s2" by (blast intro: alone_trans)
      moreover have "l = Listening" "ex' = ?ex2"
        using m True assms(2)
        by (auto simp: handle_datagram_def handle_fabric_message_def acceptable_def case_prod_unfold Let_def)
      ultimately show ?thesis by (intro exI [of _ ?s2]) simp
    qed
  qed
qed

lemma alone_loop:
  assumes "cn_task s i = Receiving" and "list_all (\<lambda>d. sv_crates (fst d) = c) ds"
    and "serve_loop ds (cn_ex s) = (l, ex', out)"
  shows "\<exists>s'. alone c i s s' \<and> cn_ex s' = ex' \<and> cn_task s' = (cn_task s)(i := after l)"
  using assms
proof (induction ds arbitrary: s l ex' out)
  case Nil
  then show ?case by (intro exI [of _ s]) auto
next
  case (Cons x ds)
  obtain env buf addr where x: "x = (env, buf, addr)" by (cases x)
  have c: "sv_crates env = c" and ds: "list_all (\<lambda>d. sv_crates (fst d) = c) ds"
    using Cons.prems(2) x by simp_all
  obtain l1 ex1 out1 where h: "handle_datagram env buf addr (cn_ex s) = (l1, ex1, out1)" by (metis prod_cases3)
  obtain s1 where s1: "alone c i s s1" "cn_ex s1 = ex1" "cn_task s1 = (cn_task s)(i := after l1)"
    using alone_datagram [OF Cons.prems(1) h] c by blast
  show ?case
  proof (cases l1)
    case Stopped
    with s1 h x Cons.prems(3) have "cn_ex s1 = ex'" "after l = after l1" by auto
    with s1 show ?thesis by metis
  next
    case Listening
    obtain l2 ex2 out2 where r: "serve_loop ds (cn_ex s1) = (l2, ex2, out2)" by (metis prod_cases3)
    have "cn_task s1 i = Receiving" using s1(3) Listening by simp
    from Cons.IH [OF this ds r] obtain s2 where
      s2: "alone c i s1 s2" "cn_ex s2 = ex2" "cn_task s2 = (cn_task s1)(i := after l2)" by blast
    have "l = l2" "ex' = ex2" using h x Listening r s1(2) Cons.prems(3) by auto
    moreover have "cn_task s2 = (cn_task s)(i := after l2)" using s1(3) s2(3) by simp
    ultimately show ?thesis using alone_trans [OF s1(1) s2(1)] s2(2) by blast
  qed
qed

lemma alone_creach:
  assumes "alone c i s s'" and "creach c s0 s"
  shows "creach c s0 s'"
  using assms by (induction rule: rtranclp_induct) (blast intro: creach_step)+

section \<open>Properties\<close>

text \<open>C7: the sequential model of a listener is one of the interleavings. From any state of the node in
  which a listener waits, that listener, moving alone, can reach exactly the executor that
  \<open>serve_loop\<close> computes for any datagrams, and waits again or has ended as \<open>serve_loop\<close> says; the
  other listeners stand where they stood.\<close>

theorem serve_loop_is_a_run:
  assumes "cn_task s i = Receiving" and "list_all (\<lambda>d. sv_crates (fst d) = c) ds"
    and "serve_loop ds (cn_ex s) = (l, ex', out)"
  shows "\<exists>s'. alone c i s s' \<and> cn_ex s' = ex' \<and> cn_task s' = (cn_task s)(i := after l)"
  by (rule alone_loop [OF assms])

text \<open>C6: whatever the interleaving of the listeners of a node and of the programs they run, the state
  stays well formed with the identity and the trust it started with, and every message in the
  store was there before or a datagram received accounts for it: a signed fabric message both of whose
  signatures verify, with this name, key and payload, or a request from a source with this name
  and key whose self-signature verifies.\<close>

theorem concurrent_store_attributed:
  assumes "creach c (cnode_init ex) s" and "node_ok ex"
  shows "node_ok (cn_ex s) \<and> node_fixed (cn_ex s) = node_fixed ex \<and>
    set (ms_msgs (ex_messages (cn_ex s))) \<subseteq>
      set (ms_msgs (ex_messages ex)) \<union> {m. \<exists>msg \<in> cn_heard s. accounts_for c msg m}"
  using creach_typed [OF assms] creach_attributed [OF assms(1)] by (auto simp: attributed_def)


section \<open>Concrete instances\<close>

definition demo_hearing :: serve_env where
  "demo_hearing = demo_serve (demo_fabric [3] [0x80]) [1] demo_guest"

lemma demo_node_ok: "node_ok demo_executor"
  unfolding demo_executor_def by (rule startup_ok)

lemma demo_hearing_result:
  "\<exists>ex' out. serve_loop [(demo_hearing, [1], SockV4 1 2)] demo_executor = (Listening, ex', out) \<and>
     ms_msgs (ex_messages ex') = [\<lparr>sm_seq = 1, sm_from_name = ''alice'', sm_from_pubkey = replicate 32 7,
       sm_text = [0x80], sm_epoch_s = 77\<rparr>]"
  by (simp add: demo_hearing_def handle_datagram_def demo_fabric_def fabric_message_cases demo_identity_ok demo_payload_ok
      demo_executor_fields demo_names ms_push_def ms_new_def ms_append_def ms_remember_def dedup_key_def Let_def)

theorem serve_loop_is_a_run_witness:
  "\<exists>s. alone (sv_crates demo_hearing) 1 (cnode_init demo_executor) s \<and> cn_task s 1 = Receiving \<and>
     map sm_text (ms_msgs (ex_messages (cn_ex s))) = [[0x80]]"
proof -
  obtain ex' out where r: "serve_loop [(demo_hearing, [1], SockV4 1 2)] (cn_ex (cnode_init demo_executor)) = (Listening, ex', out)"
    and m: "map sm_text (ms_msgs (ex_messages ex')) = [[0x80]]"
    using demo_hearing_result by auto
  have "list_all (\<lambda>d. sv_crates (fst d) = sv_crates demo_hearing) [(demo_hearing, [1 :: 8 word], SockV4 1 2)]" by simp
  from serve_loop_is_a_run [OF cnode_init_simps(2) [of demo_executor 1] this r] m show ?thesis by auto
qed

theorem concurrent_store_attributed_witness:
  "\<exists>s msg m. creach (sv_crates demo_hearing) (cnode_init demo_executor) s \<and> msg \<in> cn_heard s \<and>
     m \<in> set (ms_msgs (ex_messages (cn_ex s))) \<and> accounts_for (sv_crates demo_hearing) msg m \<and> sm_from_name m = ''alice''"
proof -
  let ?m = "\<lparr>sm_seq = 1, sm_from_name = ''alice'', sm_from_pubkey = replicate 32 7, sm_text = [0x80], sm_epoch_s = 77\<rparr>"
  obtain ex' out where r: "serve_loop [(demo_hearing, [1], SockV4 1 2)] (cn_ex (cnode_init demo_executor)) = (Listening, ex', out)"
    and m: "?m \<in> set (ms_msgs (ex_messages ex'))"
    using demo_hearing_result by auto
  have "list_all (\<lambda>d. sv_crates (fst d) = sv_crates demo_hearing) [(demo_hearing, [1 :: 8 word], SockV4 1 2)]" by simp
  from alone_loop [OF cnode_init_simps(2) [of demo_executor 0] this r] obtain s where
    s: "alone (sv_crates demo_hearing) 0 (cnode_init demo_executor) s" "cn_ex s = ex'" by blast
  have reach: "creach (sv_crates demo_hearing) (cnode_init demo_executor) s"
    using alone_creach [OF s(1) creach_start] .
  have "?m \<notin> set (ms_msgs (ex_messages demo_executor))" by (simp add: demo_executor_fields ms_new_def)
  with concurrent_store_attributed [OF reach demo_node_ok] m s(2)
  obtain msg where "msg \<in> cn_heard s" "accounts_for (sv_crates demo_hearing) msg ?m" by auto
  with reach m s(2) show ?thesis by (intro exI [of _ s] exI [of _ msg] exI [of _ ?m]) simp
qed


end
