(* ===== verification/Fabric.thy ===== *)
theory Fabric
  imports Concurrent
begin

text \<open>
  Many nodes and an adversary. The nodes of the fabric run the concurrent listeners of \<open>Concurrent\<close>;
  programs on them sign messages with the host call \<open>messages_send\<close>; identities are signed whenever a
  process starts. Everything else is the adversary's: any datagram may reach any listener at any
  time, in any order and number, as long as no signature in it is a forgery. That is the assumption
  on ed25519 over SHA-256: a signature that verifies under the key of a node is one this node made
  over the same bytes. What the code signs is kept as the state of the fabric, and the theorems say
  what a message in a store tells about it.
\<close>

section \<open>What is signed\<close>

text \<open>The key files and the configured names of the nodes.\<close>

record world =
  wd_crates :: crates
  wd_nodes :: "nat set"
  wd_key :: "nat \<Rightarrow> bytes"
  wd_name :: "nat \<Rightarrow> string"

abbreviation wd_crypto :: "world \<Rightarrow> crypto" where
  "wd_crypto W \<equiv> ck_crypto (wd_crates W)"

definition public_key :: "world \<Rightarrow> nat \<Rightarrow> bytes" where
  "public_key W n = cr_verifying_key (wd_crypto W) (wd_key W n)"

text \<open>The bytes an identity of a node signs, \<open>generate_from_config\<close> with its key file.\<close>

definition identity_bytes :: "world \<Rightarrow> nat \<Rightarrow> u64 \<Rightarrow> bytes" where
  "identity_bytes W n now = identity_hash_input (wd_name W n) now (- 1) ''ed25519'' (public_key W n)"

text \<open>The signatures in a datagram that a receiver may check: key, bytes before hashing, signature.\<close>

definition identity_claim :: "identity_data \<Rightarrow> bytes \<times> bytes \<times> bytes" where
  "identity_claim i = (id_public_key i, identity_hash_input (id_human_name i) (id_generated_at i)
     (id_validity_s i) (id_key_fmt i) (id_public_key i), id_signature i)"

fun claims :: "network_message \<Rightarrow> (bytes \<times> bytes \<times> bytes) list" where
  "claims (ExecuteRequest p) = [identity_claim (pd_source p)]"
| "claims (SignedFabricMessage source id_bytes cbor_data signature) =
     [identity_claim source, (id_public_key source, id_bytes @ cbor_data, signature)]"
| "claims _ = []"

definition verifies :: "world \<Rightarrow> bytes \<times> bytes \<times> bytes \<Rightarrow> bool" where
  "verifies W claim \<longleftrightarrow>
     (case claim of (key, x, signature) \<Rightarrow> verify_hash (wd_crypto W) key (cr_sha256 (wd_crypto W) x) signature = Inr ())"

section \<open>The fabric\<close>

text \<open>\<open>fb_sent\<close>: node, id and payload of every message sent; \<open>fb_identities\<close>: node and time of every
  identity made.\<close>

record fabric =
  fb_node :: "nat \<Rightarrow> cnode"
  fb_sent :: "(nat \<times> bytes \<times> bytes) set"
  fb_identities :: "(nat \<times> u64) set"

definition fabric_init :: "(nat \<Rightarrow> executor) \<Rightarrow> fabric" where
  "fabric_init ex = \<lparr>fb_node = (\<lambda>n. cnode_init (ex n)), fb_sent = {}, fb_identities = {}\<rparr>"

definition signed :: "world \<Rightarrow> fabric \<Rightarrow> (bytes \<times> bytes) set" where
  "signed W s = {(public_key W n, id_bytes @ payload) | n id_bytes payload. (n, id_bytes, payload) \<in> fb_sent s} \<union>
     {(public_key W n, identity_bytes W n now) | n now. (n, now) \<in> fb_identities s}"

text \<open>A node signs one thing more, its attestations; but those are signed unhashed, and longer than any
  hash that a receiver of a datagram checks, so they count as no claim.\<close>

lemma attestation_is_no_hash: "32 < length (attestation_signing_bytes hostname key epoch_s)"
  by (simp add: attestation_signing_bytes_def)

definition unforged :: "world \<Rightarrow> fabric \<Rightarrow> network_message \<Rightarrow> bool" where
  "unforged W s msg \<longleftrightarrow>
     list_all (\<lambda>claim. verifies W claim \<and> fst claim \<in> public_key W ` wd_nodes W \<longrightarrow>
       (fst claim, fst (snd claim)) \<in> signed W s) (claims msg)"

inductive fstep :: "world \<Rightarrow> fabric \<Rightarrow> fabric \<Rightarrow> bool" for W where
  make_identity: "n \<in> wd_nodes W \<Longrightarrow>
    fstep W s (s\<lparr>fb_identities := insert (n, now) (fb_identities s)\<rparr>)"
| send_message: "n \<in> wd_nodes W \<Longrightarrow> rp_signing_key d = Some (wd_key W n) \<Longrightarrow>
    read_guest_bytes ptr len (hs_memory hs) = Inr payload \<Longrightarrow>
    host_messages_send d e (wd_crates W) ptr len hs = Inr (hs', 0) \<Longrightarrow>
    fstep W s (s\<lparr>fb_sent := insert (n, he_random e 16, payload) (fb_sent s)\<rparr>)"
| node_receives: "n \<in> wd_nodes W \<Longrightarrow> unforged W s msg \<Longrightarrow> cstep (wd_crates W) (fb_node s n) i (Hears msg) t \<Longrightarrow>
    fstep W s (s\<lparr>fb_node := (fb_node s)(n := t)\<rparr>)"
| node_works: "n \<in> wd_nodes W \<Longrightarrow> cstep (wd_crates W) (fb_node s n) i Works t \<Longrightarrow>
    fstep W s (s\<lparr>fb_node := (fb_node s)(n := t)\<rparr>)"

inductive freach :: "world \<Rightarrow> fabric \<Rightarrow> fabric \<Rightarrow> bool" for W s0 where
  freach_start: "freach W s0 s0"
| freach_step: "freach W s0 s \<Longrightarrow> fstep W s s' \<Longrightarrow> freach W s0 s'"

section \<open>Lemmas\<close>

text \<open>The identity of a node, as its processes generate it, signs \<open>identity_bytes\<close>.\<close>

lemma generated_identity_claim:
  assumes "read_private_key_ed25519_pem_file kc keyfile = Inr (wd_key W n)"
    and "generate_from_config (wd_crypto W) kc (wd_name W n) keyfile now = Inr i"
  shows "\<exists>signature. identity_claim i = (public_key W n, identity_bytes W n now, signature)"
  using assms read_public_key_of_private [of kc "wd_crypto W" keyfile]
  by (auto simp: generate_from_config_def identity_claim_def identity_bytes_def public_key_def split: sum.splits)

lemma cstep_heard:
  "cstep c s i lab s' \<Longrightarrow> cn_heard s' = (case lab of Hears msg \<Rightarrow> insert msg (cn_heard s) | Works \<Rightarrow> cn_heard s)"
  by (induction rule: cstep.induct) auto

lemma signed_mono:
  assumes "fstep W s s'"
  shows "signed W s \<subseteq> signed W s'"
  using assms by (induction rule: fstep.induct) (auto simp: signed_def)

lemma unforged_mono: "unforged W s msg \<Longrightarrow> signed W s \<subseteq> signed W s' \<Longrightarrow> unforged W s' msg"
  by (auto simp: unforged_def list_all_iff)

definition fabric_ok :: "world \<Rightarrow> (nat \<Rightarrow> executor) \<Rightarrow> fabric \<Rightarrow> bool" where
  "fabric_ok W ex s \<longleftrightarrow> (\<forall>n. attributed (wd_crates W) (ex n) (fb_node s n) \<and>
     (\<forall>msg \<in> cn_heard (fb_node s n). unforged W s msg))"

lemma fabric_ok_step:
  assumes "fstep W s s'" and "fabric_ok W ex s"
  shows "fabric_ok W ex s'"
proof -
  have old: "unforged W s' msg" if "msg \<in> cn_heard (fb_node s n)" for msg n
    using assms(2) that unforged_mono [OF _ signed_mono [OF assms(1)]] by (auto simp: fabric_ok_def)
  show ?thesis using assms(1)
  proof cases
    case (make_identity n now)
    then show ?thesis using assms(2) old by (auto simp: fabric_ok_def)
  next
    case (send_message n d ptr len hs payload e hs')
    then show ?thesis using assms(2) old by (auto simp: fabric_ok_def)
  next
    case (node_receives n msg i t)
    have "signed W s' = signed W s" using node_receives(1) by (simp add: signed_def)
    then have "unforged W s' msg" using node_receives(3) by (simp add: unforged_def)
    then show ?thesis
      using assms(2) old node_receives attributed_step [OF node_receives(4)] cstep_heard [OF node_receives(4)]
      by (auto simp: fabric_ok_def)
  next
    case (node_works n i t)
    then show ?thesis
      using assms(2) old attributed_step [OF node_works(3)] cstep_heard [OF node_works(3)]
      by (auto simp: fabric_ok_def)
  qed
qed

lemma fabric_ok_reach: "freach W (fabric_init ex) s \<Longrightarrow> fabric_ok W ex s"
proof (induction rule: freach.induct)
  case freach_start
  show ?case by (auto simp: fabric_ok_def fabric_init_def attributed_def)
qed (blast intro: fabric_ok_step)

lemma verified_claims:
  "check_self_signature (wd_crypto W) i = Inr () \<longleftrightarrow> verifies W (identity_claim i)"
  "verify_payload (wd_crypto W) i id_bytes payload signature = Inr () \<longleftrightarrow>
     verifies W (id_public_key i, id_bytes @ payload, signature)"
  by (simp_all add: verifies_def identity_claim_def check_self_signature_def verify_payload_def)

lemma unforged_claim:
  assumes "unforged W s msg" and "(public_key W k, x, signature) \<in> set (claims msg)" and "k \<in> wd_nodes W"
    and "verifies W (public_key W k, x, signature)"
  shows "(public_key W k, x) \<in> signed W s"
  using assms by (auto simp: unforged_def list_all_iff)

lemma unforged_identity:
  assumes "unforged W s msg" and "identity_claim i \<in> set (claims msg)" and "k \<in> wd_nodes W"
    and "id_public_key i = public_key W k" and "check_self_signature (wd_crypto W) i = Inr ()"
  shows "\<exists>e v f. (public_key W k, identity_hash_input (id_human_name i) e v f (public_key W k)) \<in> signed W s"
  using unforged_claim [OF assms(1) _ assms(3)] assms(2,4,5) unfolding verified_claims identity_claim_def by fastforce

section \<open>Properties\<close>

text \<open>C2: what a message in a store proves. In any run of the fabric, with the adversary sending whatever it
  likes but forgeries, let a node's store hold a new message under the key of a node. That key signed
  an identity with this name (up to the boundaries of its fields). And either the text ends something
  this key signed, a message a program sent with \<open>messages_send\<close> (up to the boundary between id and
  payload) or an identity of the node; or the store's node received a request under this name and
  key. \<open>identity_signature_is_a_message\<close> and \<open>program_impersonates\<close> show that the last two do occur
  without the key's owner.\<close>

theorem stored_messages_authentic:
  assumes "freach W (fabric_init ex) s" and "m \<in> set (ms_msgs (ex_messages (cn_ex (fb_node s n))))"
    and "m \<notin> set (ms_msgs (ex_messages (ex n)))" and "k \<in> wd_nodes W" and "sm_from_pubkey m = public_key W k"
  shows "(\<exists>e v f. (public_key W k, identity_hash_input (sm_from_name m) e v f (public_key W k)) \<in> signed W s) \<and>
    ((\<exists>x id_bytes payload j. (j, id_bytes, payload) \<in> fb_sent s \<and> public_key W j = public_key W k \<and>
        x @ sm_text m = id_bytes @ payload) \<or>
     (\<exists>x j now. (j, now) \<in> fb_identities s \<and> public_key W j = public_key W k \<and>
        x @ sm_text m = identity_bytes W j now) \<or>
     (\<exists>p. ExecuteRequest p \<in> cn_heard (fb_node s n) \<and> check_self_signature (wd_crypto W) (pd_source p) = Inr () \<and>
        id_human_name (pd_source p) = sm_from_name m \<and> id_public_key (pd_source p) = public_key W k))"
proof -
  from fabric_ok_reach [OF assms(1)] assms(2,3) obtain msg where
    msg: "msg \<in> cn_heard (fb_node s n)" "accounts_for (wd_crates W) msg m" and u: "unforged W s msg"
    by (fastforce simp: fabric_ok_def attributed_def)
  show ?thesis
  proof (cases msg)
    case (ExecuteRequest p)
    with msg assms(5) have src: "check_self_signature (wd_crypto W) (pd_source p) = Inr ()"
      "id_human_name (pd_source p) = sm_from_name m" "id_public_key (pd_source p) = public_key W k"
      by (auto simp: accounts_for_def)
    have "identity_claim (pd_source p) \<in> set (claims msg)" using ExecuteRequest by simp
    from unforged_identity [OF u this assms(4) src(3,1)] src msg ExecuteRequest show ?thesis by auto
  next
    case (SignedFabricMessage source id_bytes d signature)
    with msg assms(5) have src: "check_self_signature (wd_crypto W) source = Inr ()" "id_public_key source = public_key W k"
      "id_human_name source = sm_from_name m" "sm_text m = d"
      and pay: "verify_payload (wd_crypto W) source id_bytes d signature = Inr ()"
      by (auto simp: accounts_for_def acceptable_def)
    have "identity_claim source \<in> set (claims msg)" "(public_key W k, id_bytes @ d, signature) \<in> set (claims msg)"
      using SignedFabricMessage src(2) by simp_all
    from unforged_identity [OF u this(1) assms(4) src(2,1)] unforged_claim [OF u this(2) assms(4)]
    have "\<exists>e v f. (public_key W k, identity_hash_input (sm_from_name m) e v f (public_key W k)) \<in> signed W s"
      and "(public_key W k, id_bytes @ sm_text m) \<in> signed W s"
      using pay src unfolding verified_claims by simp_all
    then show ?thesis by (auto simp: signed_def)
  qed (use msg(2) in \<open>simp_all add: accounts_for_def\<close>)
qed

text \<open>C21: an identity doubles as messages of its owner. The signature inside an identity covers the plain
  hash of its fields, and a payload signature the plain hash of id and payload, with nothing to tell
  the two apart. So whoever has seen an identity, and every request and every message carries one,
  can cut the bytes it signs anywhere and send the two halves as id and payload: each cut is a signed
  fabric message that every node accepts and records under the owner's name, though the payload is no
  CBOR list or map and the owner sent nothing.\<close>

theorem identity_signature_is_a_message:
  assumes "check_self_signature (ck_crypto (sv_crates env)) i = Inr ()"
    and "x = identity_hash_input (id_human_name i) (id_generated_at i) (id_validity_s i) (id_key_fmt i) (id_public_key i)"
    and "\<And>n. ba_from_slice (ck_bare (sv_crates env)) (enc n) =
           Some (SignedFabricMessage i (take n x) (drop n x) (id_signature i))"
  shows "\<exists>ex' out. serve_loop (map (\<lambda>n. (env, enc n, addr)) cuts) ex = (Listening, ex', out) \<and>
    ex_messages ex' = fst (ms_run (map (\<lambda>n. \<lparr>pr_name = id_human_name i, pr_pubkey = id_public_key i,
      pr_id = take n x, pr_text = drop n x, pr_epoch = sv_now env\<rparr>) cuts) (ex_messages ex))"
proof (induction cuts arbitrary: ex)
  case (Cons n cuts)
  have "verify_payload (ck_crypto (sv_crates env)) i (take n x) (drop n x) (id_signature i) = Inr ()"
    using assms(1) unfolding verify_payload_def check_self_signature_def assms(2) [symmetric] by simp
  with assms(1,3) have "\<exists>ex1 out. handle_datagram env (enc n) addr ex = (Listening, ex1, out) \<and>
      ex_messages ex1 = fst (ms_push (id_human_name i) (id_public_key i) (take n x) (drop n x) (sv_now env) (ex_messages ex))"
    by (simp add: handle_datagram_def fabric_message_cases)
  then obtain ex1 out where "handle_datagram env (enc n) addr ex = (Listening, ex1, out)"
    "ex_messages ex1 = fst (ms_push (id_human_name i) (id_public_key i) (take n x) (drop n x) (sv_now env) (ex_messages ex))"
    by blast
  with Cons [of ex1] show ?case by (auto simp: ms_run_Cons ms_push_req_def simp del: ms_run.simps)
qed simp

text \<open>C22: a request speaks for whoever it names. Take any identity whose self-signature verifies, seen
  anywhere on the fabric, and put it into a request with a program of one's own that calls
  \<open>messages_push\<close>: a node that runs it records the text of one's choice under the verified name and
  key of that identity, whose owner signed neither the program nor the text.\<close>

theorem program_impersonates:
  assumes "check_self_signature (ck_crypto (sv_crates env)) i = Inr ()"
    and "we_engine_ok (sv_engine env) \<and> we_module_ok (sv_engine env) (pd_wasm_program_bytes p)"
    and "\<And>sp. gr_calls (sv_guest env sp) = [(e, mem, CMessagesPush id_ptr id_len text_ptr text_len)]"
    and "read_guest_bytes id_ptr id_len mem = Inr id_bytes" and "read_guest_bytes text_ptr text_len mem = Inr text"
    and "handle_execute_request env addr (p\<lparr>pd_source := i\<rparr>) ex = (l, ex', out)"
  shows "ex_messages ex' = fst (ms_push (id_human_name i) (id_public_key i) id_bytes text (he_now e) (ex_messages ex))"
proof -
  let ?opts = "exec_options_default\<lparr>eo_node_addr := node_addr_for env addr\<rparr>"
  obtain ex2 sp where b: "begin_exec (ck_crypto (sv_crates env)) (sv_engine env) (p\<lparr>pd_source := i\<rparr>) ?opts
      (note_peer (sv_now env) addr i ex) = (ex2, Inr sp)"
    using assms(1,2) by (simp add: begin_exec_eq create_pid_eq Let_def)
  have "ex_messages ex2 = ex_messages ex" using begin_exec_fields [OF b] by simp
  then have m: "hs_messages (host_run (sv_crates env) (sp_store sp) (gr_calls (sv_guest env sp)) (guest_init ex2)) =
      fst (ms_push (id_human_name i) (id_public_key i) id_bytes text (he_now e) (ex_messages ex))"
    using begin_exec_store [OF b]
    by (simp add: assms(3) host_messages_push_def with_guest_bytes_def assms(4,5) guest_init_def case_prod_unfold Let_def)
  from b assms(6) show ?thesis
    by (auto simp: handle_execute_request_def m Let_def split: sum.splits option.splits if_splits)
qed

section \<open>Concrete instances\<close>

definition demo_world :: world where
  "demo_world = \<lparr>wd_crates = demo_crates (demo_codec CNull []), wd_nodes = {0, 1},
     wd_key = (\<lambda>n. replicate 32 (if n = 0 then 7 else 8)), wd_name = (\<lambda>n. if n = 0 then ''alice'' else ''bob'')\<rparr>"

lemma demo_world_simps [simp]:
  "wd_crates demo_world = demo_crates (demo_codec CNull [])" "wd_nodes demo_world = {0, 1}"
  "wd_key demo_world 0 = replicate 32 7" "wd_name demo_world 0 = ''alice''"
  "ck_crypto (demo_crates cb) = demo_crypto"
  by (simp_all add: demo_world_def demo_crates_def)

lemma demo_world_key: "public_key demo_world 0 = replicate 32 7" "public_key demo_world 1 = replicate 32 8"
  by (simp_all add: public_key_def demo_world_def demo_crates_def demo_crypto_def)

lemma demo_identity_bytes:
  "fst (identity_claim demo_identity) = public_key demo_world 0"
  "fst (snd (identity_claim demo_identity)) = identity_bytes demo_world 0 (id_generated_at demo_identity)"
  by (simp_all add: identity_claim_def identity_bytes_def demo_world_key demo_identity_def)

text \<open>Alice makes her identity and sends; Bob receives and records.\<close>

definition demo_message :: stored_message where
  "demo_message = \<lparr>sm_seq = 1, sm_from_name = ''alice'', sm_from_pubkey = replicate 32 7, sm_text = [0x80], sm_epoch_s = 77\<rparr>"

definition demo_sending :: fabric where
  "demo_sending = (fabric_init (\<lambda>_. demo_executor))
     \<lparr>fb_identities := {(0, id_generated_at demo_identity)}, fb_sent := {(0, he_random demo_env 16, [0x80])}\<rparr>"

lemma demo_sending_reached: "freach demo_world (fabric_init (\<lambda>_. demo_executor)) demo_sending"
proof -
  let ?s0 = "fabric_init (\<lambda>_. demo_executor)"
  let ?s1 = "?s0\<lparr>fb_identities := insert (0, id_generated_at demo_identity) (fb_identities ?s0)\<rparr>"
  have cl: "clamp0 1 = 1" "clamp0 0 = 0" using clamp0_of_nat [of 1] clamp0_of_nat [of 0] by simp_all
  have rd: "read_guest_bytes 0 1 (hs_memory (demo_host [0x80])) = Inr [0x80]"
    by (simp add: demo_host_def read_guest_bytes_def cl)
  have "\<exists>hs'. host_messages_send demo_store demo_env (demo_crates (demo_codec CNull [])) 0 1 (demo_host [0x80]) = Inr (hs', 0)"
    using rd by (simp add: host_messages_send_def with_guest_bytes_def demo_store_def demo_env_def demo_crates_def demo_bare_def
        demo_sent_def list_or_map_def return_i32_def Let_def)
  then obtain hs' where send: "host_messages_send demo_store demo_env (wd_crates demo_world) 0 1 (demo_host [0x80]) = Inr (hs', 0)"
    by auto
  have "fstep demo_world ?s0 ?s1" by (rule fstep.make_identity) simp
  moreover have "fstep demo_world ?s1 (?s1\<lparr>fb_sent := insert (0, he_random demo_env 16, [0x80]) (fb_sent ?s1)\<rparr>)"
    by (rule fstep.send_message [OF _ _ rd send]) (simp_all add: demo_store_def)
  moreover have "?s1\<lparr>fb_sent := insert (0, he_random demo_env 16, [0x80]) (fb_sent ?s1)\<rparr> = demo_sending"
    by (simp add: demo_sending_def fabric_init_def)
  ultimately show ?thesis by (metis freach_start freach_step)
qed

lemma demo_unforged: "unforged demo_world demo_sending demo_sent"
proof -
  have "signed demo_world demo_sending \<supseteq> {(public_key demo_world 0, replicate 16 3 @ [0x80]),
      (public_key demo_world 0, identity_bytes demo_world 0 (id_generated_at demo_identity))}"
    by (auto simp: signed_def demo_env_def demo_sending_def)
  then show ?thesis using demo_identity_bytes by (simp add: unforged_def demo_sent_def demo_names demo_world_key)
qed

lemma demo_fabric_run:
  "\<exists>s. freach demo_world (fabric_init (\<lambda>_. demo_executor)) s \<and>
     demo_message \<in> set (ms_msgs (ex_messages (cn_ex (fb_node s 1))))"
proof -
  let ?W = demo_world and ?s0 = "fabric_init (\<lambda>_. demo_executor)" and ?n = "fb_node demo_sending 1"
  have acc: "acceptable (wd_crates ?W) demo_sent"
    using verify_hash_signed [OF demo_crypto_laws] demo_own_key
    by (simp add: acceptable_def demo_sent_def demo_identity_ok verify_payload_def sign_payload_def)
  have wait: "cn_task ?n 0 = Receiving" by (simp add: demo_sending_def fabric_init_def)
  let ?t = "move 0 (Storing demo_identity (replicate 16 3) [0x80]) (note_peer 77 (SockV4 1 2) demo_identity (cn_ex ?n)) (hear demo_sent ?n)"
  have "cstep (wd_crates ?W) ?n 0 (Hears demo_sent) ?t"
    by (rule cstep.hear_message [OF wait demo_sent_def acc])
  then have r: "freach ?W ?s0 (demo_sending\<lparr>fb_node := (fb_node demo_sending)(1 := ?t)\<rparr>)" (is "freach _ _ ?u")
    by (intro freach_step [OF demo_sending_reached] fstep.node_receives [OF _ demo_unforged]) simp_all
  let ?ex = "fst (record_fabric_message (id_human_name demo_identity) (id_public_key demo_identity) (replicate 16 3) [0x80] 77 (cn_ex ?t))"
  have "cn_task ?t 0 = Storing demo_identity (replicate 16 3) [0x80]" by simp
  from cstep.record_message [OF this, of "wd_crates ?W" 77]
  have "cstep (wd_crates ?W) (fb_node ?u 1) 0 Works (move 0 Receiving ?ex ?t)" by simp
  from freach_step [OF r fstep.node_works [OF _ this]]
  have "freach ?W ?s0 (?u\<lparr>fb_node := (fb_node ?u)(1 := move 0 Receiving ?ex ?t)\<rparr>)" by simp
  moreover have "demo_message \<in> set (ms_msgs (ex_messages ?ex))"
    by (simp add: record_fabric_message_def demo_sending_def fabric_init_def demo_executor_fields demo_names ms_push_def ms_new_def
        ms_append_def ms_remember_def dedup_key_def demo_message_def Let_def)
  ultimately show ?thesis by (intro exI) auto
qed

theorem stored_messages_authentic_witness:
  "\<exists>s. freach demo_world (fabric_init (\<lambda>_. demo_executor)) s \<and>
     demo_message \<in> set (ms_msgs (ex_messages (cn_ex (fb_node s 1)))) \<and>
     (\<exists>e v f. (public_key demo_world 0, identity_hash_input ''alice'' e v f (public_key demo_world 0)) \<in> signed demo_world s)"
proof -
  obtain s where s: "freach demo_world (fabric_init (\<lambda>_. demo_executor)) s"
    "demo_message \<in> set (ms_msgs (ex_messages (cn_ex (fb_node s 1))))" using demo_fabric_run by blast
  have "demo_message \<notin> set (ms_msgs (ex_messages demo_executor))" by (simp add: demo_executor_fields ms_new_def)
  from stored_messages_authentic [OF s this, of 0] s show ?thesis by (auto simp: demo_world_key demo_message_def)
qed

definition identity_codec :: "identity_data \<Rightarrow> bare_codec" where
  "identity_codec i = \<lparr>ba_to_vec = (\<lambda>_. None), ba_from_slice = (\<lambda>b.
     let x = fst (snd (identity_claim i)); n = length b in
     Some (SignedFabricMessage i (take n x) (drop n x) (id_signature i)))\<rparr>"

definition demo_listening :: serve_env where
  "demo_listening = (demo_serve demo_sent [5] demo_guest)
     \<lparr>sv_crates := (demo_crates (demo_codec CNull []))\<lparr>ck_bare := identity_codec demo_identity\<rparr>\<rparr>"

theorem identity_signature_is_a_message_witness:
  "\<exists>ex' out. serve_loop [(demo_listening, [], SockV4 6 6), (demo_listening, [0], SockV4 6 6)] demo_executor = (Listening, ex', out) \<and>
     ms_next_seq (ex_messages ex') = 3"
proof -
  let ?x = "identity_hash_input (id_human_name demo_identity) (id_generated_at demo_identity) (id_validity_s demo_identity)
    (id_key_fmt demo_identity) (id_public_key demo_identity)"
  have ok: "check_self_signature (ck_crypto (sv_crates demo_listening)) demo_identity = Inr ()"
    by (simp add: demo_listening_def demo_identity_ok)
  have dec: "ba_from_slice (ck_bare (sv_crates demo_listening)) (replicate n 0) =
      Some (SignedFabricMessage demo_identity (take n ?x) (drop n ?x) (id_signature demo_identity))" for n
    by (simp add: demo_listening_def identity_codec_def identity_claim_def Let_def)
  from identity_signature_is_a_message [OF ok refl, of "\<lambda>n. replicate n 0", OF dec, of "SockV4 6 6" "[0, 1]" demo_executor]
  show ?thesis by (auto simp: demo_executor_fields ms_push_req_def ms_push_def ms_new_def ms_append_def ms_remember_def
      dedup_key_def Let_def)
qed

text \<open>Mallory's program and Alice's name.\<close>

definition mallory_guest :: guest_run where
  "mallory_guest = \<lparr>gr_calls = [(demo_env, Some [1, 2], CMessagesPush 0 1 1 1)], gr_exit = 0, gr_wait = Inr 0\<rparr>"

theorem program_impersonates_witness:
  "\<exists>l ex' out. handle_execute_request (demo_serve demo_sent [5] mallory_guest) (SockV4 6 6)
       (demo_program\<lparr>pd_wasm_program_bytes := [6, 6, 6], pd_source := demo_identity\<rparr>) demo_executor = (l, ex', out) \<and>
     ex_messages ex' = fst (ms_push ''alice'' (replicate 32 7) [1] [2] 9 (ms_new 4096))"
proof -
  let ?env = "demo_serve demo_sent [5] mallory_guest" and ?p = "demo_program\<lparr>pd_wasm_program_bytes := [6, 6, 6]\<rparr>"
  have cl: "clamp0 1 = 1" "clamp0 0 = 0" using clamp0_of_nat [of 1] clamp0_of_nat [of 0] by simp_all
  obtain l ex' out where h: "handle_execute_request ?env (SockV4 6 6) (?p\<lparr>pd_source := demo_identity\<rparr>) demo_executor = (l, ex', out)"
    by (metis prod_cases3)
  have "ex_messages ex' = fst (ms_push (id_human_name demo_identity) (id_public_key demo_identity) [1] [2] (he_now demo_env) (ex_messages demo_executor))"
    by (rule program_impersonates [OF _ _ _ _ _ h, where mem = "Some [1, 2]" and id_ptr = 0 and id_len = 1 and text_ptr = 1 and text_len = 1])
      (simp_all add: demo_identity_ok demo_serve_def demo_engine_def mallory_guest_def read_guest_bytes_def cl)
  with h show ?thesis by (auto simp: demo_names demo_executor_fields demo_env_def)
qed

end
