(* ===== verification/Discovery_Path.thy ===== *)
theory Discovery_Path
  imports Node_Type
begin

text \<open>
  A discovery request along a path of nodes: each node on the path runs \<open>discovery_forward\<close> of
  \<open>src/command/serve.rs\<close> on the request that reached it, and the next node receives the one sub-request
  addressed to it. The nodes differ in their configuration, their neighbour table and their trust.
\<close>

section \<open>Travelling a path\<close>

text \<open>One node of the path: its environment, its state, the uuid its program chose for its children,
  and the address of the next node.\<close>

record hop =
  hp_env :: forward_env
  hp_ex :: executor
  hp_uuid :: "bytes option"
  hp_next :: socket_addr

text \<open>\<open>handle_execute_request\<close> spawns the forwarding only with a positive budget.\<close>

definition forward_to :: "program_data \<Rightarrow> hop \<Rightarrow> program_data option" where
  "forward_to p h =
     (if 0 < pd_depth_budget p
      then map_option fst (List.find (\<lambda>(sub, sub_bytes, addr). addr = hp_next h)
             (discovery_forward (hp_env h) p (hp_uuid h) (hp_ex h)))
      else None)"

fun travel :: "program_data \<Rightarrow> hop list \<Rightarrow> program_data option" where
  "travel p [] = Some p"
| "travel p (h # hs) = (case forward_to p h of Some sub \<Rightarrow> travel sub hs | None \<Rightarrow> None)"

section \<open>Lemmas\<close>

text \<open>What a node knows of the key of the next one: \<open>None\<close> when that address is no target of it.\<close>

definition next_key :: "hop \<Rightarrow> bytes option option" where
  "next_key h = map_of (forward_targets (hp_env h) (hp_ex h)) (hp_next h)"

definition next_trusted :: "hop \<Rightarrow> bool" where
  "next_trusted h = (case next_key h of Some (Some pk) \<Rightarrow> trusts_pubkey pk (hp_ex h) | _ \<Rightarrow> False)"

definition own_key :: "hop \<Rightarrow> bytes" where
  "own_key h = ex_identity_pubkey (hp_ex h)"

text \<open>The node knows the next one, can sign for itself, and does not know that the next one, or itself,
  is already on the path.\<close>

definition leads_on :: "bytes list \<Rightarrow> hop \<Rightarrow> bool" where
  "leads_on visited h \<longleftrightarrow> ex_identity_data (hp_ex h) \<noteq> None \<and>
     (case next_key h of
        None \<Rightarrow> False
      | Some None \<Rightarrow> True
      | Some (Some pk) \<Rightarrow> pk \<noteq> own_key h \<and> pk \<notin> set visited)"

definition sends_all :: "hop \<Rightarrow> bool" where
  "sends_all h \<longleftrightarrow> (\<forall>msg. ba_to_vec (fw_bare (hp_env h)) msg \<noteq> None)"

lemma find_map_filter:
  assumes "distinct (map fst ts)" and "\<And>t a b d. f t = Some (a, b, d) \<Longrightarrow> d = fst t"
  shows "List.find (\<lambda>(a, b, d). d = x) (List.map_filter f ts) =
    Option.bind (map_of ts x) (\<lambda>y. f (x, y))"
  using assms(1)
proof (induction ts)
  case (Cons t ts)
  have none: "map_of ts (fst t) = None" using Cons.prems by (simp add: map_of_eq_None_iff)
  obtain k v where t: "t = (k, v)" by (cases t)
  show ?case
  proof (cases "f t")
    case None
    with Cons none t show ?thesis by (auto simp: map_filter_Cons)
  next
    case (Some y)
    obtain a b where "y = (a, b, k)" using assms(2) Some t by (metis fst_conv prod_cases3)
    with Cons Some t show ?thesis by (auto simp: map_filter_Cons)
  qed
qed (simp add: map_filter_Nil)

text \<open>The request a hop makes of another.\<close>

definition child_request :: "program_data \<Rightarrow> hop \<Rightarrow> program_data" where
  "child_request p h = \<lparr>pd_source = the (ex_identity_data (hp_ex h)), pd_human_name = pd_human_name p,
     pd_wasm_program_bytes = pd_wasm_program_bytes p, pd_signature = [],
     pd_request_uuid = (case hp_uuid h of Some u \<Rightarrow> u | None \<Rightarrow> fw_random_uuid (hp_env h)),
     pd_depth_budget = child_depth_budget (pd_depth_budget p) (next_trusted h),
     pd_visited = pd_visited p @ [own_key h], pd_arg_list = [], pd_arg_map = []\<rparr>"

lemma sub_request_eq:
  "sub_request ex our incoming u (addr, pk) =
     (if (case pk of Some k \<Rightarrow> k = ex_identity_pubkey ex \<or> k \<in> set (pd_visited incoming) | None \<Rightarrow> False) then None
      else Some \<lparr>pd_source = our, pd_human_name = pd_human_name incoming,
        pd_wasm_program_bytes = pd_wasm_program_bytes incoming, pd_signature = [], pd_request_uuid = u,
        pd_depth_budget = child_depth_budget (pd_depth_budget incoming)
          (case pk of Some k \<Rightarrow> trusts_pubkey k ex | None \<Rightarrow> False),
        pd_visited = pd_visited incoming @ [ex_identity_pubkey ex], pd_arg_list = [], pd_arg_map = []\<rparr>)"
  by (auto simp: sub_request_def builder_defs builder_build_def split: option.splits)

lemma forward_to_exact:
  assumes "sends_all h"
  shows "forward_to p h =
    (if 0 < pd_depth_budget p \<and> leads_on (pd_visited p) h then Some (child_request p h) else None)"
proof (cases "ex_identity_data (hp_ex h)")
  case None
  then show ?thesis by (simp add: forward_to_def discovery_forward_def leads_on_def)
next
  case (Some our)
  let ?u = "case hp_uuid h of Some u \<Rightarrow> u | None \<Rightarrow> fw_random_uuid (hp_env h)"
  let ?f = "\<lambda>target. Option.bind (sub_request (hp_ex h) our p ?u target) (\<lambda>sub.
    map_option (\<lambda>sub_bytes. (sub, sub_bytes, fst target)) (ba_to_vec (fw_bare (hp_env h)) (ExecuteRequest sub)))"
  have "List.find (\<lambda>(sub, sub_bytes, addr). addr = hp_next h) (discovery_forward (hp_env h) p (hp_uuid h) (hp_ex h)) =
      Option.bind (next_key h) (\<lambda>pk. ?f (hp_next h, pk))"
    unfolding discovery_forward_def Some option.case Let_def next_key_def
    by (rule find_map_filter [OF forward_targets_distinct]) (auto simp: bind_eq_Some_conv)
  moreover obtain bs where "ba_to_vec (fw_bare (hp_env h)) (ExecuteRequest (child_request p h)) = Some bs"
    using assms by (auto simp: sends_all_def)
  ultimately show ?thesis
    using Some by (auto simp: forward_to_def leads_on_def sub_request_eq child_request_def next_trusted_def own_key_def
        split: option.splits)
qed

abbreviation budget_after :: "u8 \<Rightarrow> hop list \<Rightarrow> u8" where
  "budget_after b hs \<equiv> fold (\<lambda>t b. child_depth_budget b t) (map next_trusted hs) b"

definition path_open :: "program_data \<Rightarrow> hop list \<Rightarrow> bool" where
  "path_open p hs \<longleftrightarrow> (\<forall>j < length hs. leads_on (pd_visited p @ map own_key (take j hs)) (hs ! j) \<and>
     0 < budget_after (pd_depth_budget p) (take j hs))"

lemma child_request_simps [simp]:
  "pd_visited (child_request p h) = pd_visited p @ [own_key h]"
  "pd_wasm_program_bytes (child_request p h) = pd_wasm_program_bytes p"
  "pd_depth_budget (child_request p h) = child_depth_budget (pd_depth_budget p) (next_trusted h)"
  by (simp_all add: child_request_def)

lemma path_open_Cons:
  "path_open p (h # hs) \<longleftrightarrow> 0 < pd_depth_budget p \<and> leads_on (pd_visited p) h \<and> path_open (child_request p h) hs"
  unfolding path_open_def by (auto simp: All_less_Suc2)

lemma travel_eq:
  "list_all sends_all hs \<Longrightarrow> travel p hs = (if path_open p hs then Some (fold (\<lambda>h p. child_request p h) hs p) else None)"
proof (induction hs arbitrary: p)
  case Nil
  show ?case by (simp add: path_open_def)
next
  case (Cons h hs)
  then show ?case by (simp add: forward_to_exact path_open_Cons)
qed

lemma child_requests:
  "pd_wasm_program_bytes (fold (\<lambda>h p. child_request p h) hs p) = pd_wasm_program_bytes p \<and>
   pd_visited (fold (\<lambda>h p. child_request p h) hs p) = pd_visited p @ map own_key hs \<and>
   pd_depth_budget (fold (\<lambda>h p. child_request p h) hs p) = budget_after (pd_depth_budget p) hs"
  by (induction hs arbitrary: p) simp_all

section \<open>Properties\<close>

text \<open>C12: which paths a discovery request travels. Along any path of nodes whose encoder does not fail, the
  request reaches the end exactly when every node on the path has an identity, has the next one
  among its targets and knows neither it nor itself to be on the path already, and the budget is
  still positive at every node. What arrives is the same program, with the keys of all the nodes
  it passed and the budget the hops left. Together with \<open>forwarding_depth_exact\<close> this says how far
  discovery sees.\<close>

theorem discovery_path_exact:
  assumes "list_all sends_all hs"
  shows "(travel p hs \<noteq> None \<longleftrightarrow>
      (\<forall>j < length hs. leads_on (pd_visited p @ map own_key (take j hs)) (hs ! j) \<and>
         0 < fold (\<lambda>t b. child_depth_budget b t) (map next_trusted (take j hs)) (pd_depth_budget p))) \<and>
    (case travel p hs of
       None \<Rightarrow> True
     | Some q \<Rightarrow> pd_wasm_program_bytes q = pd_wasm_program_bytes p \<and> pd_visited q = pd_visited p @ map own_key hs \<and>
         pd_depth_budget q = fold (\<lambda>t b. child_depth_budget b t) (map next_trusted hs) (pd_depth_budget p))"
  using child_requests [of hs p] by (simp add: travel_eq [OF assms] path_open_def [symmetric])

section \<open>How far the nodes of the program see\<close>

text \<open>A node as the program runs it: started from its key file, then serving.\<close>

definition started_node :: "executor \<Rightarrow> bool" where
  "started_node ex \<longleftrightarrow> (\<exists>cr kc name keyfile host now ds l out.
     serve_loop ds (executor_startup cr kc keyfile (executor_new cr kc name keyfile host now)) = (l, ex, out))"

lemma started_node_trust:
  assumes "started_node ex" and "trusts_pubkey k ex"
  shows "k = ex_identity_pubkey ex"
proof -
  obtain cr kc name keyfile host now ds l out where
    run: "serve_loop ds (executor_startup cr kc keyfile (executor_new cr kc name keyfile host now)) = (l, ex, out)"
    (is "serve_loop _ ?ex0 = _") using assms(1) by (auto simp: started_node_def)
  have "node_fixed ex = node_fixed ?ex0" using serve_loop_ok [OF startup_ok run] by simp
  then have "ex_trusted_keys ex = ex_trusted_keys ?ex0" "ex_identity_pubkey ex = ex_identity_pubkey ?ex0"
    by (simp_all add: node_fixed_def)
  with assms(2) have "k \<in> set (dm_values (ex_trusted_keys ?ex0))" "ex_identity_pubkey ex = ex_identity_pubkey ?ex0"
    by (simp_all add: trusts_pubkey_iff)
  then show ?thesis
    using read_public_key_of_private [of kc cr keyfile]
    by (auto simp: executor_startup_def executor_new_def add_trusted_key_def dm_insert_def dm_values_def Let_def
        split: sum.splits)
qed

lemma leads_on_untrusted: "started_node (hp_ex h) \<Longrightarrow> leads_on visited h \<Longrightarrow> \<not> next_trusted h"
  using started_node_trust [of "hp_ex h"]
  by (auto simp: leads_on_def next_trusted_def own_key_def split: option.splits)

lemma untrusted_grant: "unat (child_depth_budget b False) = min (unat b - 1) 2"
  by (simp add: dr.grant_exact depth_defs)

text \<open>The horizon of discovery. The code grants a trusted peer eight more hops, but a node trusts no key
  except its own, and its own is never forwarded to. So every edge between two nodes of the program
  counts as untrusted, and whatever budget a request enters with, at most three nodes in a row
  forward it.\<close>

theorem discovery_horizon:
  assumes "list_all (\<lambda>h. started_node (hp_ex h) \<and> sends_all h) hs" and "travel p hs = Some q"
  shows "length hs \<le> 3"
proof (rule ccontr)
  assume "\<not> length hs \<le> 3"
  then have l: "3 < length hs" by simp
  have "list_all sends_all hs" using assms(1) by (simp add: list_all_iff)
  with assms(2) have open_: "path_open p hs" by (simp add: travel_eq split: if_splits)
  have "\<not> next_trusted h" if "h \<in> set (take 3 hs)" for h
  proof -
    have "h \<in> set hs" using that by (rule in_set_takeD)
    then obtain j where j: "j < length hs" "h = hs ! j" unfolding in_set_conv_nth by blast
    with assms(1) have "started_node (hp_ex h)" by (simp add: list_all_length)
    moreover have "leads_on (pd_visited p @ map own_key (take j hs)) h" using open_ j unfolding path_open_def by blast
    ultimately show ?thesis by (rule leads_on_untrusted)
  qed
  then have "map next_trusted (take 3 hs) = replicate 3 False"
    using l by (intro replicate_eqI) auto
  moreover have "0 < budget_after (pd_depth_budget p) (take 3 hs)" using open_ l unfolding path_open_def by blast
  ultimately have "0 < unat (child_depth_budget (child_depth_budget (child_depth_budget (pd_depth_budget p) False) False) False)"
    by (simp add: numeral_3_eq_3 unat_gt_0)
  then show False by (simp add: untrusted_grant)
qed

section \<open>Concrete instances\<close>

definition demo_hop :: "bytes \<Rightarrow> hop" where
  "demo_hop key = \<lparr>hp_env = demo_forward, hp_ex = demo_node\<lparr>ex_identity_pubkey := key\<rparr>, hp_uuid = None, hp_next = SockV4 1 9\<rparr>"

lemma demo_hop_simps [simp]:
  "next_key (demo_hop key) = Some None" "own_key (demo_hop key) = key" "next_trusted (demo_hop key) = False"
  "leads_on visited (demo_hop key)" "sends_all (demo_hop key)"
proof -
  have "forward_targets demo_forward (demo_node\<lparr>ex_identity_pubkey := key\<rparr>) = [(SockV4 1 9, None)]"
    by (simp add: forward_targets_def demo_forward_def peer_target_def demo_peer_def connect_hosts_def
        option_list_def expected_key_str_def push_target_def observed_targets_def demo_node_def demo_executor_fields)
  then show k: "next_key (demo_hop key) = Some None" by (simp add: next_key_def demo_hop_def)
  then show "next_trusted (demo_hop key) = False" "leads_on visited (demo_hop key)"
    by (simp_all add: next_trusted_def leads_on_def demo_hop_def demo_node_def)
  show "own_key (demo_hop key) = key" "sends_all (demo_hop key)"
    by (simp_all add: own_key_def demo_hop_def sends_all_def demo_forward_def)
qed

text \<open>An untrusted edge leaves a budget of 2: two more hops, and no third.\<close>

theorem discovery_path_exact_witness:
  "(\<exists>q. travel demo_incoming [demo_hop [2], demo_hop [3], demo_hop [4]] = Some q \<and>
     pd_visited q = [[1], [2], [3], [4]] \<and> pd_depth_budget q = 0) \<and>
   travel demo_incoming [demo_hop [2], demo_hop [3], demo_hop [4], demo_hop [5]] = None"
proof -
  have b: "child_depth_budget 8 False = 2" "child_depth_budget 2 False = 1" "child_depth_budget 1 False = 0"
    by (simp_all add: child_depth_budget_def depth_defs)
  have p: "pd_depth_budget demo_incoming = 8" "pd_visited demo_incoming = [[1]]" by (simp_all add: demo_incoming_def)
  have three: "list_all sends_all [demo_hop [2], demo_hop [3], demo_hop [4]]"
    and four: "list_all sends_all [demo_hop [2], demo_hop [3], demo_hop [4], demo_hop [5]]" by simp_all
  from discovery_path_exact [OF three, of demo_incoming] have "\<exists>q. travel demo_incoming [demo_hop [2], demo_hop [3], demo_hop [4]] = Some q \<and>
     pd_visited q = [[1], [2], [3], [4]] \<and> pd_depth_budget q = 0"
    by (auto simp: All_less_Suc2 b p simp del: travel.simps split: option.splits)
  moreover have "travel demo_incoming [demo_hop [2], demo_hop [3], demo_hop [4], demo_hop [5]] = None"
    using discovery_path_exact [OF four, of demo_incoming] by (auto simp: All_less_Suc2 b p simp del: travel.simps)
  ultimately show ?thesis by blast
qed

definition demo_started_hop :: hop where
  "demo_started_hop = \<lparr>hp_env = demo_forward, hp_ex = demo_executor, hp_uuid = None, hp_next = SockV4 1 9\<rparr>"

lemma demo_started_hop_ok: "started_node (hp_ex demo_started_hop)" "sends_all demo_started_hop"
proof -
  have "serve_loop [] demo_executor = (Listening, demo_executor, [])" by simp
  then show "started_node (hp_ex demo_started_hop)"
    unfolding started_node_def demo_started_hop_def hop.simps by (subst (asm) (1) demo_executor_def) blast
  show "sends_all demo_started_hop" by (simp add: sends_all_def demo_started_hop_def demo_forward_def)
qed

lemma demo_started_hop_leads: "next_key demo_started_hop = Some None" "leads_on visited demo_started_hop"
proof -
  have "forward_targets demo_forward demo_executor = [(SockV4 1 9, None)]"
    by (simp add: forward_targets_def demo_forward_def peer_target_def demo_peer_def connect_hosts_def
        option_list_def expected_key_str_def push_target_def observed_targets_def demo_executor_fields)
  then show k: "next_key demo_started_hop = Some None" by (simp add: next_key_def demo_started_hop_def)
  have "ex_identity_data demo_executor \<noteq> None"
    by (simp add: demo_executor_def executor_startup_def executor_new_def add_trusted_key_def generate_from_config_def
        read_public_key_ed25519_pem_file_def read_private_key_ed25519_pem_file_def demo_key_codec_def demo_crypto_def Let_def)
  with k show "leads_on visited demo_started_hop" by (simp add: leads_on_def demo_started_hop_def)
qed

theorem discovery_horizon_witness:
  "\<exists>q. travel demo_incoming (replicate 3 demo_started_hop) = Some q \<and> length (replicate 3 demo_started_hop) \<le> 3"
proof -
  have b: "child_depth_budget 8 False = 2" "child_depth_budget 2 False = 1"
    by (simp_all add: child_depth_budget_def depth_defs)
  have f: "next_trusted demo_started_hop = False" by (simp add: next_trusted_def demo_started_hop_leads)
  have ok: "list_all (\<lambda>h. started_node (hp_ex h) \<and> sends_all h) (replicate 3 demo_started_hop)"
    using demo_started_hop_ok by (simp add: numeral_3_eq_3)
  have "travel demo_incoming (replicate 3 demo_started_hop) \<noteq> None"
    using demo_started_hop_ok(2) by (simp add: numeral_3_eq_3 forward_to_exact demo_started_hop_leads f b demo_incoming_def)
  then obtain q where "travel demo_incoming (replicate 3 demo_started_hop) = Some q" by blast
  with discovery_horizon [OF ok this] show ?thesis by blast
qed

end
