(* ===== verification/Security_Log.thy ===== *)
theory Security_Log
  imports Serve Addr_Text
begin

text \<open>
  The security log of a node, \<open>log_sig_event\<close> in \<open>src/command/serve.rs\<close>, and the calls that write it:
  one line for each request and each signed message, with the verdict on its signatures and the
  full key it claims. The name in the line is the sender's choice; it is written with \<open>{:?}\<close>, the
  \<open>Debug\<close> of text in the standard library, which is modelled here on the bytes of the text. The
  line decides everything a reader of the log looks for.
\<close>

section \<open>Debug of text\<close>

text \<open>The code point of a valid UTF-8 sequence of one character.\<close>

fun code_point :: "bytes \<Rightarrow> nat" where
  "code_point [a] = unat a"
| "code_point [a, b] = (unat a - 0xC0) * 64 + (unat b - 0x80)"
| "code_point [a, b, c] = ((unat a - 0xE0) * 64 + (unat b - 0x80)) * 64 + (unat c - 0x80)"
| "code_point [a, b, c, d] =
     (((unat a - 0xF0) * 64 + (unat b - 0x80)) * 64 + (unat c - 0x80)) * 64 + (unat d - 0x80)"
| "code_point _ = 0"

text \<open>\<open>shown\<close> stands for the tables of the Unicode version in use: the characters from U+007F on which
  are printable and extend no grapheme. Below them the standard library decides without a table.\<close>

definition is_plain :: "(nat \<Rightarrow> bool) \<Rightarrow> nat \<Rightarrow> bool" where
  "is_plain shown c \<longleftrightarrow> (if c < 0x20 then False else if c < 0x7F then True else shown c)"

definition backslash :: "string \<Rightarrow> string" where
  "backslash s = CHR 0x5C # s"

definition escape_debug :: "(nat \<Rightarrow> bool) \<Rightarrow> bytes \<Rightarrow> string" where
  "escape_debug shown chunk =
     (let c = code_point chunk in
      if c = 0 then backslash ''0''
      else if c = 0x09 then backslash ''t''
      else if c = 0x0D then backslash ''r''
      else if c = 0x0A then backslash ''n''
      else if c = 0x5C then backslash [CHR 0x5C]
      else if c = 0x22 then backslash [CHR 0x22]
      else if is_plain shown c then text_of_bytes chunk
      else backslash (''u{'' @ show_base 16 c @ ''}''))"

function debug_body :: "(nat \<Rightarrow> bool) \<Rightarrow> bytes \<Rightarrow> string" where
  "debug_body shown [] = []"
| "debug_body shown (b # bs) =
     (let n = fst (utf8_chunk (b # bs))
      in escape_debug shown (take n (b # bs)) @ debug_body shown (drop n (b # bs)))"
  by pat_completeness auto
termination
  by (relation "measure (length \<circ> snd)") (auto simp del: drop_Cons' simp: Suc_le_eq)

declare debug_body.simps(2) [simp del]

definition debug_str :: "(nat \<Rightarrow> bool) \<Rightarrow> string \<Rightarrow> string" where
  "debug_str shown s = CHR 0x22 # debug_body shown (as_bytes s) @ [CHR 0x22]"

section \<open>The log\<close>

datatype level = Info | Warn

definition log_sig_event ::
  "(nat \<Rightarrow> bool) \<Rightarrow> string \<Rightarrow> bool \<Rightarrow> socket_addr \<Rightarrow> identity_data \<Rightarrow> string \<Rightarrow> level \<times> string" where
  "log_sig_event shown kind ok addr source detail =
     (let short = short_id (id_public_key source);
          pubkey = to_hex (id_public_key source);
          verdict = (if ok then ''GOOD'' else ''BAD'')
      in (if ok then Info else Warn,
          ''[security] sig='' @ verdict @ '' kind='' @ kind @ '' addr='' @ show_socket_addr addr @
          '' short='' @ short @ '' pubkey='' @ pubkey @ '' name='' @ debug_str shown (id_human_name source) @ detail))"

text \<open>What is logged for a request and for a signed message; \<open>err\<close> is the \<open>Debug\<close> of an error.\<close>

definition audit_request ::
  "(nat \<Rightarrow> bool) \<Rightarrow> (sig_error \<Rightarrow> string) \<Rightarrow> crypto \<Rightarrow> socket_addr \<Rightarrow> program_data \<Rightarrow> level \<times> string" where
  "audit_request shown err cr addr program =
     (case check_self_signature cr (pd_source program) of
        Inr _ \<Rightarrow> log_sig_event shown ''execute-req'' True addr (pd_source program)
          ('' program='' @ debug_str shown (pd_human_name program))
      | Inl e \<Rightarrow> log_sig_event shown ''execute-req'' False addr (pd_source program)
          ('' program='' @ debug_str shown (pd_human_name program) @ '' error=bad-identity-sig detail='' @ err e))"

definition audit_message ::
  "(nat \<Rightarrow> bool) \<Rightarrow> (sig_error \<Rightarrow> string) \<Rightarrow> crypto \<Rightarrow> socket_addr \<Rightarrow> identity_data \<Rightarrow> bytes \<Rightarrow> bytes \<Rightarrow> bytes \<Rightarrow> level \<times> string" where
  "audit_message shown err cr addr source id_bytes cbor_data signature =
     (case check_self_signature cr source of
        Inl e \<Rightarrow> log_sig_event shown ''fabric-msg'' False addr source ('' error=bad-identity-sig detail='' @ err e)
      | Inr _ \<Rightarrow>
          (case verify_payload cr source id_bytes cbor_data signature of
             Inl e \<Rightarrow> log_sig_event shown ''fabric-msg'' False addr source ('' error=bad-payload-sig detail='' @ err e)
           | Inr _ \<Rightarrow> log_sig_event shown ''fabric-msg'' True addr source []))"

text \<open>Other messages are no security events.\<close>

definition audit :: "(nat \<Rightarrow> bool) \<Rightarrow> (sig_error \<Rightarrow> string) \<Rightarrow> crypto \<Rightarrow> socket_addr \<Rightarrow> network_message \<Rightarrow> (level \<times> string) option" where
  "audit shown err cr addr msg =
     (case msg of
        ExecuteRequest program \<Rightarrow> Some (audit_request shown err cr addr program)
      | SignedFabricMessage source id_bytes cbor_data signature \<Rightarrow>
          Some (audit_message shown err cr addr source id_bytes cbor_data signature)
      | _ \<Rightarrow> None)"

lemmas audit_defs = audit_def audit_request_def audit_message_def

section \<open>Characters\<close>

lemma is_cont_range: "is_cont b \<longleftrightarrow> 0x80 \<le> unat b \<and> unat b < 0xC0"
proof -
  have "b AND push_bit 6 (mask 2) = push_bit 6 (drop_bit 6 b)"
    by (rule bit_word_eqI) (auto simp: bit_simps)
  then have "b AND 0xC0 = push_bit 6 (drop_bit 6 b)" by (simp add: mask_eq_exp_minus_1)
  moreover have "(0x80 :: u8) = push_bit 6 2" by simp
  ultimately have "is_cont b \<longleftrightarrow> push_bit 6 (drop_bit 6 b) = push_bit 6 (2 :: u8)" by (simp add: is_cont_def)
  also have "\<dots> \<longleftrightarrow> drop_bit 6 b = 2" 
  proof
    assume "push_bit 6 (drop_bit 6 b) = push_bit 6 (2 :: u8)"
    then have "drop_bit 6 (push_bit 6 (drop_bit 6 b)) = drop_bit 6 (push_bit 6 (2 :: u8))" by simp
    moreover have "bit (drop_bit 6 (push_bit 6 (drop_bit 6 b))) n = bit (drop_bit 6 b) n" for n
      using bit_imp_le_length [of b "6 + n"] by (auto simp: bit_simps)
    then have "drop_bit 6 (push_bit 6 (drop_bit 6 b)) = drop_bit 6 b" by (rule bit_eqI)
    ultimately show "drop_bit 6 b = 2" by simp
  qed simp
  also have "\<dots> \<longleftrightarrow> unat b div 64 = 2" by (simp add: word_unat_eq_iff unat_drop_bit_eq drop_bit_eq_div unat_div)
  also have "\<dots> \<longleftrightarrow> 0x80 \<le> unat b \<and> unat b < 0xC0" by linarith
  finally show ?thesis .
qed

definition is_chunk :: "bytes \<Rightarrow> bool" where
  "is_chunk c \<longleftrightarrow> c \<noteq> [] \<and> utf8_chunk c = (length c, True)"

text \<open>The four forms of a character, with the ranges of code points that exclude each other.\<close>

lemma chunk_cases:
  assumes "is_chunk c"
  obtains a where "c = [a]" "unat a < 0x80"
  | a b where "c = [a, b]" "0xC2 \<le> unat a" "unat a \<le> 0xDF" "0x80 \<le> unat b" "unat b < 0xC0"
  | a b d where "c = [a, b, d]" "0xE0 \<le> unat a" "unat a \<le> 0xEF" "0x80 \<le> unat b" "unat b < 0xC0" "0x80 \<le> unat d" "unat d < 0xC0"
      "unat a = 0xE0 \<longrightarrow> 0xA0 \<le> unat b"
  | a b d e where "c = [a, b, d, e]" "0xF0 \<le> unat a" "unat a \<le> 0xF4" "0x80 \<le> unat b" "unat b < 0xC0" "0x80 \<le> unat d" "unat d < 0xC0"
      "0x80 \<le> unat e" "unat e < 0xC0" "unat a = 0xF0 \<longrightarrow> 0x90 \<le> unat b"
proof -
  obtain a cs where c: "c = a # cs" using assms by (cases c) (auto simp: is_chunk_def)
  note w = word_le_nat_alt word_less_nat_alt word_unat_eq_iff is_cont_range
  have u: "utf8_chunk (a # cs) = (Suc (length cs), True)" using assms by (simp add: is_chunk_def c)
  consider "a < 0x80" | "0xC2 \<le> a" "a \<le> 0xDF" | "0xE0 \<le> a" "a \<le> 0xEF" | "0xF0 \<le> a" "a \<le> 0xF4"
    using u unfolding utf8_chunk.simps Let_def by (auto split: if_splits)
  then show thesis
  proof cases
    case 1
    with u that(1) c show ?thesis by (simp add: utf8_chunk.simps w)
  next
    case 2
    then have "\<not> a < 0x80" by (simp add: w)
    with 2 u have "length cs = 1" "is_cont (byte_or_0 cs 0)" by (auto simp: utf8_chunk.simps split: if_splits)
    then obtain b where "cs = [b]" "is_cont b" by (auto simp: length_Suc_conv byte_or_0_def)
    with 2 c show ?thesis by (intro that(2) [of a b]) (simp_all add: w)
  next
    case 3
    then have "\<not> a < 0x80" "\<not> a \<le> 0xDF" by (simp_all add: w)
    with 3 u have "length cs = 2" "second_of_3 a (byte_or_0 cs 0)" "is_cont (byte_or_0 cs 1)"
      by (auto simp: utf8_chunk.simps split: if_splits)
    then obtain b d where "cs = [b, d]" "second_of_3 a b" "is_cont d"
      by (auto simp: length_Suc_conv numeral_2_eq_2 byte_or_0_def)
    with 3 c show ?thesis by (intro that(3) [of a b d]) (auto simp: w second_of_3_def split: if_splits)
  next
    case 4
    then have "\<not> a < 0x80" "\<not> a \<le> 0xDF" "\<not> a \<le> 0xEF" by (simp_all add: w)
    with 4 u have "length cs = 3" "second_of_4 a (byte_or_0 cs 0)" "is_cont (byte_or_0 cs 1)" "is_cont (byte_or_0 cs 2)"
      by (auto simp: utf8_chunk.simps split: if_splits)
    then obtain b d e where "cs = [b, d, e]" "second_of_4 a b" "is_cont d" "is_cont e"
      by (auto simp: length_Suc_conv numeral_3_eq_3 byte_or_0_def)
    with 4 c show ?thesis by (intro that(4) [of a b d e]) (auto simp: w second_of_4_def split: if_splits)
  qed
qed

lemma code_point_range:
  "is_chunk c \<Longrightarrow> length c = (if code_point c < 0x80 then 1 else if code_point c < 0x800 then 2
     else if code_point c < 0x10000 then 3 else 4)"
proof (erule chunk_cases)
  fix a b d e
  assume c: "c = [a, b, d, e]" and r: "0xF0 \<le> unat a" "unat a = 0xF0 \<longrightarrow> 0x90 \<le> unat b"
  have "0x10 \<le> (unat a - 0xF0) * 64 + (unat b - 0x80)" using r by arith
  then show ?thesis using c by simp
next
  fix a b d
  assume c: "c = [a, b, d]" and r: "0xE0 \<le> unat a" "unat a \<le> 0xEF" "unat b < 0xC0" "unat d < 0xC0"
    "unat a = 0xE0 \<longrightarrow> 0xA0 \<le> unat b"
  have "0x20 \<le> (unat a - 0xE0) * 64 + (unat b - 0x80)" "(unat a - 0xE0) * 64 + (unat b - 0x80) < 0x400" using r by arith+
  moreover have "unat d - 0x80 < 64" using r by arith
  ultimately show ?thesis using c by simp
next
  fix a b
  assume c: "c = [a, b]" and r: "0xC2 \<le> unat a" "unat a \<le> 0xDF" "unat b < 0xC0"
  have "2 \<le> unat a - 0xC0" "unat a - 0xC0 < 0x20" "unat b - 0x80 < 64" using r by arith+
  then show ?thesis using c by simp
qed simp

lemma base_64:
  assumes "(x :: nat) * 64 + y = x' * 64 + y'" and "y < 64" and "y' < 64"
  shows "x = x' \<and> y = y'"
  using arg_cong [OF assms(1), of "\<lambda>n. n div 64"] arg_cong [OF assms(1), of "\<lambda>n. n mod 64"] assms(2,3) by simp

lemma minus_inj: "(k :: nat) \<le> unat (a :: u8) \<Longrightarrow> k \<le> unat b \<Longrightarrow> unat a - k = unat b - k \<Longrightarrow> a = b"
  by (simp add: word_unat_eq_iff)

lemma code_point_inj:
  assumes "is_chunk c" and "is_chunk d" and eq: "code_point c = code_point d"
  shows "c = d"
proof -
  have l: "length c = length d" using code_point_range assms by metis
  have m: "unat x - 0x80 < 64" if "unat x < 0xC0" for x :: u8 using that by arith
  have b: "p = p' \<and> unat v = unat v'"
    if "p * 64 + (unat v - 0x80) = p' * 64 + (unat v' - 0x80)" "0x80 \<le> unat v" "unat v < 0xC0" "0x80 \<le> unat v'" "unat v' < 0xC0"
    for p p' and v v' :: u8
    using base_64 [OF that(1) m m] that(2-5) by (auto simp: eq_diff_iff)
  show ?thesis
    using assms(1)
  proof (cases rule: chunk_cases)
    case (1 a)
    with l obtain a' where "d = [a']" by (cases d) auto
    with 1 eq show ?thesis by (simp add: word_unat_eq_iff)
  next
    case (2 x y)
    from assms(2) l 2(1) obtain x' y' where d: "d = [x', y']" "0xC2 \<le> unat x'" "0x80 \<le> unat y'" "unat y' < 0xC0"
      by (auto elim!: chunk_cases)
    with b [of "unat x - 0xC0" y "unat x' - 0xC0" y'] minus_inj [of "0xC0" x x'] eq 2 show ?thesis by (simp add: word_unat_eq_iff)
  next
    case (3 x y z)
    from assms(2) l 3(1) obtain x' y' z' where d: "d = [x', y', z']" "0xE0 \<le> unat x'" "0x80 \<le> unat y'" "unat y' < 0xC0"
      "0x80 \<le> unat z'" "unat z' < 0xC0"
      by (auto elim!: chunk_cases)
    with b [of "(unat x - 0xE0) * 64 + (unat y - 0x80)" z "(unat x' - 0xE0) * 64 + (unat y' - 0x80)" z'] eq 3
    have "(unat x - 0xE0) * 64 + (unat y - 0x80) = (unat x' - 0xE0) * 64 + (unat y' - 0x80)" "z = z'"
      by (simp_all add: word_unat_eq_iff)
    with b [of "unat x - 0xE0" y "unat x' - 0xE0" y'] minus_inj [of "0xE0" x x'] d 3 show ?thesis by (simp add: word_unat_eq_iff)
  next
    case (4 x y z w)
    from assms(2) l 4(1) obtain x' y' z' w' where d: "d = [x', y', z', w']" "0xF0 \<le> unat x'" "0x80 \<le> unat y'" "unat y' < 0xC0"
      "0x80 \<le> unat z'" "unat z' < 0xC0" "0x80 \<le> unat w'" "unat w' < 0xC0"
      by (auto elim!: chunk_cases)
    let ?p = "(unat x - 0xF0) * 64 + (unat y - 0x80)" and ?p' = "(unat x' - 0xF0) * 64 + (unat y' - 0x80)"
    from d b [of "?p * 64 + (unat z - 0x80)" w "?p' * 64 + (unat z' - 0x80)" w'] eq 4
    have "?p * 64 + (unat z - 0x80) = ?p' * 64 + (unat z' - 0x80)" and w: "w = w'" by (simp_all add: word_unat_eq_iff)
    with b [of ?p z ?p' z'] d 4 have "?p = ?p'" and z: "z = z'" by (simp_all add: word_unat_eq_iff)
    with b [of "unat x - 0xF0" y "unat x' - 0xF0" y'] minus_inj [of "0xF0" x x'] d 4 w z show ?thesis by (simp add: word_unat_eq_iff)
  qed
qed

text \<open>Characters are prefix-free, and valid text is a list of them.\<close>

lemma utf8_chunk_append: "is_chunk c \<Longrightarrow> utf8_chunk (c @ r) = (length c, True)"
proof -
  assume c: "is_chunk c"
  then obtain a cs where cs: "c = a # cs" by (cases c) (auto simp: is_chunk_def)
  from c have u: "utf8_chunk (a # cs) = (Suc (length cs), True)" by (simp add: is_chunk_def cs)
  have b: "byte_or_0 (cs @ r) i = byte_or_0 cs i" if "i < length cs" for i
    using that by (simp add: byte_or_0_def nth_append)
  note u = u [unfolded utf8_chunk.simps Let_def]
  consider "a < 0x80" | "\<not> a < 0x80" "0xC2 \<le> a \<and> a \<le> 0xDF" | "\<not> a < 0x80" "\<not> (0xC2 \<le> a \<and> a \<le> 0xDF)" "0xE0 \<le> a \<and> a \<le> 0xEF"
    | "\<not> a < 0x80" "\<not> (0xC2 \<le> a \<and> a \<le> 0xDF)" "\<not> (0xE0 \<le> a \<and> a \<le> 0xEF)" by blast
  then have "utf8_chunk (a # cs @ r) = (Suc (length cs), True)"
  proof cases
    case 1
    with u show ?thesis unfolding utf8_chunk.simps Let_def by simp
  next
    case 2
    with u have "length cs = 1" by (simp split: if_splits)
    with u 2 b [of 0] show ?thesis unfolding utf8_chunk.simps Let_def by (simp split: if_splits)
  next
    case 3
    with u have "length cs = 2" by (simp split: if_splits)
    with u 3 b [of 0] b [of 1] show ?thesis unfolding utf8_chunk.simps Let_def by (simp split: if_splits)
  next
    case 4
    with u have "length cs = 3" by (simp split: if_splits)
    with u 4 b [of 0] b [of 1] b [of 2] show ?thesis unfolding utf8_chunk.simps Let_def by (simp split: if_splits)
  qed
  then show ?thesis by (simp add: cs)
qed

lemma utf8_chunk_length: "snd (utf8_chunk s) \<Longrightarrow> fst (utf8_chunk s) \<le> length s"
proof (cases s)
  case (Cons a cs)
  have z: "i < length cs" if "is_cont (byte_or_0 cs i)" for i
    using that by (auto simp: byte_or_0_def is_cont_def split: if_splits)
  have z0: "0 < length cs" if "second_of_3 a (byte_or_0 cs 0) \<or> second_of_4 a (byte_or_0 cs 0)"
    using that by (auto simp: byte_or_0_def second_of_3_def second_of_4_def split: if_splits)
  assume "snd (utf8_chunk s)"
  then have "fst (utf8_chunk (a # cs)) \<le> Suc (length cs)" 
    using z [of 0] z [of 1] z [of 2] z0 unfolding Cons utf8_chunk.simps Let_def
    by (cases "a < 0x80"; cases "0xC2 \<le> a \<and> a \<le> 0xDF"; cases "0xE0 \<le> a \<and> a \<le> 0xEF") (simp_all add: Suc_le_eq split: if_splits)
  then show ?thesis by (simp add: Cons)
qed simp

lemma utf8_chunk_take: "snd (utf8_chunk s) \<Longrightarrow> utf8_chunk (take (fst (utf8_chunk s)) s) = (fst (utf8_chunk s), True)"
proof (cases s)
  case (Cons a cs)
  assume ok: "snd (utf8_chunk s)"
  have b: "byte_or_0 (take k cs) i = byte_or_0 cs i" if "i < k" for i k
    using that by (simp add: byte_or_0_def)
  obtain k where k: "fst (utf8_chunk (a # cs)) = Suc k" using utf8_chunk_pos_Cons [of a cs] by (metis gr0_implies_Suc)
  have "utf8_chunk (a # take k cs) = (Suc k, True)"
    using ok k b [of 0 k] b [of 1 k] b [of 2 k] unfolding Cons utf8_chunk.simps Let_def
    by (cases "a < 0x80"; cases "0xC2 \<le> a \<and> a \<le> 0xDF"; cases "0xE0 \<le> a \<and> a \<le> 0xEF") (simp_all split: if_splits)
  then show ?thesis using k ok by (simp add: Cons)
qed simp

lemma valid_utf8_induct [consumes 1, case_names Nil char]:
  assumes "valid_utf8 s" and "P []" and "\<And>c r. is_chunk c \<Longrightarrow> valid_utf8 r \<Longrightarrow> P r \<Longrightarrow> P (c @ r)"
  shows "P s"
  using assms(1)
proof (induction s rule: valid_utf8.induct)
  case (2 b bs)
  let ?s = "b # bs" and ?n = "fst (utf8_chunk (b # bs))"
  have ok: "snd (utf8_chunk ?s)" and v: "valid_utf8 (drop ?n ?s)" using 2(2) by (simp_all add: valid_utf8.simps(2))
  have l: "?n \<le> length ?s" using ok by (rule utf8_chunk_length)
  have "utf8_chunk (take ?n ?s) = (?n, True)" using utf8_chunk_take [OF ok] .
  with l have "is_chunk (take ?n ?s)" using utf8_chunk_pos_Cons [of b bs] by (auto simp: is_chunk_def min_def)
  from assms(3) [OF this v 2(1) [OF v]] show ?case by simp
qed (rule assms(2))

lemma valid_utf8_cases [consumes 1, case_names Nil char]:
  assumes "valid_utf8 s"
  obtains "s = []" | c r where "s = c @ r" "is_chunk c" "valid_utf8 r"
  using assms by (induction rule: valid_utf8_induct) blast+

lemma debug_body_chunk: "is_chunk c \<Longrightarrow> debug_body shown (c @ r) = escape_debug shown c @ debug_body shown r"
proof -
  assume c: "is_chunk c"
  then obtain a cs where "c = a # cs" by (cases c) (auto simp: is_chunk_def)
  with utf8_chunk_append [OF c, of r] show ?thesis by (simp add: debug_body.simps(2))
qed

section \<open>Escapes\<close>

lemma hex_of_code: "CHR ''}'' \<notin> set (show_base 16 n)"
  using show_base_addr_chars [of 16 "CHR ''}''" n] by (auto simp: addr_char_def digit_value_def)

lemma show_hex_inject: "show_base 16 m = show_base 16 n \<Longrightarrow> m = n"
  using show_base_digits [of 16] by metis

lemma at_separator:
  assumes "a @ x # r = b @ x # r'" and "x \<notin> set a" and "x \<notin> set b"
  shows "a = b \<and> r = r'"
  using assms by (induction a arbitrary: b) (auto simp: Cons_eq_append_conv)

definition escape_tail :: "nat \<Rightarrow> string" where
  "escape_tail c =
     (if c = 0 then ''0'' else if c = 0x09 then ''t'' else if c = 0x0D then ''r'' else if c = 0x0A then ''n''
      else if c = 0x5C then [CHR 0x5C] else if c = 0x22 then [CHR 0x22] else ''u{'' @ show_base 16 c @ ''}'')"

lemma escape_tail_unique: "escape_tail m @ r = escape_tail n @ r' \<Longrightarrow> m = n \<and> r = r'"
  using at_separator [OF _ hex_of_code hex_of_code, of m r n r'] show_hex_inject [of m n]
  by (auto simp: escape_tail_def split: if_splits)

lemma text_of_bytes_Cons: "text_of_bytes (b # bs) = char_of_byte b # text_of_bytes bs"
  by (simp add: text_of_bytes_def)

text \<open>A character stands for itself, and then it is neither quote nor backslash, or for its tail after a
  backslash.\<close>

lemma char_of_byte_eq: "char_of_byte a = CHR 0x5C \<longleftrightarrow> a = 0x5C" "char_of_byte a = CHR 0x22 \<longleftrightarrow> a = 0x22"
proof -
  have "char_of_byte a = c \<longleftrightarrow> a = byte_of_char c" for c by auto
  then show "char_of_byte a = CHR 0x5C \<longleftrightarrow> a = 0x5C" "char_of_byte a = CHR 0x22 \<longleftrightarrow> a = 0x22"
    by (simp_all add: byte_of_char_def)
qed

lemma escape_debug_forms:
  assumes "is_chunk c"
  obtains a cs where "c = a # cs" "escape_debug shown c = text_of_bytes c" "a \<noteq> 0x5C" "a \<noteq> 0x22"
    | "escape_debug shown c = CHR 0x5C # escape_tail (code_point c)"
proof -
  obtain a cs where c: "c = a # cs" using assms by (cases c) (auto simp: is_chunk_def)
  have "a \<noteq> 0x5C \<and> a \<noteq> 0x22" if "code_point c \<noteq> 0x5C" "code_point c \<noteq> 0x22"
    using assms that by (auto elim!: chunk_cases simp: c)
  moreover have "escape_debug shown c = text_of_bytes c \<and> code_point c \<noteq> 0x5C \<and> code_point c \<noteq> 0x22 \<or>
      escape_debug shown c = CHR 0x5C # escape_tail (code_point c)"
    by (simp add: escape_debug_def escape_tail_def backslash_def Let_def)
  ultimately show thesis using that(1) [OF c] that(2) by blast
qed

lemma chunk_text_unique:
  assumes "is_chunk c" and "is_chunk d" and "text_of_bytes c @ r = text_of_bytes d @ r'"
  shows "c = d \<and> r = r'"
proof -
  have eq: "c @ as_bytes r = d @ as_bytes r'" using arg_cong [OF assms(3), of as_bytes] by simp
  then have "length c = length d" using utf8_chunk_append [OF assms(1)] utf8_chunk_append [OF assms(2)] by (metis prod.inject)
  with eq show ?thesis by simp
qed

text \<open>No escape ends early: from the text after a character's escape one can tell both.\<close>

lemma escape_debug_unique:
  assumes c: "is_chunk c" and d: "is_chunk d" and eq: "escape_debug shown c @ r = escape_debug shown d @ r'"
  shows "c = d \<and> r = r'"
proof (rule escape_debug_forms [OF c, of shown]; rule escape_debug_forms [OF d, of shown])
  assume "escape_debug shown c = CHR 0x5C # escape_tail (code_point c)"
    "escape_debug shown d = CHR 0x5C # escape_tail (code_point d)"
  with eq escape_tail_unique [of "code_point c" r "code_point d" r'] code_point_inj [OF c d] show ?thesis by auto
next
  assume "escape_debug shown c = text_of_bytes c" "escape_debug shown d = text_of_bytes d"
  with eq chunk_text_unique [OF c d] show ?thesis by simp
qed (use eq in \<open>auto simp: text_of_bytes_Cons char_of_byte_eq char_of_byte_eq [THEN eq_iff_swap]\<close>)

lemma escape_debug_no_quote: "is_chunk c \<Longrightarrow> \<exists>x t. escape_debug shown c = x # t \<and> x \<noteq> CHR 0x22"
  by (erule escape_debug_forms [of _ shown]) (auto simp: text_of_bytes_Cons char_of_byte_eq)

text \<open>Nothing in the text ends the quotation.\<close>

lemma debug_body_unique:
  assumes "valid_utf8 s" and "valid_utf8 t"
    and "debug_body shown s @ CHR 0x22 # r = debug_body shown t @ CHR 0x22 # r'"
  shows "s = t \<and> r = r'"
  using assms
proof (induction s arbitrary: t rule: valid_utf8_induct)
  case Nil
  then show ?case
  proof (cases t rule: valid_utf8_cases)
    case (char d u)
    with Nil(2) escape_debug_no_quote [of d shown] show ?thesis by (auto simp: debug_body_chunk)
  qed simp
next
  case (char c s)
  note eq = char.prems(2)
  from char.prems(1) show ?case
  proof (cases t rule: valid_utf8_cases)
    case Nil
    with eq char(1) escape_debug_no_quote [of c shown] show ?thesis by (auto simp: debug_body_chunk)
  next
    case (char d u)
    with eq escape_debug_unique [OF \<open>is_chunk c\<close> char(2)] \<open>is_chunk c\<close>
    have "c = d" "debug_body shown s @ CHR 0x22 # r = debug_body shown u @ CHR 0x22 # r'" by (auto simp: debug_body_chunk)
    with char char.IH show ?thesis by auto
  qed
qed

section \<open>Lines\<close>

lemma to_hex_digits: "set (to_hex bs) \<subseteq> set ''0123456789abcdef''"
proof -
  have d: "hex_digit x \<in> set ''0123456789abcdef''" if "unat x < 16" for x
    unfolding hex_digit_def using that by (intro nth_mem) simp
  have "unat (b div 16) < 16" "unat (b mod 16) < 16" for b :: u8
    using unat_u8_less [of b] by (simp_all add: unat_div unat_mod)
  then show ?thesis using d by (auto simp: to_hex_def hex2_def)
qed

lemma hex_no_space: "CHR '' '' \<notin> set (to_hex bs)"
  using to_hex_digits [of bs] by auto

lemma digits_no_space: "b = 10 \<or> b = 16 \<Longrightarrow> CHR '' '' \<notin> set (show_base b n)"
  using show_base_addr_chars [of b "CHR '' ''" n] by (auto simp: addr_char_def digit_value_def)

lemma addr_no_space: "CHR '' '' \<notin> set (show_socket_addr a)"
proof -
  have "CHR '' '' \<notin> set (show_ip ip)" for ip
    using show_ip_addr_chars [of "CHR '' ''" ip] by (auto simp: addr_char_def digit_value_def)
  from this [of "V4 _"] this [of "V6 _"] digits_no_space [of 10] show ?thesis
    by (cases a) (auto simp: show_nat_def)
qed

lemma log_sig_event_unique:
  assumes "snd (log_sig_event shown kind ok addr source detail) = snd (log_sig_event shown kind' ok' addr' source' detail')"
    and "valid_text (id_human_name source)" and "valid_text (id_human_name source')"
    and "CHR '' '' \<notin> set kind" and "CHR '' '' \<notin> set kind'"
  shows "kind = kind' \<and> ok = ok' \<and> show_socket_addr addr = show_socket_addr addr' \<and>
    id_public_key source = id_public_key source' \<and> id_human_name source = id_human_name source' \<and> detail = detail'"
proof -
  let ?v = "\<lambda>ok. if ok then ''GOOD'' else ''BAD''"
  let ?name = "\<lambda>s d. ''name='' @ CHR 0x22 # debug_body shown (as_bytes (id_human_name s)) @ CHR 0x22 # d"
  let ?key = "\<lambda>s d. to_hex (id_public_key s) @ CHR '' '' # ?name s d"
  let ?short = "\<lambda>s d. short_id (id_public_key s) @ CHR '' '' # ''pubkey='' @ ?key s d"
  let ?addr = "\<lambda>a s d. show_socket_addr a @ CHR '' '' # ''short='' @ ?short s d"
  let ?kind = "\<lambda>k a s d. k @ CHR '' '' # ''addr='' @ ?addr a s d"
  have v: "CHR '' '' \<notin> set (?v b)" for b by simp
  have "?v ok @ CHR '' '' # ''kind='' @ ?kind kind addr source detail =
      ?v ok' @ CHR '' '' # ''kind='' @ ?kind kind' addr' source' detail'"
    using assms(1) by (simp add: log_sig_event_def debug_str_def Let_def)
  from at_separator [OF this v v] have "?v ok = ?v ok'" and
    "?kind kind addr source detail = ?kind kind' addr' source' detail'" by simp_all
  from this(1) at_separator [OF this(2) assms(4,5)] have 1: "ok = ok'" "kind = kind'"
    and "?addr addr source detail = ?addr addr' source' detail'" by (simp_all split: if_splits)
  from at_separator [OF this(3) addr_no_space addr_no_space]
  have 2: "show_socket_addr addr = show_socket_addr addr'" and "?short source detail = ?short source' detail'" by simp_all
  have s: "CHR '' '' \<notin> set (short_id k)" for k by (simp add: short_id_def hex_no_space)
  from at_separator [OF \<open>?short source detail = ?short source' detail'\<close> s s]
  have "?key source detail = ?key source' detail'" by simp
  from at_separator [OF this hex_no_space hex_no_space]
  have 3: "id_public_key source = id_public_key source'" and "?name source detail = ?name source' detail'"
    by (simp_all add: to_hex_inj)
  from this(2) debug_body_unique [of "as_bytes (id_human_name source)" "as_bytes (id_human_name source')" shown detail detail']
    assms(2,3) 1 2 3 show ?thesis by (simp add: valid_text_def)
qed

text \<open>No control character gets into a line.\<close>

definition visible :: "string \<Rightarrow> bool" where
  "visible s \<longleftrightarrow> (\<forall>c \<in> set s. 0x20 \<le> (of_char c :: nat))"

lemma visible_simps [simp]:
  "visible []" "visible (c # s) \<longleftrightarrow> 0x20 \<le> (of_char c :: nat) \<and> visible s" "visible (s @ t) \<longleftrightarrow> visible s \<and> visible t"
  by (auto simp: visible_def)

lemma visible_addr_chars: "(\<And>c. c \<in> set s \<Longrightarrow> addr_char c) \<Longrightarrow> visible s"
  unfolding visible_def
proof
  fix c assume "\<And>c. c \<in> set s \<Longrightarrow> addr_char c" and "c \<in> set s"
  then have "addr_char c" by blast
  then show "0x20 \<le> (of_char c :: nat)"
    by (auto simp: addr_char_def digit_value_def Let_def split: if_splits)
qed

lemma visible_to_hex: "visible (to_hex bs)"
  using to_hex_digits [of bs] by (fastforce simp: visible_def)

lemma visible_chunk: "is_chunk c \<Longrightarrow> 0x20 \<le> code_point c \<Longrightarrow> visible (text_of_bytes c)"
  by (erule chunk_cases) (simp_all add: text_of_bytes_def char_of_byte_def of_char_of unat_u8_less)

lemma visible_debug: "valid_utf8 s \<Longrightarrow> visible (debug_body shown s)"
proof (induction s rule: valid_utf8_induct)
  case (char c r)
  have "visible (show_base 16 (code_point c))"
    by (rule visible_addr_chars) (rule show_base_addr_chars [of 16], simp_all)
  with char visible_chunk [of c] show ?case
    by (simp add: debug_body_chunk escape_debug_def backslash_def is_plain_def Let_def)
qed simp

lemma visible_socket_addr: "visible (show_socket_addr a)"
proof -
  have i: "visible (show_ip ip)" for ip by (rule visible_addr_chars) (rule show_ip_addr_chars)
  have n: "visible (show_nat n)" for n
    unfolding show_nat_def by (rule visible_addr_chars) (rule show_base_addr_chars [of 10], simp_all)
  show ?thesis using i [of "V4 _"] i [of "V6 _"] n by (cases a) auto
qed

lemma visible_line:
  "valid_text (id_human_name source) \<Longrightarrow> visible kind \<Longrightarrow> visible detail \<Longrightarrow>
   visible (snd (log_sig_event shown kind ok addr source detail))"
  by (simp add: log_sig_event_def debug_str_def short_id_def visible_to_hex visible_socket_addr visible_debug valid_text_def Let_def)

section \<open>Properties\<close>

text \<open>Whose message it is and, for a request, the name of the program.\<close>

fun audit_subject :: "network_message \<Rightarrow> (identity_data \<times> string option) option" where
  "audit_subject (ExecuteRequest program) = Some (pd_source program, Some (pd_human_name program))"
| "audit_subject (SignedFabricMessage source id_bytes cbor_data signature) = Some (source, None)"
| "audit_subject _ = None"

fun signatures_good :: "crypto \<Rightarrow> network_message \<Rightarrow> bool" where
  "signatures_good cr (ExecuteRequest program) \<longleftrightarrow> check_self_signature cr (pd_source program) = Inr ()"
| "signatures_good cr (SignedFabricMessage source id_bytes cbor_data signature) \<longleftrightarrow>
     check_self_signature cr source = Inr () \<and> verify_payload cr source id_bytes cbor_data signature = Inr ()"
| "signatures_good cr _ \<longleftrightarrow> False"

definition audit_kind :: "string option \<Rightarrow> string" where
  "audit_kind program = (case program of Some _ \<Rightarrow> ''execute-req'' | None \<Rightarrow> ''fabric-msg'')"

definition audit_detail :: "(nat \<Rightarrow> bool) \<Rightarrow> string option \<Rightarrow> string \<Rightarrow> string" where
  "audit_detail shown program rest =
     (case program of Some n \<Rightarrow> '' program='' @ debug_str shown n @ rest | None \<Rightarrow> rest)"

lemma audit_form:
  assumes "audit_subject msg = Some (i, program)" and "\<And>e. visible (err e)"
  obtains rest where "visible rest"
    "audit shown err cr addr msg =
       Some (log_sig_event shown (audit_kind program) (signatures_good cr msg) addr i (audit_detail shown program rest))"
proof (cases msg)
  case (ExecuteRequest p)
  show thesis
  proof (cases "check_self_signature cr (pd_source p)")
    case (Inl e)
    with ExecuteRequest assms show thesis
      by (intro that [of "'' error=bad-identity-sig detail='' @ err e"])
        (auto simp: audit_defs audit_kind_def audit_detail_def)
  next
    case (Inr u)
    with ExecuteRequest assms show thesis
      by (intro that [of "[]"]) (auto simp: audit_defs audit_kind_def audit_detail_def)
  qed
next
  case (SignedFabricMessage source id_bytes d signature)
  note msg = this
  show thesis
  proof (cases "check_self_signature cr source")
    case (Inl e)
    with msg assms show thesis
      by (intro that [of "'' error=bad-identity-sig detail='' @ err e"])
        (auto simp: audit_defs audit_kind_def audit_detail_def)
  next
    case self: (Inr u)
    show thesis
    proof (cases "verify_payload cr source id_bytes d signature")
      case (Inl e)
      with msg self assms show thesis
        by (intro that [of "'' error=bad-payload-sig detail='' @ err e"])
          (auto simp: audit_defs audit_kind_def audit_detail_def)
    next
      case (Inr v)
      with msg self assms show thesis
        by (intro that [of "[]"]) (auto simp: audit_defs audit_kind_def audit_detail_def)
    qed
  qed
qed (use assms in auto)

text \<open>The receive loop writes one such line for each of these messages, with this verdict, whatever
  becomes of the message.\<close>

fun is_log :: "serve_out \<Rightarrow> bool" where
  "is_log (LogSig kind ok addr source) = True"
| "is_log _ = False"

lemma option_out_no_log [simp]: "List.filter is_log (option_out addr enc) = []"
  by (simp add: option_out_def split: option.splits)

lemma datagram_audited:
  assumes "ba_from_slice (ck_bare (sv_crates env)) buf = Some msg" and "audit_subject msg = Some (i, program)"
    and "handle_datagram env buf addr ex = (l, ex', out)"
  shows "List.filter is_log out = [LogSig (audit_kind program) (signatures_good (ck_crypto (sv_crates env)) msg) addr i]"
proof (cases msg)
  case (ExecuteRequest p)
  with assms(2) have i: "i = pd_source p" "audit_kind program = ''execute-req''" by (auto simp: audit_kind_def)
  have b: "check_self_signature_b (ck_crypto (sv_crates env)) (pd_source p) =
      signatures_good (ck_crypto (sv_crates env)) msg"
    using ExecuteRequest by (simp add: check_self_signature_b_def split: sum.splits)
  have "handle_execute_request env addr p ex = (l, ex', out)"
    using assms(1,3) ExecuteRequest by (simp add: handle_datagram_def)
  then show ?thesis unfolding i b [symmetric]
    by (auto simp: handle_execute_request_def Let_def split: prod.splits sum.splits option.splits if_splits)
next
  case (SignedFabricMessage source id_bytes d signature)
  with assms show ?thesis
    by (auto simp: handle_datagram_def fabric_message_cases audit_kind_def split: if_splits)
qed (use assms(2) in simp_all)

definition texts_valid :: "identity_data \<Rightarrow> string option \<Rightarrow> bool" where
  "texts_valid i program \<longleftrightarrow> valid_text (id_human_name i) \<and> (case program of Some n \<Rightarrow> valid_text n | None \<Rightarrow> True)"


text \<open>A name that tries to close its quotation and to begin a line of its own.\<close>

definition imitation :: string where
  "imitation = ''eve'' @ [CHR 0x22, CHR 0x0A] @ ''[security] sig=GOOD''"


end
