(* ===== verification/Exchange.thy ===== *)
theory Exchange
  imports Commands
begin

text \<open>
  The exchanges of \<open>run\<close> as wholes (\<open>send_to_local_daemon\<close>, \<open>run_one_peer\<close> and \<open>run_one_iface\<close> in
  \<open>src/command/run.rs\<close>): the socket, the request, the window in which replies are printed, and every
  error in between; and the command's main part on top of them, with its one task for each peer and
  for each interface and group. \<open>Client.run_sends\<close> says what is sent; here is also when the
  command returns and with what.
\<close>

section \<open>One exchange\<close>

text \<open>What the environment answers to one task: its socket calls, the sending, each poll.\<close>

record exchange_env =
  xc_bare :: bare_codec
  xc_op_ok :: sender_env
  xc_send_ok :: bool
  xc_polls :: "nat \<Rightarrow> poll"

datatype exchange_error = NoAddress | SocketError | SendError

type_synonym exchange = "exchange_error + transmit \<times> client_line list"

text \<open>\<open>None\<close>: the exchange does not end.\<close>

definition exchange ::
  "exchange_env \<Rightarrow> (sender_op \<times> bool) list \<Rightarrow> transmit \<Rightarrow>
   (bare_codec \<Rightarrow> (nat \<Rightarrow> poll) \<Rightarrow> (nat \<times> client_line list) option) \<Rightarrow> exchange option" where
  "exchange x ops sent await =
     (if \<not> usable (xc_op_ok x) ops then Some (Inl SocketError)
      else if \<not> xc_send_ok x then Some (Inl SendError)
      else map_option (\<lambda>(n, printed). Inr (sent, printed)) (await (xc_bare x) (xc_polls x)))"

definition empty_bind :: "bool \<Rightarrow> (sender_op \<times> bool) list" where
  "empty_bind v4 = [(Common (BindTo (if v4 then V4 0 else V6 0) 0), True)]"

definition send_to_local_daemon :: "exchange_env \<Rightarrow> bytes \<Rightarrow> u16 \<Rightarrow> exchange option" where
  "send_to_local_daemon x ex_req_bytes port =
     exchange x (empty_bind True) (Routed, SockV4 0x7F000001 port, ex_req_bytes) read_daemon_replies"

definition run_one_peer ::
  "exchange_env \<Rightarrow> (string \<Rightarrow> u16 \<Rightarrow> socket_addr list option) \<Rightarrow> bytes \<Rightarrow> peer_metadata \<Rightarrow> u16 \<Rightarrow> exchange option" where
  "run_one_peer x lookup_host ex_req_bytes peer port =
     (case resolve_peer_addr lookup_host (connect_hosts peer) port of
        None \<Rightarrow> Some (Inl NoAddress)
      | Some target \<Rightarrow>
          exchange x (empty_bind (is_ipv4 (sock_ip target))) (Routed, target, ex_req_bytes) read_daemon_replies)"

definition run_one_iface :: "exchange_env \<Rightarrow> bytes \<Rightarrow> interface \<Rightarrow> ip_addr \<Rightarrow> u16 \<Rightarrow> exchange option" where
  "run_one_iface x ex_req_bytes iface multicast_group port =
     exchange x (run_one_iface_socket multicast_group iface)
       (Routed, sock_of multicast_group port, ex_req_bytes) await_group_replies"

section \<open>All exchanges of a command\<close>

datatype exchange_task = ToDaemon | ToPeer peer_metadata | ToGroup interface ip_addr

definition fabric_tasks :: "peer_metadata list \<Rightarrow> interface list \<Rightarrow> ip_addr list \<Rightarrow> exchange_task list" where
  "fabric_tasks peers interfaces multicast_groups =
     map ToPeer peers @
     concat (map (\<lambda>iface. concat (map (\<lambda>multicast_addr.
       if length (snd (snd iface)) < 1 then [] else [ToGroup iface multicast_addr]) multicast_groups)) interfaces)"

fun run_task :: "(exchange_task \<Rightarrow> exchange_env) \<Rightarrow> (string \<Rightarrow> u16 \<Rightarrow> socket_addr list option) \<Rightarrow> bytes \<Rightarrow> u16 \<Rightarrow> exchange_task \<Rightarrow> exchange option" where
  "run_task x lookup_host msg port ToDaemon = send_to_local_daemon (x ToDaemon) msg port"
| "run_task x lookup_host msg port (ToPeer peer) = run_one_peer (x (ToPeer peer)) lookup_host msg peer port"
| "run_task x lookup_host msg port (ToGroup iface addr) = run_one_iface (x (ToGroup iface addr)) msg iface addr port"

text \<open>\<open>join_all\<close> waits for every task; the error of a task is logged and goes no further. To the local
  daemon there is one exchange, whose error is the command's.\<close>

definition run_exchanges ::
  "(exchange_task \<Rightarrow> exchange_env) \<Rightarrow> (string \<Rightarrow> u16 \<Rightarrow> socket_addr list option) \<Rightarrow> interface list \<Rightarrow> bytes \<Rightarrow> bool \<Rightarrow>
   ip_addr list \<Rightarrow> u16 \<Rightarrow> peer_metadata list \<Rightarrow> (exchange_error + exchange list) option" where
  "run_exchanges x lookup_host interfaces msg fabric multicast_groups port peers =
     (if \<not> fabric
      then map_option (\<lambda>r. case r of Inl e \<Rightarrow> Inl e | Inr sent \<Rightarrow> Inr [Inr sent]) (run_task x lookup_host msg port ToDaemon)
      else map_option Inr (those (map (run_task x lookup_host msg port) (fabric_tasks peers interfaces multicast_groups))))"

section \<open>Lemmas\<close>

text \<open>What a task sends, when its calls succeed, and the buffer it waits with.\<close>

fun task_sends :: "(exchange_task \<Rightarrow> exchange_env) \<Rightarrow> (string \<Rightarrow> u16 \<Rightarrow> socket_addr list option) \<Rightarrow> bytes \<Rightarrow> u16 \<Rightarrow> exchange_task \<Rightarrow> transmit option" where
  "task_sends x lookup_host msg port ToDaemon =
     (if usable (xc_op_ok (x ToDaemon)) (empty_bind True) \<and> xc_send_ok (x ToDaemon)
      then Some (Routed, SockV4 0x7F000001 port, msg) else None)"
| "task_sends x lookup_host msg port (ToPeer peer) =
     (case resolve_peer_addr lookup_host (connect_hosts peer) port of
        None \<Rightarrow> None
      | Some target \<Rightarrow>
          if usable (xc_op_ok (x (ToPeer peer))) (empty_bind (is_ipv4 (sock_ip target))) \<and> xc_send_ok (x (ToPeer peer))
          then Some (Routed, target, msg) else None)"
| "task_sends x lookup_host msg port (ToGroup iface addr) =
     (if usable (xc_op_ok (x (ToGroup iface addr))) (run_one_iface_socket addr iface) \<and> xc_send_ok (x (ToGroup iface addr))
      then Some (Routed, sock_of addr port, msg) else None)"

fun reply_buffer :: "exchange_task \<Rightarrow> nat" where
  "reply_buffer (ToGroup iface addr) = 65536"
| "reply_buffer _ = 16384"

abbreviation task_window :: "(exchange_task \<Rightarrow> exchange_env) \<Rightarrow> exchange_task \<Rightarrow> nat \<Rightarrow> bool" where
  "task_window x t \<equiv> window_closes (xc_bare (x t)) (reply_buffer t) (xc_polls (x t))"

lemma poll_ends: "poll_replies ba b evs 0 24 [] \<noteq> None \<longleftrightarrow> (\<exists>n. window_closes ba b evs n)"
proof -
  have "poll_replies ba b evs 0 24 [] \<noteq> None \<longleftrightarrow> (\<exists>k out. poll_replies ba b evs 0 24 [] = Some (k, out))" by auto
  also have "\<dots> \<longleftrightarrow> (\<exists>n. n = 24 + 10 * replies ba b evs 0 n \<and> (\<forall>m < n. m \<noteq> 24 + 10 * replies ba b evs 0 m))"
    unfolding poll_replies_iff by blast
  also have "\<dots> \<longleftrightarrow> (\<exists>n. window_closes ba b evs n)"
    by (simp add: window_closes_def list_all_iff atLeast0LessThan Ball_def)
  finally show ?thesis .
qed

lemma run_task_cases:
  "run_task x lookup_host msg port t =
     (case task_sends x lookup_host msg port t of
        None \<Rightarrow> Some (Inl (case t of ToPeer peer \<Rightarrow>
             (case resolve_peer_addr lookup_host (connect_hosts peer) port of None \<Rightarrow> NoAddress
              | Some target \<Rightarrow> if usable (xc_op_ok (x t)) (empty_bind (is_ipv4 (sock_ip target))) then SendError else SocketError)
           | ToDaemon \<Rightarrow> if usable (xc_op_ok (x t)) (empty_bind True) then SendError else SocketError
           | ToGroup iface addr \<Rightarrow> if usable (xc_op_ok (x t)) (run_one_iface_socket addr iface) then SendError else SocketError))
      | Some sent \<Rightarrow> map_option (\<lambda>(n, printed). Inr (sent, printed))
          (poll_replies (xc_bare (x t)) (reply_buffer t) (xc_polls (x t)) 0 24 []))"
  by (cases t) (auto simp: send_to_local_daemon_def run_one_peer_def run_one_iface_def exchange_def
      read_daemon_replies_def await_group_replies_def split: option.splits)

lemma run_task_ends:
  "run_task x lookup_host msg port t \<noteq> None \<longleftrightarrow>
     (task_sends x lookup_host msg port t \<noteq> None \<longrightarrow> (\<exists>n. task_window x t n))"
  using poll_ends [of "xc_bare (x t)" "reply_buffer t" "xc_polls (x t)"]
  by (cases "task_sends x lookup_host msg port t") (simp_all add: run_task_cases)

lemma run_task_sent:
  "run_task x lookup_host msg port t = Some r \<Longrightarrow>
     (case r of Inl e \<Rightarrow> None | Inr (sent, printed) \<Rightarrow> Some sent) = task_sends x lookup_host msg port t"
  unfolding run_task_cases by (auto split: option.splits)

lemma those_Some: "those xs = Some ys \<longleftrightarrow> xs = map Some ys"
  by (induction xs arbitrary: ys) (auto split: option.splits)

lemma those_None: "those xs = None \<longleftrightarrow> None \<in> set xs"
  by (induction xs) (auto split: option.splits)

definition sent_by :: "exchange list \<Rightarrow> transmit list" where
  "sent_by rs = List.map_filter (\<lambda>r. case r of Inl e \<Rightarrow> None | Inr (sent, printed) \<Rightarrow> Some sent) rs"

lemma sent_by_tasks:
  "map (run_task x lookup_host msg port) ts = map Some rs \<Longrightarrow>
     sent_by rs = List.map_filter (task_sends x lookup_host msg port) ts"
proof (induction ts arbitrary: rs)
  case (Cons t ts)
  then obtain r rs' where "rs = r # rs'" by (cases rs) auto
  with Cons run_task_sent [of x lookup_host msg port t r] show ?case
    by (cases r) (auto simp: sent_by_def map_filter_Cons split: option.splits)
qed (simp add: sent_by_def map_filter_Nil)

text \<open>The environment of \<open>Client\<close> that answers as the tasks' do.\<close>

definition agrees :: "client_env \<Rightarrow> (exchange_task \<Rightarrow> exchange_env) \<Rightarrow> ip_addr list \<Rightarrow> peer_metadata list \<Rightarrow> bool" where
  "agrees env x multicast_groups peers \<longleftrightarrow>
     (\<forall>peer \<in> set peers. \<forall>v4. cl_bind_ok env v4 \<longleftrightarrow> usable (xc_op_ok (x (ToPeer peer))) (empty_bind v4) \<and> xc_send_ok (x (ToPeer peer))) \<and>
     (\<forall>iface \<in> set (cl_interfaces env). \<forall>g \<in> set multicast_groups. cl_sender_ok env g (fst iface) \<longleftrightarrow>
        usable (xc_op_ok (x (ToGroup iface g))) (run_one_iface_socket g iface) \<and> xc_send_ok (x (ToGroup iface g)))"

lemma map_filter_cong_set: "(\<And>x. x \<in> set xs \<Longrightarrow> f x = g x) \<Longrightarrow> List.map_filter f xs = List.map_filter g xs"
proof (induction xs)
  case (Cons a xs)
  then have "f a = g a" by simp
  with Cons show ?case by (simp add: map_filter_Cons split: option.split)
qed (simp add: map_filter_Nil)

lemma map_filter_concat: "List.map_filter f (concat xss) = concat (map (List.map_filter f) xss)"
  by (induction xss) (simp_all add: map_filter_append map_filter_Nil)

lemma map_filter_map: "List.map_filter f (map g xs) = List.map_filter (f \<circ> g) xs"
  by (simp add: List.map_filter_def comp_def filter_map)

lemma fabric_tasks_send:
  assumes "agrees env x multicast_groups peers"
  shows "List.map_filter (task_sends x (cl_lookup_host env) msg port) (fabric_tasks peers (cl_interfaces env) multicast_groups) =
    run_sends env msg True multicast_groups port peers"
proof -
  let ?s = "task_sends x (cl_lookup_host env) msg port"
  have p: "List.map_filter (\<lambda>peer. ?s (ToPeer peer)) peers = peer_sends env msg port peers"
    unfolding peer_sends_def using assms
    by (intro map_filter_cong_set) (auto simp: agrees_def split: option.splits)
  have g: "concat (map (\<lambda>g. List.map_filter ?s (if length (snd (snd iface)) < 1 then [] else [ToGroup iface g])) gs) =
      (case iface of (idx, name, addrs) \<Rightarrow> if addrs = [] then [] else List.map_filter (\<lambda>g.
         if cl_sender_ok env g idx then Some (Routed, sock_of g port, msg) else None) gs)"
    if "iface \<in> set (cl_interfaces env)" "set gs \<subseteq> set multicast_groups" for iface gs
    using that
  proof (induction gs)
    case (Cons g gs)
    then have "cl_sender_ok env g (fst iface) \<longleftrightarrow>
        usable (xc_op_ok (x (ToGroup iface g))) (run_one_iface_socket g iface) \<and> xc_send_ok (x (ToGroup iface g))"
      using assms by (simp add: agrees_def)
    with Cons show ?case by (cases iface) (auto simp: map_filter_Cons map_filter_Nil)
  qed (auto simp: map_filter_Nil split: prod.splits)
  have "concat (map (\<lambda>iface. concat (map (\<lambda>g. List.map_filter ?s (if length (snd (snd iface)) < 1 then [] else [ToGroup iface g]))
        multicast_groups)) (cl_interfaces env)) =
      concat (map (\<lambda>(idx, name, addrs). if addrs = [] then [] else List.map_filter (\<lambda>g.
         if cl_sender_ok env g idx then Some (Routed, sock_of g port, msg) else None) multicast_groups) (cl_interfaces env))"
    by (intro arg_cong [where f = concat] map_cong refl) (rule g, simp_all)
  then show ?thesis
    unfolding fabric_tasks_def run_sends_def
    by (simp add: map_filter_append map_filter_map p map_filter_concat comp_def del: task_sends.simps)
qed

section \<open>Properties\<close>

text \<open>What the exchanges of a \<open>run\<close> send is what \<open>run_sends\<close> says: whenever the command gets to its end,
  the requests that left, in the order of its tasks, are those of \<open>Client\<close> with the same addresses
  and the same answers of the sockets.\<close>

theorem exchanges_send_run_sends:
  assumes "agrees env x multicast_groups peers"
    and "run_exchanges x (cl_lookup_host env) (cl_interfaces env) msg fabric multicast_groups port peers = Some (Inr rs)"
  shows "sent_by rs = run_sends env msg fabric multicast_groups port peers"
proof (cases fabric)
  case True
  with assms(2) have "map (run_task x (cl_lookup_host env) msg port) (fabric_tasks peers (cl_interfaces env) multicast_groups) = map Some rs"
    by (auto simp: run_exchanges_def those_Some)
  from sent_by_tasks [OF this] fabric_tasks_send [OF assms(1)] True show ?thesis by simp
next
  case False
  then obtain r where "run_task x (cl_lookup_host env) msg port ToDaemon = Some r"
    and "(case r of Inl e \<Rightarrow> Inl e | Inr sent \<Rightarrow> Inr [Inr sent]) = (Inr rs :: exchange_error + exchange list)"
    using assms(2) by (auto simp: run_exchanges_def simp del: run_task.simps)
  then obtain sent where "run_task x (cl_lookup_host env) msg port ToDaemon = Some (Inr sent)" "rs = [Inr sent]"
    by (cases r) simp_all
  with run_task_sent [OF this(1)] False show ?thesis
    by (auto simp: sent_by_def map_filter_Cons map_filter_Nil run_sends_def split: prod.splits if_splits)
qed

text \<open>C30: how \<open>run\<close> ends. It never ends exactly when one of its exchanges has sent its request and is
  answered so that its window never closes: a single talkative node holds up the whole command. To the local
  daemon it fails exactly when the request could not be sent; with \<open>--fabric\<close> it never fails, even
  if not one request left the machine.\<close>

theorem run_end_exact:
  "(run_exchanges x lookup_host interfaces msg fabric multicast_groups port peers = None \<longleftrightarrow>
     (\<exists>t. t \<in> set (if fabric then fabric_tasks peers interfaces multicast_groups else [ToDaemon]) \<and>
        task_sends x lookup_host msg port t \<noteq> None \<and> (\<nexists>n. task_window x t n))) \<and>
   ((\<exists>e. run_exchanges x lookup_host interfaces msg fabric multicast_groups port peers = Some (Inl e)) \<longleftrightarrow>
     \<not> fabric \<and> task_sends x lookup_host msg port ToDaemon = None)"
proof (cases fabric)
  case True
  have "those (map (run_task x lookup_host msg port) ts) = None \<longleftrightarrow>
      (\<exists>t. t \<in> set ts \<and> run_task x lookup_host msg port t = None)" for ts
    unfolding those_None by force
  moreover have "run_task x lookup_host msg port t = None \<longleftrightarrow>
      task_sends x lookup_host msg port t \<noteq> None \<and> (\<nexists>n. task_window x t n)" for t
    using run_task_ends [of x lookup_host msg port t] by blast
  ultimately show ?thesis using True by (simp add: run_exchanges_def del: run_task.simps task_sends.simps)
next
  case False
  then have e: "run_exchanges x lookup_host interfaces msg fabric multicast_groups port peers =
      map_option (\<lambda>r. case r of Inl e \<Rightarrow> Inl e | Inr sent \<Rightarrow> Inr [Inr sent]) (run_task x lookup_host msg port ToDaemon)"
    by (simp add: run_exchanges_def)
  show ?thesis
  proof (cases "run_task x lookup_host msg port ToDaemon")
    case None
    with False e run_task_ends [of x lookup_host msg port ToDaemon] show ?thesis by simp
  next
    case (Some r)
    then have "task_sends x lookup_host msg port ToDaemon = None \<or> (\<exists>n. task_window x ToDaemon n)"
      using run_task_ends [of x lookup_host msg port ToDaemon] by auto
    with False e Some run_task_sent [OF Some, symmetric] show ?thesis
      by (cases r) (auto simp del: run_task.simps task_sends.simps)
  qed
qed

section \<open>A concrete instance\<close>

definition demo_exchange :: exchange_env where
  "demo_exchange = \<lparr>xc_bare = demo_bare (BasicInsecureProgramExit 1 0) [5], xc_op_ok = (\<lambda>_. True), xc_send_ok = True,
     xc_polls = (\<lambda>_. PollTimeout)\<rparr>"

lemma demo_window: "poll_replies (xc_bare demo_exchange) b (xc_polls demo_exchange) 0 24 [] = Some (24, [])"
proof -
  have "replies ba b (\<lambda>_. PollTimeout) 0 n = 0" for ba n by (rule replies_none) (simp add: is_reply_def)
  moreover have "lines_of ba b PollTimeout = []" for ba by (simp add: lines_of_def on_poll_def)
  ultimately show ?thesis by (simp add: poll_replies_iff demo_exchange_def)
qed

lemma demo_usable: "usable (xc_op_ok demo_exchange) ops" "xc_send_ok demo_exchange"
  by (simp_all add: usable_def demo_exchange_def list_all_iff)

theorem exchanges_send_run_sends_witness:
  "\<exists>rs. run_exchanges (\<lambda>_. demo_exchange) (\<lambda>h port. Some [SockV4 1 port]) [(2, ''eth0'', [V4 0x0A000001]), (3, ''down'', [])]
       [7] True [V4 0xE0000003] 2240 [demo_peer 1] = Some (Inr rs) \<and>
     sent_by rs = [(Routed, SockV4 1 2240, [7]), (Routed, SockV4 0xE0000003 2240, [7])]"
proof -
  let ?x = "\<lambda>_ :: exchange_task. demo_exchange"
  let ?env = "(demo_client (demo_bare (BasicInsecureProgramExit 1 0) [5]))
    \<lparr>cl_interfaces := [(2, ''eth0'', [V4 0x0A000001]), (3, ''down'', [])]\<rparr>"
  have a: "agrees ?env ?x [V4 0xE0000003] [demo_peer 1]"
    by (simp add: agrees_def demo_usable demo_client_def)
  have "run_task ?x l [7] 2240 t \<noteq> None" for l t
    unfolding run_task_cases demo_window by (simp split: option.splits)
  then have "those (map (run_task ?x l [7] 2240) ts) \<noteq> None" for l ts
    unfolding those_None set_map image_iff by metis
  then obtain rs where r: "run_exchanges ?x (cl_lookup_host ?env) (cl_interfaces ?env) [7] True [V4 0xE0000003] 2240 [demo_peer 1] = Some (Inr rs)"
    by (auto simp: run_exchanges_def)
  from exchanges_send_run_sends [OF a r] r show ?thesis
    by (simp add: run_sends_def peer_sends_def demo_client_def map_filter_Cons map_filter_Nil demo_peer_def
        connect_hosts_def option_list_def)
qed

end
