(* ===== verification/Spread.thy ===== *)
theory Spread
  imports Discovery_Path Netmap Client
begin

text \<open>
  Discovery across a network of nodes: serving, forwarding and relaying of \<open>src/command/serve.rs\<close>
  and the collection of \<open>src/command/netmap.rs\<close>, composed. A node that receives a request runs the
  program, answers its caller, and forwards the request to its own neighbours; each of their answers it
  relays to its caller. So the answers a caller gets are those of a whole subtree. What a node knows
  and when, and what a relay hears of the answers and when, are functions of the network.
\<close>

section \<open>The network\<close>

text \<open>A node, by the request it receives: its caller's address and the datagram. \<open>st_ex\<close> is the state
  when the datagram arrives, \<open>st_later\<close> the one when the forwarding task runs.\<close>

record station =
  st_serve :: "socket_addr \<Rightarrow> bytes \<Rightarrow> serve_env"
  st_ex :: "socket_addr \<Rightarrow> bytes \<Rightarrow> executor"
  st_later :: "socket_addr \<Rightarrow> bytes \<Rightarrow> executor"
  st_forward :: "socket_addr \<Rightarrow> bytes \<Rightarrow> forward_env"

text \<open>Who listens where; the address of the socket with which a node relays a request for a caller; what
  that socket yields, and when, given the answers sent to it. A socket that cannot be bound or send yields
  nothing.\<close>

record network =
  nw_station :: "socket_addr \<Rightarrow> station option"
  nw_relay :: "socket_addr \<Rightarrow> socket_addr \<Rightarrow> socket_addr \<Rightarrow> bytes \<Rightarrow> socket_addr"
  nw_schedule :: "socket_addr \<Rightarrow> socket_addr \<Rightarrow> socket_addr \<Rightarrow> bytes \<Rightarrow> bytes list \<Rightarrow> (nat \<times> relay_event) list"

section \<open>The answers to a request\<close>

text \<open>What one step of a node sends to its caller, given the answers to the requests it relays. The
  relays run side by side; their answers are listed relay by relay.\<close>

definition answer_to ::
  "network \<Rightarrow> (socket_addr \<Rightarrow> bytes \<Rightarrow> socket_addr \<Rightarrow> bytes list) \<Rightarrow> station \<Rightarrow> socket_addr \<Rightarrow> bytes \<Rightarrow>
   socket_addr \<Rightarrow> serve_out \<Rightarrow> bytes list" where
  "answer_to W answers st caller buf here ev =
     (case ev of
        LogSig kind ok addr source \<Rightarrow> []
      | SendTo b addr \<Rightarrow> (if addr = caller then [b] else [])
      | SpawnForward p fu addr \<Rightarrow>
          concat (map (\<lambda>(sub, sub_bytes, peer).
              relay_loop (fw_bare (st_forward st caller buf)) (pd_request_uuid p)
                (nw_schedule W caller here peer sub_bytes (answers (nw_relay W caller here peer sub_bytes) sub_bytes peer)))
            (discovery_forward (st_forward st caller buf) p fu (st_later st caller buf))))"

text \<open>\<open>spread n W caller buf here\<close>: the datagrams that reach \<open>caller\<close> because the node at \<open>here\<close>
  received \<open>buf\<close> from it, at most \<open>n\<close> nodes deep.\<close>

fun spread :: "nat \<Rightarrow> network \<Rightarrow> socket_addr \<Rightarrow> bytes \<Rightarrow> socket_addr \<Rightarrow> bytes list" where
  "spread 0 W caller buf here = []"
| "spread (Suc n) W caller buf here =
     (case nw_station W here of
        None \<Rightarrow> []
      | Some st \<Rightarrow>
          concat (map (answer_to W (spread n W) st caller buf here)
            (snd (snd (handle_datagram (st_serve st caller buf) buf caller (st_ex st caller buf))))))"

section \<open>Who is asked and what is reported\<close>

text \<open>The run of an accepted program whose exit is awaited: its pid and the state it leaves.\<close>

definition request_run :: "serve_env \<Rightarrow> socket_addr \<Rightarrow> program_data \<Rightarrow> executor \<Rightarrow> (u64 \<times> u32 \<times> host_state) option" where
  "request_run env addr program ex =
     (case begin_exec (ck_crypto (sv_crates env)) (sv_engine env) program
             (exec_options_default\<lparr>eo_node_addr := node_addr_for env addr\<rparr>)
             (note_peer (sv_now env) addr (pd_source program) ex) of
        (ex2, Inl e) \<Rightarrow> None
      | (ex2, Inr sp) \<Rightarrow>
          (case gr_wait (sv_guest env sp) of
             Inl _ \<Rightarrow> None
           | Inr code \<Rightarrow> Some (sp_pid sp, code,
               host_run (sv_crates env) (sp_store sp) (gr_calls (sv_guest env sp)) (guest_init ex2))))"

definition ran :: "network \<Rightarrow> socket_addr \<Rightarrow> bytes \<Rightarrow> socket_addr \<Rightarrow> (program_data \<times> u64 \<times> host_state) option" where
  "ran W caller buf here =
     Option.bind (nw_station W here) (\<lambda>st.
       case ba_from_slice (ck_bare (sv_crates (st_serve st caller buf))) buf of
         Some (ExecuteRequest p) \<Rightarrow>
           map_option (\<lambda>(pid, code, hs). (p, pid, hs)) (request_run (st_serve st caller buf) caller p (st_ex st caller buf))
       | _ \<Rightarrow> None)"

definition forwarded :: "network \<Rightarrow> socket_addr \<Rightarrow> bytes \<Rightarrow> socket_addr \<Rightarrow> (program_data \<times> bytes \<times> socket_addr) list" where
  "forwarded W caller buf here =
     (case (nw_station W here, ran W caller buf here) of
        (Some st, Some (p, pid, hs)) \<Rightarrow>
          if 0 < pd_depth_budget p
          then discovery_forward (st_forward st caller buf) p (hs_forward_uuid hs) (st_later st caller buf)
          else []
      | _ \<Rightarrow> [])"

text \<open>The requests that the first one leads to: who sent which datagram to whom.\<close>

inductive visits :: "network \<Rightarrow> socket_addr \<Rightarrow> bytes \<Rightarrow> socket_addr \<Rightarrow> socket_addr \<Rightarrow> bytes \<Rightarrow> socket_addr \<Rightarrow> bool"
  for W :: network where
  visit_here: "visits W caller buf here caller buf here"
| visit_next: "(sub, sub_bytes, peer) \<in> set (forwarded W caller buf here) \<Longrightarrow>
    visits W (nw_relay W caller here peer sub_bytes) sub_bytes peer caller' buf' there \<Longrightarrow>
    visits W caller buf here caller' buf' there"

definition reports :: "network \<Rightarrow> socket_addr \<Rightarrow> bytes \<Rightarrow> socket_addr \<Rightarrow> u64 \<Rightarrow> bytes \<Rightarrow> bool" where
  "reports W caller buf here pid cbor \<longleftrightarrow>
     (\<exists>p hs. ran W caller buf here = Some (p, pid, hs) \<and> hs_map hs = Some cbor)"

text \<open>One codec in the whole network.\<close>

definition speaks :: "bare_codec \<Rightarrow> network \<Rightarrow> bool" where
  "speaks ba W \<longleftrightarrow> (\<forall>m. bare_round_trips ba m) \<and>
     (\<forall>a st caller buf. nw_station W a = Some st \<longrightarrow>
        ck_bare (sv_crates (st_serve st caller buf)) = ba \<and> fw_bare (st_forward st caller buf) = ba)"

text \<open>The datagrams a relay reads before it stops.\<close>

fun heard :: "(nat \<times> relay_event) list \<Rightarrow> bytes list" where
  "heard [] = []"
| "heard ((elapsed, ev) # evs) =
     (if RELAY_MAX_MS \<le> elapsed then []
      else case ev of Datagram buf \<Rightarrow> buf # heard evs | SocketError \<Rightarrow> [] | QuietTimeout \<Rightarrow> [])"

text \<open>No stranger writes to a relay's socket; every relay hears every answer in its window.\<close>

definition undisturbed :: "network \<Rightarrow> bool" where
  "undisturbed W \<longleftrightarrow> (\<forall>c a b s ds. set (heard (nw_schedule W c a b s ds)) \<subseteq> set ds)"

definition timely :: "network \<Rightarrow> bool" where
  "timely W \<longleftrightarrow> (\<forall>c a b s ds. set (heard (nw_schedule W c a b s ds)) = set ds)"

section \<open>Lemmas\<close>

lemma relay_loop_heard: "relay_loop ba u evs = List.map_filter (relay_datagram ba u) (heard evs)"
  by (induction evs rule: heard.induct)
    (auto simp: map_filter_Nil map_filter_Cons split: relay_event.split option.split)

lemma relay_datagram_map:
  assumes "\<forall>m. bare_round_trips ba m" and "relay_datagram ba u x = Some d"
  shows "ba_from_slice ba d = Some (BasicReturnMap pid v cbor) \<longleftrightarrow>
    v = u \<and> (\<exists>w. ba_from_slice ba x = Some (BasicReturnMap pid w cbor))"
proof -
  obtain m m' where m: "ba_from_slice ba x = Some m" "rewrite_reply u m = Some m'" "ba_to_vec ba m' = Some d"
    using assms(2) by (auto simp: relay_datagram_def bind_eq_Some_conv)
  then have "ba_from_slice ba d = Some m'" using assms(1) by (auto simp: bare_round_trips_def)
  with m show ?thesis by (cases m) auto
qed

text \<open>What a request makes a node send.\<close>

definition report_out :: "serve_env \<Rightarrow> socket_addr \<Rightarrow> program_data \<Rightarrow> executor \<Rightarrow> serve_out list" where
  "report_out env addr p ex =
     (case request_run env addr p ex of
        None \<Rightarrow> []
      | Some (pid, code, hs) \<Rightarrow>
          (case hs_map hs of None \<Rightarrow> [] | Some cbor \<Rightarrow> option_out addr
             (ba_to_vec (ck_bare (sv_crates env)) (BasicReturnMap pid (pd_request_uuid p) cbor))) @
          (if 0 < pd_depth_budget p then [SpawnForward p (hs_forward_uuid hs) addr] else []) @
          (if sv_send_exit_ok env
           then option_out addr (ba_to_vec (ck_bare (sv_crates env)) (BasicInsecureProgramExit pid code)) else []))"

lemma request_out:
  "snd (snd (handle_execute_request env addr p ex)) =
     LogSig ''execute-req'' (check_self_signature_b (ck_crypto (sv_crates env)) (pd_source p)) addr (pd_source p) #
     report_out env addr p ex"
  by (auto simp: handle_execute_request_def report_out_def request_run_def Let_def option_out_def
      split: prod.splits sum.splits option.splits)

lemma visits_hop:
  "visits W caller buf here caller' buf' there \<longleftrightarrow>
     (caller' = caller \<and> buf' = buf \<and> there = here) \<or>
     (\<exists>(sub, sub_bytes, peer) \<in> set (forwarded W caller buf here).
        visits W (nw_relay W caller here peer sub_bytes) sub_bytes peer caller' buf' there)"
  by (subst visits.simps) auto

lemma answer_to_option:
  "(\<exists>x\<in>set (option_out caller e). d \<in> set (answer_to W f st caller buf here x)) \<longleftrightarrow> e = Some d"
  by (cases e) (auto simp: answer_to_def option_out_def)

lemma answer_to_simps [simp]:
  "answer_to W f st caller buf here (LogSig kind ok addr source) = []"
  "concat (map (answer_to W f st caller buf here) (option_out caller e)) = option_list e"
  by (simp_all add: answer_to_def option_out_def option_list_def split: option.split)

lemma answer_to_spawn:
  assumes "fw_bare (st_forward st caller buf) = ba"
  shows "d \<in> set (answer_to W f st caller buf here (SpawnForward p fu addr)) \<longleftrightarrow>
    (\<exists>(sub, sub_bytes, peer) \<in> set (discovery_forward (st_forward st caller buf) p fu (st_later st caller buf)).
       \<exists>x\<in>set (heard (nw_schedule W caller here peer sub_bytes (f (nw_relay W caller here peer sub_bytes) sub_bytes peer))).
         relay_datagram ba (pd_request_uuid p) x = Some d)"
  by (simp add: answer_to_def assms relay_loop_heard map_filter_mem case_prod_unfold)

lemma set_option_list: "d \<in> set (option_list e) \<longleftrightarrow> e = Some d"
  by (cases e) (auto simp: option_list_def)

text \<open>The answers of a node are its own record, its exit, and what its relays pass on.\<close>

lemma spread_mem:
  assumes "speaks ba W"
  shows "d \<in> set (spread (Suc n) W caller buf here) \<longleftrightarrow>
    (\<exists>st p pid code hs. nw_station W here = Some st \<and> ba_from_slice ba buf = Some (ExecuteRequest p) \<and>
       request_run (st_serve st caller buf) caller p (st_ex st caller buf) = Some (pid, code, hs) \<and>
       ((\<exists>cbor. hs_map hs = Some cbor \<and> ba_to_vec ba (BasicReturnMap pid (pd_request_uuid p) cbor) = Some d) \<or>
        (sv_send_exit_ok (st_serve st caller buf) \<and> ba_to_vec ba (BasicInsecureProgramExit pid code) = Some d) \<or>
        (\<exists>(sub, sub_bytes, peer) \<in> set (forwarded W caller buf here).
           \<exists>x\<in>set (heard (nw_schedule W caller here peer sub_bytes (spread n W (nw_relay W caller here peer sub_bytes) sub_bytes peer))).
             relay_datagram ba (pd_request_uuid p) x = Some d)))"
proof (cases "nw_station W here")
  case None
  then show ?thesis by simp
next
  case (Some st)
  let ?env = "st_serve st caller buf" and ?ex = "st_ex st caller buf"
  have c: "ck_bare (sv_crates ?env) = ba" "fw_bare (st_forward st caller buf) = ba"
    using assms Some by (auto simp: speaks_def)
  note st = Some
  show ?thesis
  proof (cases "\<exists>p. ba_from_slice ba buf = Some (ExecuteRequest p)")
    case False
    then have "list_all (\<lambda>ev. \<exists>k b a i. ev = LogSig k b a i) (snd (snd (handle_datagram ?env buf caller ?ex)))"
      by (auto simp: handle_datagram_def c fabric_message_cases split: option.splits network_message.splits)
    then have "concat (map (answer_to W (spread n W) st caller buf here)
        (snd (snd (handle_datagram ?env buf caller ?ex)))) = []"
      by (fastforce simp: list_all_iff)
    with False st show ?thesis by simp
  next
    case True
    then obtain p where p: "ba_from_slice ba buf = Some (ExecuteRequest p)" by blast
    then have h: "handle_datagram ?env buf caller ?ex = handle_execute_request ?env caller p ?ex"
      by (simp add: handle_datagram_def c)
    show ?thesis
    proof (cases "request_run ?env caller p ?ex")
      case None
      with st p show ?thesis by (simp add: h request_out report_out_def)
    next
      case (Some r)
      obtain pid code hs where r: "r = (pid, code, hs)" by (cases r)
      have f: "forwarded W caller buf here =
          (if 0 < pd_depth_budget p
           then discovery_forward (st_forward st caller buf) p (hs_forward_uuid hs) (st_later st caller buf) else [])"
        using st p Some by (simp add: forwarded_def ran_def c r)
      let ?X = "(\<exists>(sub, sub_bytes, peer) \<in> set (forwarded W caller buf here).
           \<exists>x\<in>set (heard (nw_schedule W caller here peer sub_bytes (spread n W (nw_relay W caller here peer sub_bytes) sub_bytes peer))).
             relay_datagram ba (pd_request_uuid p) x = Some d)"
      define F where "F = (if 0 < pd_depth_budget p then [SpawnForward p (hs_forward_uuid hs) caller] else [])"
      have 1: "d \<in> set (concat (map (answer_to W (spread n W) st caller buf here) F)) \<longleftrightarrow> ?X"
        by (simp add: F_def f answer_to_spawn [OF c(2)]) force
      have "snd (snd (handle_datagram ?env buf caller ?ex)) =
          LogSig ''execute-req'' (check_self_signature_b (ck_crypto (sv_crates ?env)) (pd_source p)) caller (pd_source p) #
          (case hs_map hs of None \<Rightarrow> [] | Some cbor \<Rightarrow> option_out caller
             (ba_to_vec ba (BasicReturnMap pid (pd_request_uuid p) cbor))) @ F @
          (if sv_send_exit_ok ?env then option_out caller (ba_to_vec ba (BasicInsecureProgramExit pid code)) else [])"
        by (simp add: h request_out report_out_def Some r c F_def cong: option.case_cong)
      then have "d \<in> set (spread (Suc n) W caller buf here) \<longleftrightarrow>
          (\<exists>cbor. hs_map hs = Some cbor \<and> ba_to_vec ba (BasicReturnMap pid (pd_request_uuid p) cbor) = Some d) \<or>
          d \<in> set (concat (map (answer_to W (spread n W) st caller buf here) F)) \<or>
          (sv_send_exit_ok ?env \<and> ba_to_vec ba (BasicInsecureProgramExit pid code) = Some d)"
        by (cases "hs_map hs"; cases "sv_send_exit_ok ?env")
          (simp_all add: st set_option_list answer_to_option)
      note this [unfolded 1]
      with st p Some r show ?thesis by auto
    qed
  qed
qed

lemma forwarded_sub:
  assumes "speaks ba W" and "(sub, sub_bytes, peer) \<in> set (forwarded W caller buf here)"
  obtains p where "ba_from_slice ba buf = Some (ExecuteRequest p)" "forwards p sub"
    "ba_from_slice ba sub_bytes = Some (ExecuteRequest sub)"
    "min (unat (pd_depth_budget sub)) 9 < min (unat (pd_depth_budget p)) 9"
    "pd_wasm_program_bytes sub = pd_wasm_program_bytes p"
proof -
  from assms(2) obtain st p pid hs where st: "nw_station W here = Some st" and r: "ran W caller buf here = Some (p, pid, hs)"
    and b: "0 < pd_depth_budget p" and m: "(sub, sub_bytes, peer) \<in> set (discovery_forward (st_forward st caller buf) p
      (hs_forward_uuid hs) (st_later st caller buf))"
    by (cases "nw_station W here"; cases "ran W caller buf here") (auto simp: forwarded_def split: if_splits)
  have c: "ck_bare (sv_crates (st_serve st caller buf)) = ba" "fw_bare (st_forward st caller buf) = ba"
    and rt: "bare_round_trips ba (ExecuteRequest sub)"
    using assms(1) st by (auto simp: speaks_def)
  have p: "ba_from_slice ba buf = Some (ExecuteRequest p)"
    using r st c by (auto simp: ran_def split: option.splits network_message.splits)
  note sub = discovery_forward_sub [OF m]
  have f: "forwards p sub" using forwards.intros [OF b m] .
  moreover have "ba_from_slice ba sub_bytes = Some (ExecuteRequest sub)"
    using sub rt c by (auto simp: bare_round_trips_def)
  ultimately show thesis using that [OF p f] forwards_budget [OF f] sub by auto
qed

lemma ran_iff:
  assumes "speaks ba W"
  shows "ran W caller buf here = Some (p, pid, hs) \<longleftrightarrow>
    (\<exists>st code. nw_station W here = Some st \<and> ba_from_slice ba buf = Some (ExecuteRequest p) \<and>
       request_run (st_serve st caller buf) caller p (st_ex st caller buf) = Some (pid, code, hs))"
proof (cases "nw_station W here")
  case (Some st)
  with assms have "ck_bare (sv_crates (st_serve st caller buf)) = ba" by (simp add: speaks_def)
  with Some show ?thesis
    by (cases "ba_from_slice ba buf") (auto simp: ran_def split: network_message.split)
qed (simp add: ran_def)

lemma spread_sound:
  assumes "speaks ba W" and "undisturbed W" and "d \<in> set (spread n W caller buf here)"
    and "ba_from_slice ba d = Some (BasicReturnMap pid u cbor)"
  shows "\<exists>p caller' buf' there. ba_from_slice ba buf = Some (ExecuteRequest p) \<and> u = pd_request_uuid p \<and>
    visits W caller buf here caller' buf' there \<and> reports W caller' buf' there pid cbor"
  using assms(3,4)
proof (induction n arbitrary: caller buf here d u)
  case (Suc n)
  have rt: "\<forall>m. bare_round_trips ba m" using assms(1) by (simp add: speaks_def)
  obtain st p pid0 code hs where st: "nw_station W here = Some st" and p: "ba_from_slice ba buf = Some (ExecuteRequest p)"
    and run: "request_run (st_serve st caller buf) caller p (st_ex st caller buf) = Some (pid0, code, hs)"
    and d: "(\<exists>cbor. hs_map hs = Some cbor \<and> ba_to_vec ba (BasicReturnMap pid0 (pd_request_uuid p) cbor) = Some d) \<or>
        ba_to_vec ba (BasicInsecureProgramExit pid0 code) = Some d \<or>
        (\<exists>(sub, sub_bytes, peer) \<in> set (forwarded W caller buf here).
           \<exists>x\<in>set (heard (nw_schedule W caller here peer sub_bytes (spread n W (nw_relay W caller here peer sub_bytes) sub_bytes peer))).
             relay_datagram ba (pd_request_uuid p) x = Some d)"
    using Suc.prems(1) unfolding spread_mem [OF assms(1)] by blast
  have r: "ran W caller buf here = Some (p, pid0, hs)" using st p run by (auto simp: ran_iff [OF assms(1)])
  from d show ?case
  proof (elim disjE exE conjE bexE)
    fix cbor' assume "hs_map hs = Some cbor'" and "ba_to_vec ba (BasicReturnMap pid0 (pd_request_uuid p) cbor') = Some d"
    with Suc.prems(2) rt r p show ?thesis
      by (auto simp: bare_round_trips_def reports_def intro!: exI [of _ p] visit_here)
  next
    assume "ba_to_vec ba (BasicInsecureProgramExit pid0 code) = Some d"
    with Suc.prems(2) rt show ?thesis by (auto simp: bare_round_trips_def)
  next
    fix t assume t: "t \<in> set (forwarded W caller buf here)" "case t of (sub, sub_bytes, peer) \<Rightarrow>
      \<exists>x\<in>set (heard (nw_schedule W caller here peer sub_bytes (spread n W (nw_relay W caller here peer sub_bytes) sub_bytes peer))).
        relay_datagram ba (pd_request_uuid p) x = Some d"
    obtain sub sub_bytes peer where teq: "t = (sub, sub_bytes, peer)" by (cases t)
    let ?relay = "nw_relay W caller here peer sub_bytes"
    obtain x where x: "x \<in> set (spread n W ?relay sub_bytes peer)" "relay_datagram ba (pd_request_uuid p) x = Some d"
      using t(2) assms(2) unfolding teq undisturbed_def prod.case by blast
    obtain w where w: "u = pd_request_uuid p" "ba_from_slice ba x = Some (BasicReturnMap pid w cbor)"
      using Suc.prems(2) unfolding relay_datagram_map [OF rt x(2)] by blast
    obtain caller' buf' there where "visits W ?relay sub_bytes peer caller' buf' there" "reports W caller' buf' there pid cbor"
      using Suc.IH [OF x(1) w(2)] by blast
    with visit_next [OF t(1) [unfolded teq]] w(1) p show ?thesis by blast
  qed
qed simp

text \<open>A relay does not look at who wrote to it, nor at the uuid of a reply: what a stranger sends to its
  socket reaches the origin under the uuid of the origin's own request, which the stranger need not know.\<close>

lemma relay_admits_strangers:
  assumes "speaks ba W" and "(sub, sub_bytes, peer) \<in> set (forwarded W caller buf here)"
    and "ba_from_slice ba buf = Some (ExecuteRequest p)"
    and "x \<in> set (heard (nw_schedule W caller here peer sub_bytes (spread n W (nw_relay W caller here peer sub_bytes) sub_bytes peer)))"
    and "ba_from_slice ba x = Some (BasicReturnMap pid w cbor)"
    and "ba_to_vec ba (BasicReturnMap pid (pd_request_uuid p) cbor) = Some d"
  shows "d \<in> set (spread (Suc n) W caller buf here) \<and> ba_from_slice ba d = Some (BasicReturnMap pid (pd_request_uuid p) cbor)"
proof -
  have rd: "relay_datagram ba (pd_request_uuid p) x = Some d" using assms(5,6) by (simp add: relay_datagram_def)
  obtain q pid' hs where "ran W caller buf here = Some (q, pid', hs)"
    using assms(2) by (cases "nw_station W here"; cases "ran W caller buf here") (auto simp: forwarded_def)
  with assms(3) obtain st code where st: "nw_station W here = Some st"
    and run: "request_run (st_serve st caller buf) caller p (st_ex st caller buf) = Some (pid', code, hs)"
    by (auto simp: ran_iff [OF assms(1)])
  have "\<exists>(sub, sub_bytes, peer) \<in> set (forwarded W caller buf here).
      \<exists>x\<in>set (heard (nw_schedule W caller here peer sub_bytes (spread n W (nw_relay W caller here peer sub_bytes) sub_bytes peer))).
        relay_datagram ba (pd_request_uuid p) x = Some d"
    using assms(4) rd by (intro bexI [OF _ assms(2)]) auto
  with st run assms(3) have "d \<in> set (spread (Suc n) W caller buf here)"
    unfolding spread_mem [OF assms(1)] by blast
  with assms(1,6) show ?thesis by (simp add: speaks_def bare_round_trips_def)
qed

lemma spread_complete:
  assumes "speaks ba W" and "timely W" and enc: "\<And>pid u cbor. ba_to_vec ba (BasicReturnMap pid u cbor) \<noteq> None"
    and "visits W caller buf here caller' buf' there" and rep: "reports W caller' buf' there pid cbor"
    and "ba_from_slice ba buf = Some (ExecuteRequest p)" and "min (unat (pd_depth_budget p)) 9 < n"
  shows "\<exists>d\<in>set (spread n W caller buf here). ba_from_slice ba d = Some (BasicReturnMap pid (pd_request_uuid p) cbor)"
  using assms(4-7)
proof (induction arbitrary: p n rule: visits.induct)
  case (visit_here caller buf here)
  have rt: "\<forall>m. bare_round_trips ba m" using assms(1) by (simp add: speaks_def)
  obtain q hs where "ran W caller buf here = Some (q, pid, hs)" and hs: "hs_map hs = Some cbor"
    using visit_here.prems(1) by (auto simp: reports_def)
  then obtain st code where st: "nw_station W here = Some st"
    "request_run (st_serve st caller buf) caller p (st_ex st caller buf) = Some (pid, code, hs)"
    using visit_here.prems(2) by (auto simp: ran_iff [OF assms(1)])
  obtain d where d: "ba_to_vec ba (BasicReturnMap pid (pd_request_uuid p) cbor) = Some d"
    using enc [of pid "pd_request_uuid p" cbor] by blast
  obtain m where m: "n = Suc m" using visit_here.prems(3) by (cases n) auto
  have "d \<in> set (spread n W caller buf here)"
    unfolding m spread_mem [OF assms(1)] using st hs d visit_here.prems(2) by blast
  with d rt show ?case by (auto simp: bare_round_trips_def)
next
  case (visit_next sub sub_bytes peer caller buf here caller' buf' there)
  let ?relay = "nw_relay W caller here peer sub_bytes"
  obtain m where m: "n = Suc m" using visit_next.prems(3) by (cases n) auto
  have sub: "ba_from_slice ba sub_bytes = Some (ExecuteRequest sub)"
    and b: "min (unat (pd_depth_budget sub)) 9 < min (unat (pd_depth_budget p)) 9"
    using forwarded_sub [OF assms(1) visit_next.hyps(1)] visit_next.prems(2) by auto
  have "min (unat (pd_depth_budget sub)) 9 < m" using b visit_next.prems(3) unfolding m by linarith
  from visit_next.IH [OF visit_next.prems(1) sub this] obtain x
    where x: "x \<in> set (spread m W ?relay sub_bytes peer)"
      "ba_from_slice ba x = Some (BasicReturnMap pid (pd_request_uuid sub) cbor)" by blast
  then have h: "x \<in> set (heard (nw_schedule W caller here peer sub_bytes (spread m W ?relay sub_bytes peer)))"
    using assms(2) by (simp add: timely_def)
  obtain d where d: "ba_to_vec ba (BasicReturnMap pid (pd_request_uuid p) cbor) = Some d"
    using enc [of pid "pd_request_uuid p" cbor] by blast
  from relay_admits_strangers [OF assms(1) visit_next.hyps(1) visit_next.prems(2) h x(2) d]
  show ?case unfolding m by blast
qed

lemma visits_chain:
  assumes "speaks ba W" and "visits W caller buf here caller' buf' there" and "ba_from_slice ba buf = Some (ExecuteRequest p)"
  shows "\<exists>qs. forward_chain p qs \<and> ba_from_slice ba buf' = Some (ExecuteRequest (last (p # qs))) \<and>
    pd_wasm_program_bytes (last (p # qs)) = pd_wasm_program_bytes p"
  using assms(2,3)
proof (induction arbitrary: p rule: visits.induct)
  case (visit_here caller buf here)
  then show ?case by (intro exI [of _ "[]"]) (simp add: chain_nil)
next
  case (visit_next sub sub_bytes peer caller buf here caller' buf' there)
  have sub: "ba_from_slice ba sub_bytes = Some (ExecuteRequest sub)" "forwards p sub"
    "pd_wasm_program_bytes sub = pd_wasm_program_bytes p"
    using forwarded_sub [OF assms(1) visit_next.hyps(1)] visit_next.prems by auto
  from visit_next.IH [OF sub(1)] obtain qs where "forward_chain sub qs"
    "ba_from_slice ba buf' = Some (ExecuteRequest (last (sub # qs)))"
    "pd_wasm_program_bytes (last (sub # qs)) = pd_wasm_program_bytes sub" by blast
  with sub show ?case by (intro exI [of _ "sub # qs"]) (simp add: chain_cons)
qed

text \<open>Between nodes of the program every edge counts as untrusted (\<open>Discovery_Path\<close>), so three forwards are
  the most there are, whatever the budget.\<close>

lemma started_forward_budget:
  assumes "started_node ex" and "(sub, sub_bytes, peer) \<in> set (discovery_forward env p fu ex)"
  shows "unat (pd_depth_budget sub) \<le> 2"
proof -
  obtain pk where pk: "\<forall>k. pk = Some k \<longrightarrow> k \<noteq> ex_identity_pubkey ex \<and>
        (\<not> trusts_pubkey k ex \<longrightarrow> unat (pd_depth_budget sub) \<le> 2)"
      "pk = None \<longrightarrow> unat (pd_depth_budget sub) \<le> 2"
    using discovery_forward_sub [OF assms(2)] by blast
  then show ?thesis using started_node_trust [OF assms(1)] by (cases pk) auto
qed

definition all_started :: "network \<Rightarrow> bool" where
  "all_started W \<longleftrightarrow> (\<forall>a st caller buf. nw_station W a = Some st \<longrightarrow> started_node (st_later st caller buf))"

lemma visits_horizon:
  assumes "speaks ba W" and "all_started W" and "visits W caller buf here caller' buf' there"
    and "ba_from_slice ba buf = Some (ExecuteRequest p)"
  shows "\<exists>qs. forward_chain p qs \<and> length qs \<le> min (unat (pd_depth_budget p)) 3 \<and>
    ba_from_slice ba buf' = Some (ExecuteRequest (last (p # qs)))"
  using assms(3)
proof cases
  case visit_here
  with assms(4) show ?thesis by (intro exI [of _ "[]"]) (simp add: chain_nil)
next
  case (visit_next sub sub_bytes peer)
  obtain st q pid hs where "nw_station W here = Some st" "ran W caller buf here = Some (q, pid, hs)"
    "(sub, sub_bytes, peer) \<in> set (discovery_forward (st_forward st caller buf) q (hs_forward_uuid hs) (st_later st caller buf))"
    using visit_next(1)
    by (cases "nw_station W here"; cases "ran W caller buf here") (auto simp: forwarded_def split: if_splits)
  with assms(2) have "unat (pd_depth_budget sub) \<le> 2" using started_forward_budget unfolding all_started_def by blast
  moreover obtain qs where qs: "forward_chain sub qs" "ba_from_slice ba buf' = Some (ExecuteRequest (last (sub # qs)))"
    and f: "forwards p sub"
    using visits_chain [OF assms(1) visit_next(2)] forwarded_sub [OF assms(1) visit_next(1)] assms(4) by auto
  moreover have "length (sub # qs) \<le> unat (pd_depth_budget p)"
    using forward_chain_length [OF chain_cons [OF f qs(1)]] .
  ultimately have "length (sub # qs) \<le> min (unat (pd_depth_budget p)) 3"
    using forward_chain_length [OF qs(1)] by simp
  with chain_cons [OF f qs(1)] qs(2) show ?thesis by (intro exI [of _ "sub # qs"]) simp
qed

section \<open>The client's side\<close>

text \<open>The datagrams \<open>collect_until\<close> reads.\<close>

fun in_window :: "nat \<Rightarrow> (nat \<times> received) list \<Rightarrow> (socket_addr \<times> bytes) list" where
  "in_window deadline [] = []"
| "in_window deadline ((now, ev) # evs) =
     (if deadline \<le> now then []
      else case ev of
        Received from_addr buf \<Rightarrow> (from_addr, buf) # in_window deadline evs
      | ReceiveError \<Rightarrow> []
      | WindowClosed \<Rightarrow> [])"

lemma collect_reply_mem:
  "r \<in> set (collect_reply ba uuid d collected) \<longleftrightarrow> r \<in> set collected \<or>
     fst r = fst d \<and> (\<exists>pid. ba_from_slice ba (snd d) = Some (BasicReturnMap pid uuid (snd r)))"
  by (cases r) (auto simp: collect_reply_def split: option.splits network_message.splits)

lemma collect_until_mem:
  "r \<in> set (collect_until ba uuid deadline evs collected) \<longleftrightarrow> r \<in> set collected \<or>
     (\<exists>d pid. (fst r, d) \<in> set (in_window deadline evs) \<and> ba_from_slice ba d = Some (BasicReturnMap pid uuid (snd r)))"
  by (induction deadline evs arbitrary: collected rule: in_window.induct)
    (auto simp: collect_reply_mem split: received.splits)

lemma collected_records:
  "(\<exists>r\<in>set (collect_until ba uuid deadline evs []). Q (snd r)) \<longleftrightarrow>
     (\<exists>d\<in>snd ` set (in_window deadline evs). \<exists>pid cbor. ba_from_slice ba d = Some (BasicReturnMap pid uuid cbor) \<and> Q cbor)"
proof -
  have "(\<exists>r\<in>set (collect_until ba uuid deadline evs []). Q (snd r)) \<longleftrightarrow>
      (\<exists>from d pid cbor. (from, d) \<in> set (in_window deadline evs) \<and>
         ba_from_slice ba d = Some (BasicReturnMap pid uuid cbor) \<and> Q cbor)"
    unfolding Bex_def collect_until_mem by simp blast
  then show ?thesis by force
qed

text \<open>A record that puts a key on the map.\<close>

definition attests :: "crypto \<Rightarrow> cbor_codec \<Rightarrow> bytes \<Rightarrow> bytes \<Rightarrow> bool" where
  "attests cr cb cbor pk \<longleftrightarrow>
     (\<exists>att parent tc na vn. parse_record cb cbor = Some (att, parent, tc, na) \<and>
        verify_attestation_cbor cr cb att = Inr vn \<and> vn_pubkey vn = pk)"

lemma add_reply_contains:
  "dm_contains pk (add_reply cr cb now r nodes) \<longleftrightarrow> dm_contains pk nodes \<or> attests cr cb (snd r) pk"
  by (auto simp: add_reply_def attests_def dm_contains_def dm_simps split: option.splits sum.splits if_splits)

lemma collect_nodes_contains:
  "dm_contains pk (collect_nodes cr cb now rs) \<longleftrightarrow> (\<exists>r\<in>set rs. attests cr cb (snd r) pk)"
proof -
  have "dm_contains pk (fold (add_reply cr cb now) rs nodes) \<longleftrightarrow>
      dm_contains pk nodes \<or> (\<exists>r\<in>set rs. attests cr cb (snd r) pk)" for nodes
    by (induction rs arbitrary: nodes) (auto simp: add_reply_contains)
  then show ?thesis by (simp add: collect_nodes_def dm_contains_def dm_get_def)
qed

text \<open>What the command gathers: of any kind of record, it has one exactly when a node asked reports one.\<close>

lemma network_records:
  assumes "speaks (cl_bare env) W" and "timely W"
    and "\<And>pid u cbor. ba_to_vec (cl_bare env) (BasicReturnMap pid u cbor) \<noteq> None"
    and "\<And>caller buf here. (caller, buf, here) \<in> set asked \<Longrightarrow> buf \<in> (\<lambda>t. snd (snd t)) `
      set (fst (netmap_sends env wasm source uuid our keys local groups port peers))"
    and "snd ` (set (in_window deadline ipv4_evs) \<union> set (in_window deadline ipv6_evs)) =
      (\<Union>(caller, buf, here)\<in>set asked. set (spread 10 W caller buf here))"
    and "set collected = set (collect_until (cl_bare env) uuid deadline ipv4_evs []) \<union>
      set (collect_until (cl_bare env) uuid deadline ipv6_evs [])"
  shows "(\<exists>r\<in>set collected. Q (snd r)) \<longleftrightarrow>
    (\<exists>(caller, buf, here)\<in>set asked. \<exists>caller' buf' there pid cbor.
       visits W caller buf here caller' buf' there \<and> reports W caller' buf' there pid cbor \<and> Q cbor)"
proof -
  let ?ba = "cl_bare env"
  have rt: "bare_round_trips ?ba m" for m using assms(1) by (simp add: speaks_def)
  have answers: "(\<exists>d\<in>set (spread 10 W caller buf here). ba_from_slice ?ba d = Some (BasicReturnMap pid uuid cbor)) \<longleftrightarrow>
      (\<exists>caller' buf' there. visits W caller buf here caller' buf' there \<and> reports W caller' buf' there pid cbor)"
    if a: "(caller, buf, here) \<in> set asked" for caller buf here pid cbor
  proof -
    obtain t where t: "t \<in> set (fst (netmap_sends env wasm source uuid our keys local groups port peers))"
      and buf: "buf = snd (snd t)" using assms(4) [OF a] by blast
    obtain p where p: "ba_from_slice ?ba buf = Some (ExecuteRequest p)" and uu: "pd_request_uuid p = uuid"
      using netmap_sends_mem [OF t] make_request_decodes [OF _ rt] unfolding buf by fastforce
    have u: "undisturbed W" using assms(2) by (simp add: timely_def undisturbed_def)
    have b: "min (unat (pd_depth_budget p)) 9 < 10" by linarith
    show ?thesis
      using spread_sound [OF assms(1) u, of _ 10 caller buf here pid uuid cbor]
        spread_complete [OF assms(1-3) _ _ p b] uu by blast
  qed
  have "(\<exists>r\<in>set collected. Q (snd r)) \<longleftrightarrow>
      (\<exists>d\<in>snd ` (set (in_window deadline ipv4_evs) \<union> set (in_window deadline ipv6_evs)). \<exists>pid cbor.
         ba_from_slice ?ba d = Some (BasicReturnMap pid uuid cbor) \<and> Q cbor)"
    unfolding assms(6) image_Un bex_Un collected_records [where Q = Q] ..
  also have "\<dots> \<longleftrightarrow> (\<exists>(caller, buf, here)\<in>set asked. \<exists>d\<in>set (spread 10 W caller buf here). \<exists>pid cbor.
         ba_from_slice ?ba d = Some (BasicReturnMap pid uuid cbor) \<and> Q cbor)"
    unfolding assms(5) by fastforce
  also have "\<dots> \<longleftrightarrow> (\<exists>(caller, buf, here)\<in>set asked. \<exists>caller' buf' there pid cbor.
       visits W caller buf here caller' buf' there \<and> reports W caller' buf' there pid cbor \<and> Q cbor)"
    using answers by fast
  finally show ?thesis .
qed

section \<open>Properties\<close>

text \<open>C14: what a discovery request brings back. When no stranger writes to the relays' sockets and every
  relay hears the answers of its subtree in its window, the records that reach the caller of a
  request are exactly those that the programs on the nodes it spreads to returned, each with its pid, its
  bytes and the caller's own uuid. Those nodes run the same program, at the end of at most
  min(budget, 9) forwards; ten levels of recursion show all of them.\<close>

theorem discovery_answers_exact:
  assumes "speaks ba W" and "timely W" and "\<And>pid u cbor. ba_to_vec ba (BasicReturnMap pid u cbor) \<noteq> None"
    and "ba_from_slice ba buf = Some (ExecuteRequest p)" and "10 \<le> n"
  shows "((\<exists>d\<in>set (spread n W caller buf here). ba_from_slice ba d = Some (BasicReturnMap pid u cbor)) \<longleftrightarrow>
      u = pd_request_uuid p \<and>
      (\<exists>caller' buf' there. visits W caller buf here caller' buf' there \<and> reports W caller' buf' there pid cbor)) \<and>
    (visits W caller buf here caller' buf' there \<longrightarrow>
      (\<exists>qs. forward_chain p qs \<and> length qs \<le> min (unat (pd_depth_budget p)) 9 \<and>
         ba_from_slice ba buf' = Some (ExecuteRequest (last (p # qs))) \<and>
         pd_wasm_program_bytes (last (p # qs)) = pd_wasm_program_bytes p))"
proof -
  have u: "undisturbed W" using assms(2) by (simp add: timely_def undisturbed_def)
  have b: "min (unat (pd_depth_budget p)) 9 < n" using assms(5) by linarith
  have "(\<exists>d\<in>set (spread n W caller buf here). ba_from_slice ba d = Some (BasicReturnMap pid u cbor)) \<longleftrightarrow>
      u = pd_request_uuid p \<and>
      (\<exists>caller' buf' there. visits W caller buf here caller' buf' there \<and> reports W caller' buf' there pid cbor)"
    using spread_sound [OF assms(1) u, of _ n caller buf here pid u cbor]
      spread_complete [OF assms(1-3) _ _ assms(4) b] assms(4) by fastforce
  moreover have "\<exists>qs. forward_chain p qs \<and> length qs \<le> min (unat (pd_depth_budget p)) 9 \<and>
      ba_from_slice ba buf' = Some (ExecuteRequest (last (p # qs))) \<and>
      pd_wasm_program_bytes (last (p # qs)) = pd_wasm_program_bytes p"
    if "visits W caller buf here caller' buf' there"
    using visits_chain [OF assms(1) that assms(4)] forward_chain_at_most by blast
  ultimately show ?thesis by blast
qed


text \<open>Whom the network map shows. \<open>asked\<close> are the deliveries of the requests \<open>netmap\<close> sends. When the
  relays hear their subtrees, the two sockets of the command receive the answers before its deadline,
  and strangers keep silent, the keys on the map are exactly those whose attestation verifies in a
  record returned by a program on a node that the requests spread to.\<close>

theorem network_map_exact:
  assumes "speaks (cl_bare env) W" and "timely W"
    and "\<And>pid u cbor. ba_to_vec (cl_bare env) (BasicReturnMap pid u cbor) \<noteq> None"
    and "\<And>caller buf here. (caller, buf, here) \<in> set asked \<Longrightarrow> buf \<in> (\<lambda>t. snd (snd t)) `
      set (fst (netmap_sends env wasm source uuid our keys local groups port peers))"
    and "snd ` (set (in_window deadline ipv4_evs) \<union> set (in_window deadline ipv6_evs)) =
      (\<Union>(caller, buf, here)\<in>set asked. set (spread 10 W caller buf here))"
    and "set collected = set (collect_until (cl_bare env) uuid deadline ipv4_evs []) \<union>
      set (collect_until (cl_bare env) uuid deadline ipv6_evs [])"
  shows "dm_contains pk (collect_nodes cr cb now collected) \<longleftrightarrow>
    (\<exists>(caller, buf, here)\<in>set asked. \<exists>caller' buf' there pid cbor.
       visits W caller buf here caller' buf' there \<and> reports W caller' buf' there pid cbor \<and> attests cr cb cbor pk)"
  unfolding collect_nodes_contains by (rule network_records [OF assms, where Q = "\<lambda>b. attests cr cb b pk"])

section \<open>Concrete instances\<close>

text \<open>Two nodes; the first knows the second, whose program reports the record \<open>[9]\<close>.\<close>

definition demo_map_sub :: program_data where
  "demo_map_sub = demo_map_request\<lparr>pd_depth_budget := 1, pd_visited := [[5], replicate 32 7],
     pd_request_uuid := replicate 16 5\<rparr>"

definition ones :: "nat \<Rightarrow> bytes \<Rightarrow> bytes" where
  "ones n rest = replicate n 1 @ 0 # rest"

definition demo_wire :: bare_codec where
  "demo_wire = \<lparr>
     ba_to_vec = (\<lambda>m. case m of
         BasicReturnMap pid u cbor \<Rightarrow> Some (4 # ones (unat pid) (ones (length u) (u @ cbor)))
       | _ \<Rightarrow> if m = ExecuteRequest demo_map_request then Some [1]
              else if m = ExecuteRequest demo_map_sub then Some [2] else None),
     ba_from_slice = (\<lambda>b.
       if b = [1] then Some (ExecuteRequest demo_map_request)
       else if b = [2] then Some (ExecuteRequest demo_map_sub)
       else if hd b = 4 then
         let r = tl b; n = length (takeWhile ((=) 1) r); r = drop (Suc n) r; k = length (takeWhile ((=) 1) r);
             r = drop (Suc k) r
         in Some (BasicReturnMap (of_nat n) (take k r) (drop k r))
       else None)\<rparr>"

lemma takeWhile_ones: "takeWhile ((=) 1) (ones n rest) = replicate n 1" "drop (Suc n) (ones n rest) = rest"
  by (induction n) (simp_all add: ones_def)

lemma demo_wire_round_trips: "bare_round_trips demo_wire m"
  by (cases m) (auto simp: bare_round_trips_def demo_wire_def takeWhile_ones Let_def demo_map_sub_def
      demo_map_request_def simp del: drop_drop split: if_splits)

lemma demo_wire_requests:
  "ba_from_slice demo_wire [1] = Some (ExecuteRequest demo_map_request)"
  "ba_from_slice demo_wire [2] = Some (ExecuteRequest demo_map_sub)"
  by (simp_all add: demo_wire_def)

lemma demo_wire_total: "ba_to_vec demo_wire (BasicReturnMap pid u cbor) \<noteq> None"
  by (simp add: demo_wire_def)

definition demo_station :: "(host_env \<times> memory \<times> host_call) list \<Rightarrow> station" where
  "demo_station calls = \<lparr>
     st_serve = (\<lambda>caller buf. (demo_serve demo_sent [] demo_guest)
       \<lparr>sv_crates := \<lparr>ck_crypto = demo_crypto, ck_cbor = demo_codec CNull [], ck_bare = demo_wire\<rparr>,
        sv_guest := (\<lambda>_. \<lparr>gr_calls = calls, gr_exit = 0, gr_wait = Inr 0\<rparr>)\<rparr>),
     st_ex = (\<lambda>caller buf. Serve.demo_node), st_later = (\<lambda>caller buf. Serve.demo_node),
     st_forward = (\<lambda>caller buf. demo_forward\<lparr>fw_bare := demo_wire\<rparr>)\<rparr>"

definition demo_network :: network where
  "demo_network = \<lparr>
     nw_station = (\<lambda>a. if a = SockV4 0x7F000001 2240 then Some (demo_station [])
                       else if a = SockV4 1 9 then Some (demo_station [(demo_env, Some [9], CReturnMap 0 1)]) else None),
     nw_relay = (\<lambda>c a b s. SockV4 2 2), nw_schedule = (\<lambda>c a b s. map (\<lambda>d. (0, Datagram d)))\<rparr>"

lemma demo_stations:
  "nw_station demo_network (SockV4 0x7F000001 2240) = Some (demo_station [])"
  "nw_station demo_network (SockV4 1 9) = Some (demo_station [(demo_env, Some [9], CReturnMap 0 1)])"
  "st_ex (demo_station calls) caller buf = Serve.demo_node"
  by (simp_all add: demo_network_def demo_station_def)

lemma demo_speaks: "speaks demo_wire demo_network"
  by (auto simp: speaks_def demo_wire_round_trips demo_network_def demo_station_def demo_forward_def split: if_splits)

lemma demo_timely: "timely demo_network"
proof -
  have "heard (map (\<lambda>d. (0, Datagram d)) ds) = ds" for ds
    by (induction ds) (simp_all add: RELAY_MAX_MS_def)
  then show ?thesis by (simp add: timely_def demo_network_def)
qed

lemma demo_request_run:
  assumes "pd_source p = demo_identity" and "pd_wasm_program_bytes p = [0]"
  shows "\<exists>pid d ex. request_run (st_serve (demo_station calls) caller buf) caller p Serve.demo_node =
    Some (pid, 0, host_run \<lparr>ck_crypto = demo_crypto, ck_cbor = demo_codec CNull [], ck_bare = demo_wire\<rparr> d calls (guest_init ex))"
  using assms
  by (simp add: request_run_def demo_station_def demo_serve_def begin_exec_eq create_pid_eq demo_identity_ok
      demo_engine_def Let_def) blast

lemma demo_ran_first:
  "\<exists>pid hs. ran demo_network caller [1] (SockV4 0x7F000001 2240) = Some (demo_map_request, pid, hs) \<and> hs_forward_uuid hs = None"
  using demo_request_run [of demo_map_request "[]" caller "[1]"]
  by (auto simp: ran_iff [OF demo_speaks] demo_stations demo_wire_requests demo_map_request_def guest_init_def)

lemma demo_ran_second: "\<exists>pid. reports demo_network caller [2] (SockV4 1 9) pid [9]"
proof -
  have cl: "clamp0 0 = 0" "clamp0 1 = 1" using clamp0_of_nat [of 0] clamp0_of_nat [of 1] by simp_all
  have "hs_map (host_run c d [(demo_env, Some [9], CReturnMap 0 1)] hs) = Some [9]" for c d hs
    by (simp add: host_return_map_def with_guest_bytes_def read_guest_bytes_def cl return_i32_def)
  then show ?thesis
    using demo_request_run [of demo_map_sub "[(demo_env, Some [9], CReturnMap 0 1)]" caller "[2]"]
    by (auto simp: reports_def ran_iff [OF demo_speaks] demo_stations demo_wire_requests demo_map_request_def
        demo_map_sub_def)
qed

lemma demo_forwarded_map:
  "(demo_map_sub, [2], SockV4 1 9) \<in> set (forwarded demo_network caller [1] (SockV4 0x7F000001 2240))"
proof -
  obtain pid hs where r: "ran demo_network caller [1] (SockV4 0x7F000001 2240) = Some (demo_map_request, pid, hs)"
    and u: "hs_forward_uuid hs = None" using demo_ran_first by blast
  have t: "forward_targets (demo_forward\<lparr>fw_bare := demo_wire\<rparr>) Serve.demo_node = [(SockV4 1 9, None)]"
    by (simp add: forward_targets_def demo_forward_def peer_target_def demo_peer_def connect_hosts_def
        option_list_def expected_key_str_def push_target_def observed_targets_def Serve.demo_node_def
        demo_executor_fields)
  have f: "fw_random_uuid (demo_forward\<lparr>fw_bare := demo_wire\<rparr>) = replicate 16 5" by (simp add: demo_forward_def)
  have c: "child_depth_budget 2 False = 1" by (simp add: child_depth_budget_def depth_defs)
  have s: "sub_request Serve.demo_node demo_identity demo_map_request (replicate 16 5) (SockV4 1 9, None) = Some demo_map_sub"
    by (simp add: sub_request_def builder_defs builder_build_def demo_map_request_def demo_map_sub_def Serve.demo_node_def c)
  have e: "ba_to_vec demo_wire (ExecuteRequest demo_map_sub) = Some [2]"
    by (simp add: demo_wire_def demo_map_sub_def demo_map_request_def)
  have n: "ex_identity_data Serve.demo_node = Some demo_identity" "0 < pd_depth_budget demo_map_request"
    by (simp_all add: Serve.demo_node_def demo_map_request_def)
  from r u n show ?thesis
    by (simp add: demo_stations forwarded_def discovery_forward_def demo_station_def t f map_filter_Cons map_filter_Nil s e)
qed

lemma demo_visits: "visits demo_network caller [1] (SockV4 0x7F000001 2240) (SockV4 2 2) [2] (SockV4 1 9)"
proof -
  have "nw_relay demo_network c a b s = SockV4 2 2" for c a b s by (simp add: demo_network_def)
  then show ?thesis using visit_next [OF demo_forwarded_map, where caller' = "SockV4 2 2" and buf' = "[2]"] visit_here by metis
qed

theorem discovery_answers_exact_witness:
  "\<exists>pid. (\<exists>d\<in>set (spread 10 demo_network (SockV4 3 3) [1] (SockV4 0x7F000001 2240)).
       ba_from_slice demo_wire d = Some (BasicReturnMap pid [4] [9])) \<and>
     (\<exists>qs. forward_chain demo_map_request qs \<and> last (demo_map_request # qs) = demo_map_sub)"
proof -
  obtain pid where r: "reports demo_network (SockV4 2 2) [2] (SockV4 1 9) pid [9]" using demo_ran_second by blast
  have u: "pd_request_uuid demo_map_request = [4]" by (simp add: demo_map_request_def)
  note * = discovery_answers_exact [OF demo_speaks demo_timely demo_wire_total demo_wire_requests(1) order_refl,
      of "SockV4 3 3" "SockV4 0x7F000001 2240" pid "[4]" "[9]" "SockV4 2 2" "[2]" "SockV4 1 9"]
  have "\<exists>d\<in>set (spread 10 demo_network (SockV4 3 3) [1] (SockV4 0x7F000001 2240)).
      ba_from_slice demo_wire d = Some (BasicReturnMap pid [4] [9])"
    by (rule iffD2 [OF conjunct1 [OF *]]) (use u demo_visits r in \<open>auto intro: exI\<close>)
  moreover have "\<exists>qs. forward_chain demo_map_request qs \<and> last (demo_map_request # qs) = demo_map_sub"
    using mp [OF conjunct2 [OF *] demo_visits] unfolding demo_wire_requests(2)
    by (elim exE conjE) (metis option.inject network_message.inject(1))
  ultimately show ?thesis by blast
qed

text \<open>The record \<open>[9]\<close> attests the second node's key.\<close>

definition demo_attested :: cbor_codec where
  "demo_attested = \<lparr>cb_to_vec = (\<lambda>_. None),
     cb_from_slice = (\<lambda>b. if b = [9] then Some (CMap [(CInteger ATTESTATION, CBytes [8])])
       else if b = [8] then Some (attestation_value ''n2'' (replicate 32 6) 5
         (cr_sign demo_crypto (replicate 32 6) (attestation_signing_bytes ''n2'' (replicate 32 6) 5)))
       else None)\<rparr>"

lemma demo_attests: "attests demo_crypto demo_attested [9] (replicate 32 6)"
proof -
  have k: "cr_verifying_key demo_crypto (replicate 32 6) = replicate 32 6" by (simp add: demo_crypto_def)
  have p: "parse_record demo_attested [9] = Some ([8], [], False, None)"
    by (simp add: parse_record_def demo_attested_def cbor_get_def record_keys Let_def)
  have "cb_from_slice demo_attested [8] = Some (attestation_value ''n2'' (replicate 32 6) 5
      (cr_sign demo_crypto (replicate 32 6) (attestation_signing_bytes ''n2'' (replicate 32 6) 5)))"
    by (simp add: demo_attested_def)
  from verify_attestation_map [OF this, of demo_crypto] ed25519_lawsD [OF demo_crypto_laws, of "replicate 32 6"]
  have "verify_attestation_cbor demo_crypto demo_attested [8] =
      Inr \<lparr>vn_hostname = ''n2'', vn_pubkey = replicate 32 6, vn_epoch_s = 5\<rparr>" by (simp add: k)
  with p show ?thesis by (auto simp: attests_def)
qed

lemma in_window_all: "0 < deadline \<Longrightarrow> in_window deadline (map (\<lambda>d. (0, Received a d)) ds) = map (Pair a) ds"
  by (induction ds) auto

theorem network_map_exact_witness:
  "dm_contains (replicate 32 6) (collect_nodes demo_crypto demo_attested 7
     (collect_until demo_wire [4] 12000
       (map (\<lambda>d. (0, Received (SockV4 0x7F000001 2240) d)) (spread 10 demo_network (SockV4 3 3) [1] (SockV4 0x7F000001 2240))) []))"
proof -
  let ?env = "demo_client demo_wire" and ?here = "SockV4 0x7F000001 2240"
  let ?answers = "spread 10 demo_network (SockV4 3 3) [1] ?here"
  let ?ipv4_evs = "map (\<lambda>d. (0, Received ?here d)) ?answers"
  have ba: "cl_bare ?env = demo_wire" by (simp add: demo_client_def)
  have "make_request ?env [0] demo_identity [4] [5] UNTRUSTED_FORWARD_DEPTH = Some [1]"
    by (simp add: make_request_def netmap_request_def builder_defs builder_build_def demo_client_def demo_wire_def
        demo_map_request_def depth_defs)
  then have sends: "(Routed, ?here, [1]) \<in> set (fst (netmap_sends ?env [0] demo_identity [4] [5] [] True [] 2240 []))"
    by (simp add: netmap_sends_def)
  obtain pid where r: "reports demo_network (SockV4 2 2) [2] (SockV4 1 9) pid [9]" using demo_ran_second by blast
  have "dm_contains (replicate 32 6) (collect_nodes demo_crypto demo_attested 7 (collect_until demo_wire [4] 12000 ?ipv4_evs [])) \<longleftrightarrow>
    (\<exists>(caller, buf, here)\<in>set [(SockV4 3 3, [1], ?here)]. \<exists>caller' buf' there pid cbor.
       visits demo_network caller buf here caller' buf' there \<and> reports demo_network caller' buf' there pid cbor \<and>
       attests demo_crypto demo_attested cbor (replicate 32 6))"
  proof (rule network_map_exact [where env = ?env and ipv6_evs = "[]" and deadline = 12000 and ipv4_evs = ?ipv4_evs, unfolded ba,
      OF demo_speaks demo_timely demo_wire_total])
    show "buf \<in> (\<lambda>t. snd (snd t)) ` set (fst (netmap_sends ?env [0] demo_identity [4] [5] [] True [] 2240 []))"
      if "(caller, buf, here) \<in> set [(SockV4 3 3, [1], ?here)]" for caller buf here
      using that sends by force
  qed (simp_all add: in_window_all image_image)
  moreover have "\<exists>caller' buf' there pid cbor. visits demo_network (SockV4 3 3) [1] ?here caller' buf' there \<and>
      reports demo_network caller' buf' there pid cbor \<and> attests demo_crypto demo_attested cbor (replicate 32 6)"
    using demo_visits [of "SockV4 3 3"] r demo_attests by blast
  ultimately show ?thesis by simp
qed

text \<open>A node alone, freshly started.\<close>

definition demo_lone :: network where
  "demo_lone = demo_network\<lparr>nw_station := (\<lambda>a. if a = SockV4 1 9
     then Some ((demo_station [(demo_env, Some [9], CReturnMap 0 1)])\<lparr>st_later := (\<lambda>caller buf. demo_executor)\<rparr>) else None)\<rparr>"

lemma demo_lone_station:
  "nw_station demo_lone (SockV4 1 9) =
     Some ((demo_station [(demo_env, Some [9], CReturnMap 0 1)])\<lparr>st_later := (\<lambda>caller buf. demo_executor)\<rparr>)"
  by (simp add: demo_lone_def)

lemma demo_lone_facts: "speaks demo_wire demo_lone" "timely demo_lone" "all_started demo_lone"
proof -
  show "speaks demo_wire demo_lone"
    by (auto simp: speaks_def demo_wire_round_trips demo_lone_def demo_station_def demo_forward_def split: if_splits)
  show "timely demo_lone" using demo_timely by (simp add: timely_def demo_lone_def)
  have "started_node demo_executor"
    unfolding started_node_def demo_executor_def by (intro exI [of _ "[]"] exI) auto
  then show "all_started demo_lone" by (simp add: all_started_def demo_lone_def)
qed


end
