(* ===== verification/Map_Program.thy ===== *)
theory Map_Program
  imports Serve Netmap
begin

text \<open>
  The discovery program itself, \<open>src/example-programs/network-map.c\<close>: a guest written in C that a
  node runs for each discovery request. Its static arrays lie in its linear memory at addresses the
  linker chose (\<open>buffers\<close>); it calls the host, builds a CBOR map byte by byte in \<open>out\<close> and returns it.
  The calls go through \<open>Host_Api.host_step\<close>, and are noted, so that the run is one of the call lists of
  \<open>Serve\<close>. The instructions it spends between the calls are not counted. The bytes it writes are
  compared with the definite-length encoding of RFC 8949, written down here with division.
\<close>

unbundle bit_operations_syntax

section \<open>Memory and state\<close>

text \<open>Where the static arrays are, with their sizes.\<close>

record buffers =
  bf_out :: nat
  bf_attest :: nat
  bf_parent :: nat
  bf_uuid :: nat
  bf_node_addr :: nat

definition regions :: "buffers \<Rightarrow> (nat \<times> nat) list" where
  "regions B = [(bf_out B, 16384), (bf_attest B, 1024), (bf_parent B, 64), (bf_uuid B, 16), (bf_node_addr B, 64)]"

definition apart :: "nat \<times> nat \<Rightarrow> nat \<times> nat \<Rightarrow> bool" where
  "apart r s \<longleftrightarrow> fst r + snd r \<le> fst s \<or> fst s + snd s \<le> fst r"

definition placed :: "buffers \<Rightarrow> bytes \<Rightarrow> bool" where
  "placed B mem \<longleftrightarrow> sorted_wrt apart (regions B) \<and>
     (\<forall>(p, n)\<in>set (regions B). p + n \<le> length mem \<and> p + n < 2 ^ 31)"

text \<open>The running program: the host's view of it with its memory, \<open>out_len\<close>, and its calls so far.\<close>

record guest =
  g_state :: host_state
  g_out_len :: nat
  g_calls :: "(host_env \<times> memory \<times> host_call) list"

definition guest_start :: "host_state \<Rightarrow> guest" where
  "guest_start hs = \<lparr>g_state = hs, g_out_len = 0, g_calls = []\<rparr>"

definition peek :: "nat \<Rightarrow> guest \<Rightarrow> u8" where
  "peek i g = (case hs_memory (g_state g) of Some mem \<Rightarrow> mem ! i | None \<Rightarrow> 0)"

definition poke :: "nat \<Rightarrow> u8 \<Rightarrow> guest \<Rightarrow> guest" where
  "poke i b g = g\<lparr>g_state := (g_state g)\<lparr>hs_memory := map_option (\<lambda>mem. mem[i := b]) (hs_memory (g_state g))\<rparr>\<rparr>"

section \<open>The CBOR builder\<close>

definition put_byte :: "buffers \<Rightarrow> u8 \<Rightarrow> guest \<Rightarrow> guest" where
  "put_byte B b g =
     (if g_out_len g < 16384
      then (poke (bf_out B + g_out_len g) b g)\<lparr>g_out_len := g_out_len g + 1\<rparr> else g)"

text \<open>The loop of \<open>put_bytes\<close>, with the number of bytes left.\<close>

fun put_bytes_from :: "buffers \<Rightarrow> nat \<Rightarrow> nat \<Rightarrow> nat \<Rightarrow> guest \<Rightarrow> guest" where
  "put_bytes_from B src i 0 g = g"
| "put_bytes_from B src i (Suc left) g =
     (if g_out_len g < 16384
      then put_bytes_from B src (i + 1) left
             ((poke (bf_out B + g_out_len g) (peek (src + i) g) g)\<lparr>g_out_len := g_out_len g + 1\<rparr>)
      else g)"

definition put_bytes :: "buffers \<Rightarrow> nat \<Rightarrow> i32 \<Rightarrow> guest \<Rightarrow> guest" where
  "put_bytes B src n g = put_bytes_from B src 0 (clamp0 n) g"

definition cbor_head :: "buffers \<Rightarrow> nat \<Rightarrow> u64 \<Rightarrow> guest \<Rightarrow> guest" where
  "cbor_head B major val g =
     (let mt = (push_bit 5 (of_nat major) :: u8); byte = (\<lambda>s. ucast (drop_bit s val) :: u8) in
      if val < 24 then put_byte B (mt OR ucast val) g
      else if val < 256 then put_byte B (byte 0) (put_byte B (mt OR 24) g)
      else if val < 65536 then put_byte B (byte 0) (put_byte B (byte 8) (put_byte B (mt OR 25) g))
      else if val < 4294967296
      then put_byte B (byte 0) (put_byte B (byte 8) (put_byte B (byte 16) (put_byte B (byte 24) (put_byte B (mt OR 26) g))))
      else fold (\<lambda>s. put_byte B (byte s)) [56, 48, 40, 32, 24, 16, 8, 0] (put_byte B (mt OR 27) g))"

definition cbor_uint :: "buffers \<Rightarrow> u64 \<Rightarrow> guest \<Rightarrow> guest" where
  "cbor_uint B v g = cbor_head B 0 v g"

definition cbor_bytes :: "buffers \<Rightarrow> nat \<Rightarrow> i32 \<Rightarrow> guest \<Rightarrow> guest" where
  "cbor_bytes B b n g = put_bytes B b n (cbor_head B 2 (scast n) g)"

definition cbor_text :: "buffers \<Rightarrow> nat \<Rightarrow> i32 \<Rightarrow> guest \<Rightarrow> guest" where
  "cbor_text B b n g = put_bytes B b n (cbor_head B 3 (scast n) g)"

section \<open>The program\<close>

text \<open>A call of an import: it is noted with what it finds; a trap ends the program.\<close>

definition guest_call ::
  "crates \<Rightarrow> rp_store \<Rightarrow> (nat \<Rightarrow> host_env) \<Rightarrow> host_call \<Rightarrow> guest \<Rightarrow> i32 option \<times> guest" where
  "guest_call c d env call g =
     (let e = env (length (g_calls g));
          g1 = g\<lparr>g_calls := g_calls g @ [(e, hs_memory (g_state g), call)]\<rparr>
      in (case host_step c d e call (g_state g) of
            Inl _ \<Rightarrow> (None, g1)
          | Inr (hs, r) \<Rightarrow> (Some (ucast r), g1\<lparr>g_state := hs\<rparr>)))"

definition and_then :: "i32 option \<times> guest \<Rightarrow> (i32 \<Rightarrow> guest \<Rightarrow> i32 option \<times> guest) \<Rightarrow> i32 option \<times> guest" where
  "and_then m k = (case m of (None, g) \<Rightarrow> (None, g) | (Some r, g) \<Rightarrow> k r g)"

definition not_negative :: "i32 \<Rightarrow> i32" where
  "not_negative n = (if sint n < 0 then 0 else n)"

text \<open>Step 3 of \<open>_start\<close>: the record.\<close>

definition encode_record :: "buffers \<Rightarrow> i32 \<Rightarrow> i32 \<Rightarrow> i32 \<Rightarrow> i32 \<Rightarrow> i32 \<Rightarrow> guest \<Rightarrow> guest" where
  "encode_record B alen trusts depth plen nlen g =
     (let g = cbor_head B 5 5 g;
          g = cbor_bytes B (bf_attest B) alen (cbor_uint B 1 g);
          g = cbor_uint B (ucast trusts) (cbor_uint B 2 g);
          g = cbor_uint B (ucast depth) (cbor_uint B 3 g);
          g = cbor_bytes B (bf_parent B) plen (cbor_uint B 4 g)
      in cbor_text B (bf_node_addr B) nlen (cbor_uint B 5 g))"

definition map_start ::
  "buffers \<Rightarrow> crates \<Rightarrow> rp_store \<Rightarrow> (nat \<Rightarrow> host_env) \<Rightarrow> guest \<Rightarrow> i32 option \<times> guest" where
  "map_start B c d env g =
     and_then (guest_call c d env (CRandom (of_nat (bf_uuid B)) 16) g) (\<lambda>_ g.
     and_then (guest_call c d env (CSetForwardUuid (of_nat (bf_uuid B)) 16) g) (\<lambda>_ g.
     and_then (guest_call c d env (CSignedAttestation (of_nat (bf_attest B)) 1024) g) (\<lambda>alen g.
     and_then (guest_call c d env CTrustsMe g) (\<lambda>t g.
     and_then (guest_call c d env CDepth g) (\<lambda>depth g.
     and_then (guest_call c d env (CCallerPubkey (of_nat (bf_parent B)) 64) g) (\<lambda>plen g.
     and_then (guest_call c d env (CNodeAddr (of_nat (bf_node_addr B)) 64) g) (\<lambda>nlen g.
       let g = encode_record B (not_negative alen) (if t \<noteq> 0 then 1 else 0) (not_negative depth)
                 (not_negative plen) (not_negative nlen) g
       in guest_call c d env (CReturnMap (of_nat (bf_out B)) (of_nat (g_out_len g))) g)))))))"

section \<open>The reference encoding\<close>

definition be_bytes :: "nat \<Rightarrow> nat \<Rightarrow> bytes" where
  "be_bytes k n = map (\<lambda>i. of_nat (n div 256 ^ (k - 1 - i))) [0..<k]"

definition rfc_head :: "nat \<Rightarrow> nat \<Rightarrow> bytes" where
  "rfc_head major n =
     (if n < 24 then [of_nat (major * 32 + n)]
      else if n < 2 ^ 8 then of_nat (major * 32 + 24) # be_bytes 1 n
      else if n < 2 ^ 16 then of_nat (major * 32 + 25) # be_bytes 2 n
      else if n < 2 ^ 32 then of_nat (major * 32 + 26) # be_bytes 4 n
      else of_nat (major * 32 + 27) # be_bytes 8 n)"

text \<open>The items a record is made of.\<close>

fun rfc_item :: "cbor \<Rightarrow> bytes" where
  "rfc_item (CInteger i) = rfc_head 0 (nat i)"
| "rfc_item (CBytes b) = rfc_head 2 (length b) @ b"
| "rfc_item (CText s) = rfc_head 3 (length s) @ as_bytes s"
| "rfc_item _ = []"

definition rfc_map :: "(cbor \<times> cbor) list \<Rightarrow> bytes" where
  "rfc_map m = rfc_head 5 (length m) @ concat (map (\<lambda>(k, v). rfc_item k @ rfc_item v) m)"

text \<open>What the node says about itself, and the record made of it.\<close>

definition own_attestation :: "crates \<Rightarrow> rp_store \<Rightarrow> u64 \<Rightarrow> bytes option" where
  "own_attestation c d now =
     Option.bind (rp_signing_key d) (\<lambda>sk.
       build_attestation_cbor (ck_cbor c) (rp_hostname d) (rp_our_pubkey d) now
         (cr_sign (ck_crypto c) sk (attestation_signing_bytes (rp_hostname d) (rp_our_pubkey d) now)))"

definition node_record :: "crates \<Rightarrow> rp_store \<Rightarrow> u64 \<Rightarrow> (cbor \<times> cbor) list" where
  "node_record c d now =
     [(CInteger 1, CBytes (take 1024 (case own_attestation c d now of None \<Rightarrow> [] | Some b \<Rightarrow> b))),
      (CInteger 2, CInteger (if rp_readable d \<and> rp_program_is_trusted d then 1 else 0)),
      (CInteger 3, CInteger (max 0 (sint (ucast (rp_depth d) :: i32)))),
      (CInteger 4, CBytes (take 64 (rp_caller_pubkey d))),
      (CInteger 5, CText (take 64 (case rp_node_addr d of None \<Rightarrow> [] | Some s \<Rightarrow> s)))]"

section \<open>Memory lemmas\<close>

definition bytes_at :: "nat \<Rightarrow> nat \<Rightarrow> 'a list \<Rightarrow> 'a list" where
  "bytes_at p n xs = take n (drop p xs)"

definition store_at :: "nat \<Rightarrow> 'a list \<Rightarrow> 'a list \<Rightarrow> 'a list" where
  "store_at p ys xs = take p xs @ ys @ drop (p + length ys) xs"

lemma store_at_Nil [simp]: "store_at p [] xs = xs"
  by (simp add: store_at_def)

lemma length_store_at [simp]: "p + length ys \<le> length xs \<Longrightarrow> length (store_at p ys xs) = length xs"
  by (simp add: store_at_def)

lemma bytes_at_same: "p + length ys \<le> length xs \<Longrightarrow> bytes_at p (length ys) (store_at p ys xs) = ys"
  by (simp add: bytes_at_def store_at_def)

lemma bytes_at_apart:
  assumes "apart (q, n) (p, length ys)" and "p + length ys \<le> length xs"
  shows "bytes_at q n (store_at p ys xs) = bytes_at q n xs"
  using assms by (intro nth_equalityI) (auto simp: bytes_at_def store_at_def apart_def nth_append)

lemma store_store:
  assumes "p + length ys + length zs \<le> length xs"
  shows "store_at (p + length ys) zs (store_at p ys xs) = store_at p (ys @ zs) xs"
  using assms by (simp add: store_at_def ac_simps)

lemma list_update_store: "p < length xs \<Longrightarrow> xs[p := y] = store_at p [y] xs"
  by (simp add: store_at_def upd_conv_take_nth_drop)

section \<open>What the builder writes\<close>

definition emitted :: "buffers \<Rightarrow> bytes \<Rightarrow> guest \<Rightarrow> guest" where
  "emitted B bs g = g\<lparr>g_state := (g_state g)\<lparr>hs_memory :=
       map_option (store_at (bf_out B + g_out_len g) bs) (hs_memory (g_state g))\<rparr>,
     g_out_len := g_out_len g + length bs\<rparr>"

definition has_room :: "buffers \<Rightarrow> nat \<Rightarrow> guest \<Rightarrow> bool" where
  "has_room B n g \<longleftrightarrow> g_out_len g + n \<le> 16384 \<and>
     (\<exists>mem. hs_memory (g_state g) = Some mem \<and> bf_out B + 16384 \<le> length mem)"

lemma emitted_Nil [simp]: "emitted B [] g = g"
  by (cases "hs_memory (g_state g)") (simp_all add: emitted_def)

lemma has_room_emitted: "has_room B (length bs + n) g \<Longrightarrow> has_room B n (emitted B bs g)"
  by (auto simp: has_room_def emitted_def)

lemma emitted_emitted:
  "has_room B (length bs + length cs) g \<Longrightarrow> emitted B cs (emitted B bs g) = emitted B (bs @ cs) g"
  by (auto simp: has_room_def emitted_def store_store [symmetric] add.assoc)

lemma put_byte_emitted: "has_room B (Suc n) g \<Longrightarrow> put_byte B b g = emitted B [b] g"
  by (auto simp: has_room_def put_byte_def poke_def emitted_def list_update_store)

lemma put_byte_after:
  "has_room B (Suc (length bs)) g \<Longrightarrow> put_byte B b (emitted B bs g) = emitted B (bs @ [b]) g"
  using put_byte_emitted [OF has_room_emitted [of B bs "Suc 0"]] emitted_emitted [of B bs "[b]" g] by simp

lemma put_bytes_from_emitted:
  assumes "has_room B k g" and "hs_memory (g_state g) = Some mem"
    and "apart (src + i, k) (bf_out B, 16384)" and "src + i + k \<le> length mem"
  shows "put_bytes_from B src i k g = emitted B (bytes_at (src + i) k mem) g"
  using assms
proof (induction k arbitrary: i g mem)
  case (Suc k)
  let ?b = "mem ! (src + i)"
  have e: "(poke (bf_out B + g_out_len g) (peek (src + i) g) g)\<lparr>g_out_len := g_out_len g + 1\<rparr> = emitted B [?b] g"
    using Suc.prems(1,2) by (auto simp: has_room_def peek_def poke_def emitted_def list_update_store)
  let ?mem = "store_at (bf_out B + g_out_len g) [?b] mem"
  have l: "bf_out B + g_out_len g + 1 \<le> length mem" "g_out_len g < 16384"
    using Suc.prems(1,2) by (auto simp: has_room_def)
  have "put_bytes_from B src (i + 1) k (emitted B [?b] g) = emitted B (bytes_at (src + (i + 1)) k ?mem) (emitted B [?b] g)"
    using Suc.prems l has_room_emitted [of B "[?b]" k g]
    by (intro Suc.IH) (auto simp: emitted_def apart_def)
  also have "bytes_at (src + (i + 1)) k ?mem = bytes_at (src + (i + 1)) k mem"
    using Suc.prems l by (intro bytes_at_apart) (auto simp: apart_def)
  also have "emitted B (bytes_at (src + (i + 1)) k mem) (emitted B [?b] g) = emitted B (?b # bytes_at (src + (i + 1)) k mem) g"
    using Suc.prems by (subst emitted_emitted) (auto simp: bytes_at_def)
  also have "?b # bytes_at (src + (i + 1)) k mem = bytes_at (src + i) (Suc k) mem"
    using Suc.prems by (simp add: bytes_at_def Cons_nth_drop_Suc [symmetric])
  finally show ?case using l by (simp only: put_bytes_from.simps e if_True)
qed (simp add: bytes_at_def)

text \<open>Shifts and masks against division.\<close>

lemma be_bytes_simps:
  "be_bytes 1 n = [of_nat n]" "be_bytes 2 n = [of_nat (n div 2 ^ 8), of_nat n]"
  "be_bytes 4 n = [of_nat (n div 2 ^ 24), of_nat (n div 2 ^ 16), of_nat (n div 2 ^ 8), of_nat n]"
  "be_bytes 8 n = map (\<lambda>s. of_nat (n div 2 ^ s)) [56, 48, 40, 32, 24, 16, 8, 0]"
  by (simp_all add: be_bytes_def upt_conv_Cons)

lemma shifted_byte: "(ucast (drop_bit s val) :: u8) = of_nat (unat val div 2 ^ s)" for val :: u64
  by (simp add: drop_bit_eq_div [symmetric] unat_drop_bit_eq [symmetric])

lemma initial_byte:
  assumes "n < 32"
  shows "(push_bit 5 (of_nat m) :: u8) OR of_nat n = of_nat (m * 32 + n)"
proof -
  have nb: "\<not> bit n i" if "5 \<le> i" for i
  proof -
    have "(2::nat) ^ 5 \<le> 2 ^ i" using that by (rule power_increasing) simp
    with assms show ?thesis by (simp add: bit_iff_odd)
  qed
  have "(push_bit 5 (of_nat m) :: u8) AND of_nat n = 0"
    by (rule bit_word_eqI) (use nb in \<open>auto simp: bit_simps\<close>)
  then have "(push_bit 5 (of_nat m) :: u8) OR of_nat n = push_bit 5 (of_nat m) + of_nat n"
    by (simp add: disjunctive_add_eq_or)
  then show ?thesis by (simp add: push_bit_eq_mult)
qed
lemma fold_put_byte: "has_room B (length bs) g \<Longrightarrow> fold (put_byte B) bs g = emitted B bs g"
proof (induction bs rule: rev_induct)
  case (snoc b bs)
  from snoc.prems have "has_room B (length bs) g" by (auto simp: has_room_def)
  with snoc show ?case by (simp add: put_byte_after)
qed simp

lemma cbor_head_emitted:
  assumes "has_room B 9 g"
  shows "cbor_head B major val g = emitted B (rfc_head major (unat val)) g"
proof -
  let ?mt = "push_bit 5 (of_nat major) :: u8" and ?b = "\<lambda>s. of_nat (unat val div 2 ^ s) :: u8"
  let ?bytes = "if val < 24 then [?mt OR ucast val] else if val < 256 then [?mt OR 24, ?b 0]
    else if val < 65536 then [?mt OR 25, ?b 8, ?b 0] else if val < 4294967296 then [?mt OR 26, ?b 24, ?b 16, ?b 8, ?b 0]
    else (?mt OR 27) # map ?b [56, 48, 40, 32, 24, 16, 8, 0]"
  have "cbor_head B major val g = fold (put_byte B) ?bytes g"
    by (simp add: cbor_head_def Let_def shifted_byte)
  also have "\<dots> = emitted B ?bytes g"
    using assms by (intro fold_put_byte) (auto simp: has_room_def)
  also have "?bytes = rfc_head major (unat val)"
  proof -
    have less: "val < 24 \<longleftrightarrow> unat val < 24" "val < 256 \<longleftrightarrow> unat val < 2 ^ 8" "val < 65536 \<longleftrightarrow> unat val < 2 ^ 16"
      "val < 4294967296 \<longleftrightarrow> unat val < 2 ^ 32"
      by (simp_all add: word_less_nat_alt)
    have small: "?mt OR ucast val = of_nat (major * 32 + unat val)" if "unat val < 24"
      using initial_byte [of "unat val" major] that by simp
    show ?thesis
      using initial_byte [of 24 major] initial_byte [of 25 major] initial_byte [of 26 major] initial_byte [of 27 major]
      by (simp only: less rfc_head_def be_bytes_simps) (use small in \<open>simp add: mult.commute\<close>)
  qed
  finally show ?thesis .
qed

text \<open>What a region of the memory holds; the builder leaves the regions apart from \<open>out\<close> alone.\<close>

definition region :: "nat \<Rightarrow> nat \<Rightarrow> guest \<Rightarrow> bytes" where
  "region p n g = (case hs_memory (g_state g) of Some mem \<Rightarrow> bytes_at p n mem | None \<Rightarrow> [])"

definition inside :: "buffers \<Rightarrow> nat \<times> nat \<Rightarrow> guest \<Rightarrow> bool" where
  "inside B r g \<longleftrightarrow> apart r (bf_out B, 16384) \<and>
     (\<exists>mem. hs_memory (g_state g) = Some mem \<and> fst r + snd r \<le> length mem)"

lemma has_room_mono: "has_room B m g \<Longrightarrow> n \<le> m \<Longrightarrow> has_room B n g"
  by (auto simp: has_room_def)

lemma region_emitted:
  assumes "has_room B (length bs) g" and "inside B (p, n) g"
  shows "region p n (emitted B bs g) = region p n g" and "inside B (p, n) (emitted B bs g)"
proof -
  obtain mem where mem: "hs_memory (g_state g) = Some mem" and out: "bf_out B + g_out_len g + length bs \<le> length mem"
    and len: "g_out_len g + length bs \<le> 16384" using assms(1) by (auto simp: has_room_def)
  have "apart (p, n) (bf_out B + g_out_len g, length bs)"
    using assms(2) len by (auto simp: inside_def apart_def)
  with mem out assms(2) show "region p n (emitted B bs g) = region p n g" "inside B (p, n) (emitted B bs g)"
    by (auto simp: region_def inside_def emitted_def bytes_at_apart)
qed

lemma length_rfc_head: "length (rfc_head m n) \<le> 9"
  by (simp add: rfc_head_def be_bytes_def)

lemma cbor_head_after:
  assumes "has_room B (length bs + 9) g"
  shows "cbor_head B m v (emitted B bs g) = emitted B (bs @ rfc_head m (unat v)) g"
proof -
  have "has_room B (length bs + length (rfc_head m (unat v))) g"
    using assms length_rfc_head [of m "unat v"] by (intro has_room_mono [OF assms]) simp
  then show ?thesis using assms by (simp add: cbor_head_emitted has_room_emitted emitted_emitted)
qed

lemma sint_of_nat_i32: "k < 2 ^ 31 \<Longrightarrow> sint (of_nat k :: i32) = int k"
  by (simp add: signed_of_nat signed_take_bit_int_eq_self)

lemma unat_scast_of_nat:
  assumes "k < 2 ^ 31"
  shows "unat (scast (of_nat k :: i32) :: u64) = k"
proof -
  have "uint (scast (of_nat k :: i32) :: u64) = int k"
    unfolding print_range_uint(1) sint_of_nat_i32 [OF assms] by simp
  then show ?thesis by (simp only: unat_eq_nat_uint nat_int)
qed

text \<open>\<open>builds B g n f bs\<close>: after whatever was written before, \<open>f\<close> appends \<open>bs\<close>, at most \<open>n\<close> bytes.\<close>

definition builds :: "buffers \<Rightarrow> guest \<Rightarrow> nat \<Rightarrow> (guest \<Rightarrow> guest) \<Rightarrow> bytes \<Rightarrow> bool" where
  "builds B g n f bs \<longleftrightarrow> length bs \<le> n \<and>
     (\<forall>before. has_room B (length before + n) g \<longrightarrow> f (emitted B before g) = emitted B (before @ bs) g)"

lemma builds_then:
  assumes "builds B g n f bs" and "builds B g m h cs"
  shows "builds B g (n + m) (\<lambda>x. h (f x)) (bs @ cs)"
proof -
  have "h (f (emitted B before g)) = emitted B (before @ bs @ cs) g"
    if room: "has_room B (length before + (n + m)) g" for before
  proof -
    have "has_room B (length before + n) g" "has_room B (length (before @ bs) + m) g"
      using assms(1) by (auto simp: builds_def intro: has_room_mono [OF room])
    then show ?thesis using assms by (simp add: builds_def)
  qed
  then show ?thesis using assms by (simp add: builds_def)
qed

lemma builds_head: "builds B g 9 (cbor_head B m v) (rfc_head m (unat v))"
  by (simp add: builds_def length_rfc_head cbor_head_after)

lemma builds_uint: "builds B g 9 (cbor_uint B v) (rfc_head 0 (unat v))"
proof -
  have "cbor_uint B v = cbor_head B 0 v" by (rule ext) (simp add: cbor_uint_def)
  then show ?thesis by (simp only: builds_head)
qed

lemma builds_chunk:
  assumes "inside B (p, k) g" and "k < 2 ^ 31"
  shows "builds B g (9 + k) (\<lambda>x. put_bytes B p (of_nat k) (cbor_head B m (scast (of_nat k :: i32)) x))
    (rfc_head m k @ region p k g)"
proof (rule builds_then [OF builds_head [where v = "scast (of_nat k :: i32)", unfolded unat_scast_of_nat [OF assms(2)]]])
  have short: "length (region p k g) \<le> k"
    by (auto simp: region_def bytes_at_def split: option.split)
  have "put_bytes B p (of_nat k) (emitted B before g) = emitted B (before @ region p k g) g"
    if room: "has_room B (length before + k) g" for before
  proof -
    have here: "inside B (p, k) (emitted B before g)" "region p k (emitted B before g) = region p k g"
      using region_emitted [OF has_room_mono [OF room] assms(1)] by simp_all
    then obtain mem where mem: "hs_memory (g_state (emitted B before g)) = Some mem" "p + k \<le> length mem"
      "apart (p, k) (bf_out B, 16384)" by (auto simp: inside_def)
    have "put_bytes B p (of_nat k) (emitted B before g) = emitted B (bytes_at p k mem) (emitted B before g)"
      using put_bytes_from_emitted [OF has_room_emitted [OF room] mem(1), of p 0] mem(2,3) assms(2)
      by (simp add: put_bytes_def clamp0_of_nat)
    moreover have "bytes_at p k mem = region p k g" using here(2) mem(1) by (simp add: region_def)
    moreover have "has_room B (length before + length (region p k g)) g"
      using short by (intro has_room_mono [OF room]) simp
    ultimately show ?thesis by (simp add: emitted_emitted)
  qed
  with short show "builds B g k (put_bytes B p (of_nat k)) (region p k g)" by (simp add: builds_def)
qed

lemmas builds_bytes = builds_chunk [where m = 2, folded cbor_bytes_def]
lemmas builds_text = builds_chunk [where m = 3, folded cbor_text_def]

lemma encode_record_emitted:
  assumes "has_room B 2000 g" and "inside B (bf_attest B, alen) g" and "inside B (bf_parent B, plen) g"
    and "inside B (bf_node_addr B, nlen) g" and "alen \<le> 1024" and "plen \<le> 64" and "nlen \<le> 64"
  shows "encode_record B (of_nat alen) trusts depth (of_nat plen) (of_nat nlen) g =
    emitted B (rfc_head 5 5 @
      rfc_head 0 1 @ (rfc_head 2 alen @ region (bf_attest B) alen g) @
      rfc_head 0 2 @ rfc_head 0 (unat trusts) @
      rfc_head 0 3 @ rfc_head 0 (unat depth) @
      rfc_head 0 4 @ (rfc_head 2 plen @ region (bf_parent B) plen g) @
      rfc_head 0 5 @ (rfc_head 3 nlen @ region (bf_node_addr B) nlen g)) g"
proof -
  have k: "alen < 2 ^ 31" "plen < 2 ^ 31" "nlen < 2 ^ 31" using assms(5-7) by simp_all
  have u: "unat (ucast x :: u64) = unat x" for x :: i32 by transfer simp
  have n: "unat (2 :: u64) = 2" "unat (3 :: u64) = 3" "unat (4 :: u64) = 4" "unat (5 :: u64) = 5" by simp_all
  note 1 = builds_then [OF builds_then [OF builds_head [of B g 5 5] builds_uint [of B g 1]] builds_bytes [OF assms(2) k(1)]]
  note 2 = builds_then [OF builds_then [OF 1 builds_uint [of B g 2]] builds_uint [of B g "ucast trusts"]]
  note 3 = builds_then [OF builds_then [OF 2 builds_uint [of B g 3]] builds_uint [of B g "ucast depth"]]
  note 4 = builds_then [OF builds_then [OF 3 builds_uint [of B g 4]] builds_bytes [OF assms(3) k(2)]]
  note 5 = builds_then [OF builds_then [OF 4 builds_uint [of B g 5]] builds_text [OF assms(4) k(3)]]
  from 5 [unfolded builds_def, THEN conjunct2, rule_format, of "[]"] show ?thesis
    using has_room_mono [OF assms(1)] assms(5-7) by (simp add: encode_record_def u n)
qed

section \<open>The calls\<close>

lemma apart_sym: "apart r s \<longleftrightarrow> apart s r"
  by (auto simp: apart_def)

lemma apart_mono: "apart (q, n) (p, k) \<Longrightarrow> n' \<le> n \<Longrightarrow> k' \<le> k \<Longrightarrow> apart (q, n') (p, k')"
  by (auto simp: apart_def)

lemma write_out_store:
  assumes "hs_memory hs = Some mem" and "p + cap \<le> length mem" and "p + cap < 2 ^ 31" and "clamp0 w = cap"
  shows "write_out (of_nat p) w src hs =
    Inr (hs\<lparr>hs_memory := Some (store_at p (take cap src) mem)\<rparr>, scast (of_nat (length (take cap src)) :: i32))"
proof -
  have p: "clamp0 (of_nat p) = p" by (rule clamp0_of_nat) (use assms(3) in simp)
  have "p + min (length src) cap \<le> length mem" using assms(2) by linarith
  moreover have "take (min (length src) cap) src = take cap src" by (simp add: min_def)
  ultimately show ?thesis
    by (simp add: write_out_def write_guest_bytes_def Let_def assms(1,4) p store_at_def)
qed

lemma read_back:
  assumes "hs_memory hs = Some mem" and "p + n \<le> length mem" and "p + n < 2 ^ 31" and "clamp0 w = n"
  shows "with_guest_bytes (of_nat p) w hs k = k (bytes_at p n mem)"
proof -
  have p: "clamp0 (of_nat p) = p" by (rule clamp0_of_nat) (use assms(3) in simp)
  then show ?thesis using assms by (simp add: with_guest_bytes_def read_guest_bytes_def Let_def bytes_at_def)
qed

text \<open>The state between two calls: how many were made, nothing written yet.\<close>

definition after_calls :: "nat \<Rightarrow> host_state \<Rightarrow> guest \<Rightarrow> bool" where
  "after_calls i hs g \<longleftrightarrow> g_state g = hs \<and> g_out_len g = 0 \<and> length (g_calls g) = i"

lemma call_returns:
  assumes "after_calls i hs g" and "host_step c d (env i) call hs = Inr (hs', scast r)" and "j = Suc i"
  obtains g' where "guest_call c d env call g = (Some r, g')" and "after_calls j hs' g'"
  using assms by (simp add: guest_call_def after_calls_def Let_def ucast_scast_i32)

lemma not_negative_simps [simp]: "not_negative (- 1) = 0" "k < 2 ^ 31 \<Longrightarrow> not_negative (of_nat k) = of_nat k"
  by (simp_all add: not_negative_def sint_of_nat_i32 del: of_nat_numeral)

lemma unat_not_negative: "unat (not_negative x) = nat (max 0 (sint x))"
proof (cases "0 \<le> sint x")
  case True
  have "uint x = sint x"
    using True sint_less [of x] by (simp add: uint_sint take_bit_int_eq_self)
  then show ?thesis using True by (simp add: not_negative_def unat_eq_nat_uint)
qed (simp add: not_negative_def)

lemma optional_fill:
  assumes "hs_memory hs = Some mem" and "p + cap \<le> length mem" and "p + cap < 2 ^ 31" and "clamp0 w = cap"
  obtains r where "(case v of Some bs \<Rightarrow> write_out (of_nat p) w bs hs | None \<Rightarrow> return_i32 (- 1) hs) =
      Inr (hs\<lparr>hs_memory := Some (store_at p (take cap (case v of None \<Rightarrow> [] | Some bs \<Rightarrow> bs)) mem)\<rparr>, scast r)"
    and "not_negative r = of_nat (length (take cap (case v of None \<Rightarrow> [] | Some bs \<Rightarrow> bs)))"
proof (cases v)
  case None
  then show ?thesis using assms(1) that [of "- 1"] by (simp add: return_i32_def)
next
  case (Some bs)
  have "length (take cap bs) < 2 ^ 31" using assms(3) by simp
  then show ?thesis
    using that [of "of_nat (length (take cap bs))"] write_out_store [OF assms, of bs]
    by (simp only: Some option.case not_negative_simps)
qed

lemma clamp0_numerals: "clamp0 16 = 16" "clamp0 64 = 64" "clamp0 1024 = 1024"
  using clamp0_of_nat [of 16] clamp0_of_nat [of 64] clamp0_of_nat [of 1024] by simp_all

lemma placed_apart:
  assumes "placed B mem"
  shows "apart (bf_attest B, 1024) (bf_out B, 16384)" "apart (bf_parent B, 64) (bf_out B, 16384)"
    "apart (bf_node_addr B, 64) (bf_out B, 16384)" "apart (bf_attest B, 1024) (bf_parent B, 64)"
    "apart (bf_attest B, 1024) (bf_node_addr B, 64)" "apart (bf_parent B, 64) (bf_node_addr B, 64)"
  using assms unfolding placed_def regions_def by (auto simp: apart_sym)

lemma placed_ends:
  assumes "placed B mem"
  shows "bf_out B + 16384 \<le> length mem" "bf_out B + 16384 < 2 ^ 31"
    "bf_attest B + 1024 \<le> length mem" "bf_attest B + 1024 < 2 ^ 31" "bf_parent B + 64 \<le> length mem"
    "bf_parent B + 64 < 2 ^ 31" "bf_uuid B + 16 \<le> length mem" "bf_uuid B + 16 < 2 ^ 31"
    "bf_node_addr B + 64 \<le> length mem" "bf_node_addr B + 64 < 2 ^ 31"
  using assms unfolding placed_def regions_def by simp_all

text \<open>The memory after the calls that fill the three arrays.\<close>

definition attest_bytes :: "crates \<Rightarrow> rp_store \<Rightarrow> u64 \<Rightarrow> bytes" where
  "attest_bytes c d now = take 1024 (case own_attestation c d now of None \<Rightarrow> [] | Some b \<Rightarrow> b)"

definition key_bytes :: "rp_store \<Rightarrow> bytes" where
  "key_bytes d = take 64 (rp_caller_pubkey d)"

definition addr_bytes :: "rp_store \<Rightarrow> bytes" where
  "addr_bytes d = take 64 (case map_option as_bytes (rp_node_addr d) of None \<Rightarrow> [] | Some b \<Rightarrow> b)"

definition with_facts :: "buffers \<Rightarrow> crates \<Rightarrow> rp_store \<Rightarrow> u64 \<Rightarrow> bytes \<Rightarrow> bytes" where
  "with_facts B c d now mem = store_at (bf_node_addr B) (addr_bytes d)
     (store_at (bf_parent B) (key_bytes d) (store_at (bf_attest B) (attest_bytes c d now) mem))"

lemma fact_lengths: "length (attest_bytes c d now) \<le> 1024" "length (key_bytes d) \<le> 64" "length (addr_bytes d) \<le> 64"
  by (simp_all add: attest_bytes_def key_bytes_def addr_bytes_def)

lemma stored_fits: "p + cap \<le> length mem \<Longrightarrow> length bs \<le> cap \<Longrightarrow> length (store_at p bs mem) = length mem"
  by (rule length_store_at) simp

lemma with_facts_regions:
  fixes c :: crates and d :: rp_store and now :: u64 and mem :: bytes
  assumes "placed B mem"
  defines "m7 \<equiv> with_facts B c d now mem"
  shows "bytes_at (bf_attest B) (length (attest_bytes c d now)) m7 = attest_bytes c d now"
    and "bytes_at (bf_parent B) (length (key_bytes d)) m7 = key_bytes d"
    and "bytes_at (bf_node_addr B) (length (addr_bytes d)) m7 = addr_bytes d" and "length m7 = length mem"
proof -
  note e = placed_ends [OF assms(1)] and a = placed_apart [OF assms(1)] and f = fact_lengths
  let ?m3 = "store_at (bf_attest B) (attest_bytes c d now) mem"
  let ?m6 = "store_at (bf_parent B) (key_bytes d) ?m3"
  have l3: "length ?m3 = length mem" using e(3) f(1) by (rule stored_fits)
  have l6: "length ?m6 = length mem" using stored_fits [OF _ f(2)] e(5) l3 by simp
  show "length m7 = length mem" unfolding m7_def with_facts_def using stored_fits [OF _ f(3)] e(9) l6 by simp
  have ap: "apart (bf_attest B, length (attest_bytes c d now)) (bf_parent B, length (key_bytes d))"
    "apart (bf_attest B, length (attest_bytes c d now)) (bf_node_addr B, length (addr_bytes d))"
    "apart (bf_parent B, length (key_bytes d)) (bf_node_addr B, length (addr_bytes d))"
    by (rule apart_mono [OF a(4)] apart_mono [OF a(5)] apart_mono [OF a(6)]; rule f)+
  have en: "bf_parent B + length (key_bytes d) \<le> length ?m3" "bf_node_addr B + length (addr_bytes d) \<le> length ?m6"
    "bf_attest B + length (attest_bytes c d now) \<le> length mem"
    using e l3 l6 f(1) [of c d now] f(2,3) [of d] by simp_all
  show "bytes_at (bf_attest B) (length (attest_bytes c d now)) m7 = attest_bytes c d now"
    unfolding m7_def with_facts_def bytes_at_apart [OF ap(2) en(2)] bytes_at_apart [OF ap(1) en(1)]
    by (rule bytes_at_same [OF en(3)])
  show "bytes_at (bf_parent B) (length (key_bytes d)) m7 = key_bytes d"
    unfolding m7_def with_facts_def bytes_at_apart [OF ap(3) en(2)] by (rule bytes_at_same [OF en(1)])
  show "bytes_at (bf_node_addr B) (length (addr_bytes d)) m7 = addr_bytes d"
    unfolding m7_def with_facts_def by (rule bytes_at_same [OF en(2)])
qed

lemma node_record_bytes:
  "rfc_map (node_record c d now) = rfc_head 5 5 @
     rfc_head 0 1 @ (rfc_head 2 (length (attest_bytes c d now)) @ attest_bytes c d now) @
     rfc_head 0 2 @ rfc_head 0 (if rp_readable d \<and> rp_program_is_trusted d then 1 else 0) @
     rfc_head 0 3 @ rfc_head 0 (nat (max 0 (sint (ucast (rp_depth d) :: i32)))) @
     rfc_head 0 4 @ (rfc_head 2 (length (key_bytes d)) @ key_bytes d) @
     rfc_head 0 5 @ (rfc_head 3 (length (addr_bytes d)) @ addr_bytes d)"
proof -
  have five: "length [a, b, x, y, z] = 5" for a b x y z :: "cbor \<times> cbor" by simp
  show ?thesis
    unfolding rfc_map_def node_record_def five
    by (simp add: attest_bytes_def key_bytes_def addr_bytes_def as_bytes_def take_map split: option.split)
qed

text \<open>The calls before the record is built: two for the forwarding uuid, five for the facts.\<close>

lemma attestation_call:
  "host_step c d e (CSignedAttestation p cap) hs =
     (case own_attestation c d (he_now e) of Some bs \<Rightarrow> write_out p cap bs hs | None \<Rightarrow> return_i32 (- 1) hs)"
  by (cases "rp_signing_key d") (simp_all add: host_signed_attestation_def own_attestation_def Let_def)

lemma node_addr_call:
  "host_step c d e (CNodeAddr p cap) hs =
     (case map_option as_bytes (rp_node_addr d) of Some bs \<Rightarrow> write_out p cap bs hs | None \<Rightarrow> return_i32 (- 1) hs)"
  by (cases "rp_node_addr d") (simp_all add: host_node_addr_def write_text_option_def)

lemma uuid_calls:
  assumes "placed B mem" and "hs_memory hs = Some mem" and "length (he_random (env 0) 16) = 16"
  obtains g1 g2 r where "guest_call c d env (CRandom (of_nat (bf_uuid B)) 16) (guest_start hs) = (Some r, g1)"
    and "guest_call c d env (CSetForwardUuid (of_nat (bf_uuid B)) 16) g1 = (Some 0, g2)"
    and "after_calls 2 (hs\<lparr>hs_memory := Some (store_at (bf_uuid B) (he_random (env 0) 16) mem),
           hs_forward_uuid := Some (he_random (env 0) 16)\<rparr>) g2"
proof -
  note e = placed_ends [OF assms(1)] and cl = clamp0_numerals
  let ?rnd = "he_random (env 0) 16"
  let ?m1 = "store_at (bf_uuid B) ?rnd mem"
  let ?s1 = "hs\<lparr>hs_memory := Some ?m1\<rparr>"
  have g0: "after_calls 0 hs (guest_start hs)" by (simp add: after_calls_def guest_start_def)
  have "host_step c d (env 0) (CRandom (of_nat (bf_uuid B)) 16) hs = Inr (?s1, scast (of_nat (length ?rnd) :: i32))"
    using write_out_store [of hs mem "bf_uuid B" 16 16 ?rnd] e assms by (simp add: host_random_def cl)
  from call_returns [where env = env and j = 1, OF g0 this] obtain g1 where
    g1: "guest_call c d env (CRandom (of_nat (bf_uuid B)) 16) (guest_start hs) = (Some (of_nat (length ?rnd)), g1)"
      "after_calls 1 ?s1 g1" by auto
  have "bytes_at (bf_uuid B) 16 ?m1 = ?rnd" using bytes_at_same [of "bf_uuid B" ?rnd mem] e(7) assms(3) by simp
  then have "host_step c d (env 1) (CSetForwardUuid (of_nat (bf_uuid B)) 16) ?s1 =
      Inr (?s1\<lparr>hs_forward_uuid := Some ?rnd\<rparr>, scast (0 :: i32))"
    using read_back [of ?s1 ?m1 "bf_uuid B" 16 16] e assms(3)
    by (simp add: host_set_forward_uuid_def cl return_i32_def)
  from call_returns [where env = env and j = 2, OF g1(2) this] g1(1) that show thesis by auto
qed

lemma placed_cong: "length mem' = length mem \<Longrightarrow> placed B mem' = placed B mem"
  by (simp add: placed_def)

lemma attestation_filled:
  assumes "placed B mem" and "hs_memory hs = Some mem"
  obtains r where "host_step c d e (CSignedAttestation (of_nat (bf_attest B)) 1024) hs =
      Inr (hs\<lparr>hs_memory := Some (store_at (bf_attest B) (attest_bytes c d (he_now e)) mem)\<rparr>, scast r)"
    and "not_negative r = of_nat (length (attest_bytes c d (he_now e)))"
    and "placed B (store_at (bf_attest B) (attest_bytes c d (he_now e)) mem)"
proof -
  have p: "placed B (store_at (bf_attest B) (attest_bytes c d (he_now e)) mem)"
    using placed_cong [OF stored_fits [OF placed_ends(3) [OF assms(1)] fact_lengths(1)]] assms(1) by blast
  show thesis
    using optional_fill [OF assms(2) placed_ends(3,4) [OF assms(1)] clamp0_numerals(3), of "own_attestation c d (he_now e)"] that [OF _ _ p]
    unfolding attestation_call attest_bytes_def by blast
qed

lemma caller_filled:
  assumes "placed B mem" and "hs_memory hs = Some mem"
  shows "host_step c d e (CCallerPubkey (of_nat (bf_parent B)) 64) hs =
      Inr (hs\<lparr>hs_memory := Some (store_at (bf_parent B) (key_bytes d) mem)\<rparr>, scast (of_nat (length (key_bytes d)) :: i32))"
    and "placed B (store_at (bf_parent B) (key_bytes d) mem)"
  using write_out_store [OF assms(2) placed_ends(5,6) [OF assms(1)] clamp0_numerals(2)]
    placed_cong [OF stored_fits [OF placed_ends(5) [OF assms(1)] fact_lengths(2)]] assms(1)
  by (simp_all add: host_caller_pubkey_def key_bytes_def)

lemma addr_filled:
  assumes "placed B mem" and "hs_memory hs = Some mem"
  obtains r where "host_step c d e (CNodeAddr (of_nat (bf_node_addr B)) 64) hs =
      Inr (hs\<lparr>hs_memory := Some (store_at (bf_node_addr B) (addr_bytes d) mem)\<rparr>, scast r)"
    and "not_negative r = of_nat (length (addr_bytes d))"
  using optional_fill [OF assms(2) placed_ends(9,10) [OF assms(1)] clamp0_numerals(2), of "map_option as_bytes (rp_node_addr d)"] that
  unfolding node_addr_call addr_bytes_def by blast

lemma fact_calls:
  assumes "placed B mem" and "hs_memory hs = Some mem" and g2: "after_calls 2 hs g2"
  obtains g3 g4 g5 g6 g7 r3 r7 where
    "guest_call c d env (CSignedAttestation (of_nat (bf_attest B)) 1024) g2 = (Some r3, g3)"
    "guest_call c d env CTrustsMe g3 = (Some (if rp_readable d \<and> rp_program_is_trusted d then 1 else 0), g4)"
    "guest_call c d env CDepth g4 = (Some (ucast (rp_depth d)), g5)"
    "guest_call c d env (CCallerPubkey (of_nat (bf_parent B)) 64) g5 = (Some (of_nat (length (key_bytes d))), g6)"
    "guest_call c d env (CNodeAddr (of_nat (bf_node_addr B)) 64) g6 = (Some r7, g7)"
    "not_negative r3 = of_nat (length (attest_bytes c d (he_now (env 2))))"
    "not_negative r7 = of_nat (length (addr_bytes d))"
    "after_calls 7 (hs\<lparr>hs_memory := Some (with_facts B c d (he_now (env 2)) mem)\<rparr>) g7"
proof -
  let ?m3 = "store_at (bf_attest B) (attest_bytes c d (he_now (env 2))) mem"
  let ?s3 = "hs\<lparr>hs_memory := Some ?m3\<rparr>"
  let ?s6 = "?s3\<lparr>hs_memory := Some (store_at (bf_parent B) (key_bytes d) ?m3)\<rparr>"
  obtain r3 where h3: "host_step c d (env 2) (CSignedAttestation (of_nat (bf_attest B)) 1024) hs = Inr (?s3, scast r3)"
    and r3: "not_negative r3 = of_nat (length (attest_bytes c d (he_now (env 2))))" and p3: "placed B ?m3"
    by (rule attestation_filled [OF assms(1,2)])
  from call_returns [where env = env and j = 3, OF g2 h3] obtain g3 where
    g3: "guest_call c d env (CSignedAttestation (of_nat (bf_attest B)) 1024) g2 = (Some r3, g3)" "after_calls 3 ?s3 g3" by auto
  let ?t = "if rp_readable d \<and> rp_program_is_trusted d then 1 else 0 :: i32"
  have "host_step c d (env 3) CTrustsMe ?s3 = Inr (?s3, scast ?t)"
    by (simp add: host_trusts_me_def return_i32_def)
  from call_returns [where env = env and j = 4, OF g3(2) this] obtain g4 where
    g4: "guest_call c d env CTrustsMe g3 = (Some ?t, g4)" "after_calls 4 ?s3 g4" by auto
  have "host_step c d (env 4) CDepth ?s3 = Inr (?s3, scast (ucast (rp_depth d) :: i32))"
    by (simp add: host_depth_def return_i32_def)
  from call_returns [where env = env and j = 5, OF g4(2) this] obtain g5 where
    g5: "guest_call c d env CDepth g4 = (Some (ucast (rp_depth d)), g5)" "after_calls 5 ?s3 g5" by auto
  have m3: "hs_memory ?s3 = Some ?m3" by simp
  from call_returns [where env = env and j = 6, OF g5(2) caller_filled(1) [OF p3 m3]] obtain g6 where
    g6: "guest_call c d env (CCallerPubkey (of_nat (bf_parent B)) 64) g5 = (Some (of_nat (length (key_bytes d))), g6)"
      "after_calls 6 ?s6 g6" by auto
  obtain r7 where h7: "host_step c d (env 6) (CNodeAddr (of_nat (bf_node_addr B)) 64) ?s6 =
      Inr (?s6\<lparr>hs_memory := Some (with_facts B c d (he_now (env 2)) mem)\<rparr>, scast r7)"
    and r7: "not_negative r7 = of_nat (length (addr_bytes d))"
    unfolding with_facts_def by (rule addr_filled [where c = c and d = d and e = "env 6" and hs = ?s6, OF caller_filled(2) [OF p3 m3]]) auto
  from call_returns [where env = env and j = 7, OF g6(2) h7] that [OF g3(1) g4(1) g5(1) g6(1) _ r3 r7]
  show thesis by auto
qed

lemma node_record_short: "length (rfc_map (node_record c d now)) \<le> 2000"
  using fact_lengths(1) [of c d now] fact_lengths(2,3) [of d] length_rfc_head [of 5 5] length_rfc_head [of 0 1]
    length_rfc_head [of 0 2] length_rfc_head [of 0 3] length_rfc_head [of 0 4] length_rfc_head [of 0 5]
    length_rfc_head [of 2 "length (attest_bytes c d now)"] length_rfc_head [of 2 "length (key_bytes d)"]
    length_rfc_head [of 3 "length (addr_bytes d)"]
    length_rfc_head [of 0 "if rp_readable d \<and> rp_program_is_trusted d then 1 else 0"]
    length_rfc_head [of 0 "nat (max 0 (sint (ucast (rp_depth d) :: i32)))"]
  unfolding node_record_bytes length_append by linarith

lemma record_returned:
  assumes "placed B mem" and "after_calls i hs g" and "hs_memory hs = Some mem" and "length bs \<le> 16384"
  obtains g8 where "guest_call c d env (CReturnMap (of_nat (bf_out B)) (of_nat (g_out_len (emitted B bs g)))) (emitted B bs g) = (Some 0, g8)"
    and "g_state g8 = hs\<lparr>hs_memory := Some (store_at (bf_out B) bs mem), hs_map := Some bs\<rparr>"
proof -
  let ?hs = "hs\<lparr>hs_memory := Some (store_at (bf_out B) bs mem)\<rparr>"
  note e = placed_ends(1,2) [OF assms(1)]
  have g: "g_state (emitted B bs g) = ?hs" "g_out_len (emitted B bs g) = length bs"
    using assms(2,3) by (simp_all add: after_calls_def emitted_def)
  have c: "clamp0 (of_nat (length bs)) = length bs" by (rule clamp0_of_nat) (use assms(4) in simp)
  have "host_step c d e (CReturnMap (of_nat (bf_out B)) (of_nat (length bs))) ?hs = Inr (?hs\<lparr>hs_map := Some bs\<rparr>, 0)" for e
    using read_back [of ?hs _ "bf_out B" "length bs", OF _ _ _ c] e assms(4)
    by (simp add: host_return_map_def bytes_at_same return_i32_def)
  then show thesis using that by (simp add: guest_call_def g Let_def)
qed

lemma facts_encoded:
  assumes "placed B mem" and g: "after_calls i (hs\<lparr>hs_memory := Some (with_facts B c d now mem)\<rparr>) g"
    and r: "not_negative r3 = of_nat (length (attest_bytes c d now))" "not_negative r7 = of_nat (length (addr_bytes d))"
  shows "encode_record B (not_negative r3)
      (if (if rp_readable d \<and> rp_program_is_trusted d then 1 else 0 :: i32) \<noteq> 0 then 1 else 0)
      (not_negative (ucast (rp_depth d))) (not_negative (of_nat (length (key_bytes d)))) (not_negative r7) g =
    emitted B (rfc_map (node_record c d now)) g"
proof -
  have m: "hs_memory (g_state g) = Some (with_facts B c d now mem)" "g_out_len g = 0"
    using g by (simp_all add: after_calls_def)
  note reg = with_facts_regions [OF assms(1), where c = c and d = d and now = now]
  note e = placed_ends [OF assms(1)] and ap = placed_apart(1-3) [OF assms(1)] and f = fact_lengths
  have room: "has_room B 2000 g" using m e(1) reg(4) by (simp add: has_room_def)
  have ins: "inside B (bf_attest B, length (attest_bytes c d now)) g" "inside B (bf_parent B, length (key_bytes d)) g"
    "inside B (bf_node_addr B, length (addr_bytes d)) g"
    using m(1) reg(4) e f(1) [of c d now] f(2,3) [of d]
      apart_mono [OF ap(1) f(1) order_refl] apart_mono [OF ap(2) f(2) order_refl] apart_mono [OF ap(3) f(3) order_refl]
    by (simp_all add: inside_def)
  show ?thesis
    unfolding r node_record_bytes using encode_record_emitted [OF room ins f] reg(1-3) fact_lengths(2) [of d]
    by (simp add: region_def m(1) unat_not_negative)
qed

lemma map_start_runs:
  assumes "placed B mem" and "hs_memory hs = Some mem" and "length (he_random (env 0) 16) = 16"
  shows "\<exists>g mem'. map_start B c d env (guest_start hs) = (Some 0, g) \<and>
    g_state g = hs\<lparr>hs_memory := Some mem', hs_forward_uuid := Some (he_random (env 0) 16),
      hs_map := Some (rfc_map (node_record c d (he_now (env 2))))\<rparr>"
proof -
  let ?m1 = "store_at (bf_uuid B) (he_random (env 0) 16) mem"
  let ?m7 = "with_facts B c d (he_now (env 2)) ?m1" and ?att = "attest_bytes c d (he_now (env 2))"
  let ?rec = "rfc_map (node_record c d (he_now (env 2)))"
  let ?s2 = "hs\<lparr>hs_memory := Some ?m1, hs_forward_uuid := Some (he_random (env 0) 16)\<rparr>"
  have p1: "placed B ?m1"
    using placed_cong [OF stored_fits [OF placed_ends(7) [OF assms(1)]]] assms(1,3) by simp
  have s2: "hs_memory ?s2 = Some ?m1" by simp
  obtain g1 g2 r where c12: "guest_call c d env (CRandom (of_nat (bf_uuid B)) 16) (guest_start hs) = (Some r, g1)"
    "guest_call c d env (CSetForwardUuid (of_nat (bf_uuid B)) 16) g1 = (Some 0, g2)" and g2: "after_calls 2 ?s2 g2"
    by (rule uuid_calls [where env = env and c = c and d = d, OF assms])
  obtain g3 g4 g5 g6 g7 r3 r7 where calls:
    "guest_call c d env (CSignedAttestation (of_nat (bf_attest B)) 1024) g2 = (Some r3, g3)"
    "guest_call c d env CTrustsMe g3 = (Some (if rp_readable d \<and> rp_program_is_trusted d then 1 else 0), g4)"
    "guest_call c d env CDepth g4 = (Some (ucast (rp_depth d)), g5)"
    "guest_call c d env (CCallerPubkey (of_nat (bf_parent B)) 64) g5 = (Some (of_nat (length (key_bytes d))), g6)"
    "guest_call c d env (CNodeAddr (of_nat (bf_node_addr B)) 64) g6 = (Some r7, g7)"
    and r: "not_negative r3 = of_nat (length ?att)" "not_negative r7 = of_nat (length (addr_bytes d))"
    and g7: "after_calls 7 (?s2\<lparr>hs_memory := Some ?m7\<rparr>) g7"
    by (rule fact_calls [where env = env and c = c and d = d, OF p1 s2 g2])
  note enc = facts_encoded [OF p1 g7 r]
  have "placed B ?m7" using placed_cong [OF with_facts_regions(4) [OF p1]] p1 by blast
  from record_returned [where c = c and d = d and env = env and bs = ?rec, OF this g7] node_record_short [of c d "he_now (env 2)"]
  obtain g8 where "guest_call c d env (CReturnMap (of_nat (bf_out B)) (of_nat (g_out_len (emitted B ?rec g7)))) (emitted B ?rec g7) = (Some 0, g8)"
    "g_state g8 = ?s2\<lparr>hs_memory := Some (store_at (bf_out B) ?rec ?m7), hs_map := Some ?rec\<rparr>" by auto
  moreover have "?s2\<lparr>hs_memory := m, hs_map := b\<rparr> =
      hs\<lparr>hs_memory := m, hs_forward_uuid := Some (he_random (env 0) 16), hs_map := b\<rparr>" for m b by simp
  ultimately show ?thesis
    unfolding map_start_def and_then_def c12 calls enc prod.case option.case Let_def by metis
qed

section \<open>The run as a list of calls\<close>

text \<open>A list of calls of which none traps.\<close>

fun completes :: "crates \<Rightarrow> rp_store \<Rightarrow> (host_env \<times> memory \<times> host_call) list \<Rightarrow> host_state \<Rightarrow> bool" where
  "completes c d [] hs \<longleftrightarrow> True"
| "completes c d ((e, mem, call) # calls) hs \<longleftrightarrow>
     (case host_step c d e call (hs\<lparr>hs_memory := mem\<rparr>) of Inl _ \<Rightarrow> False | Inr (hs', r) \<Rightarrow> completes c d calls hs')"

lemma completes_append:
  assumes "completes c d xs hs"
  shows "host_run c d (xs @ ys) hs = host_run c d ys (host_run c d xs hs)"
    and "completes c d (xs @ ys) hs \<longleftrightarrow> completes c d ys (host_run c d xs hs)"
  using assms by (induction c d xs hs rule: completes.induct) (auto split: sum.splits)

lemma host_run_memory: "calls \<noteq> [] \<Longrightarrow> host_run c d calls (hs\<lparr>hs_memory := m\<rparr>) = host_run c d calls hs"
  by (cases calls) (auto split: sum.split)

text \<open>Between its calls the program changes its own memory only.\<close>

definition only_memory :: "guest \<Rightarrow> guest \<Rightarrow> bool" where
  "only_memory g g' \<longleftrightarrow> g_calls g' = g_calls g \<and>
     (g_state g')\<lparr>hs_memory := None\<rparr> = (g_state g)\<lparr>hs_memory := None\<rparr>"

lemma only_memory_trans: "only_memory f g \<Longrightarrow> only_memory g h \<Longrightarrow> only_memory f h"
  by (simp add: only_memory_def)

lemma put_byte_only_memory: "only_memory g (put_byte B b g)"
  by (simp add: only_memory_def put_byte_def poke_def)

lemma put_bytes_only_memory: "only_memory g (put_bytes B p n g)"
proof -
  have "only_memory g (put_bytes_from B p i k g)" for i k
    by (induction B p i k g rule: put_bytes_from.induct) (auto simp: only_memory_def poke_def)
  then show ?thesis by (simp add: put_bytes_def)
qed

lemma cbor_head_only_memory: "only_memory g (cbor_head B m v g)"
proof -
  have "only_memory g (fold (\<lambda>s. put_byte B (f s)) xs (put_byte B b g))" for f xs b
    by (induction xs rule: rev_induct)
      (auto simp: put_byte_only_memory intro: only_memory_trans [OF _ put_byte_only_memory])
  then show ?thesis
    by (auto simp: cbor_head_def Let_def intro!: put_byte_only_memory only_memory_trans [OF _ put_byte_only_memory])
qed

lemma encode_record_only_memory: "only_memory g (encode_record B a t d p n g)"
  unfolding encode_record_def Let_def cbor_uint_def cbor_bytes_def cbor_text_def
  by (intro only_memory_trans [OF _ put_bytes_only_memory] only_memory_trans [OF _ cbor_head_only_memory]
      cbor_head_only_memory)

text \<open>What the noted calls replay to, as long as the program runs, and at its end.\<close>

definition replayed :: "crates \<Rightarrow> rp_store \<Rightarrow> host_state \<Rightarrow> guest \<Rightarrow> bool" where
  "replayed c d hs g \<longleftrightarrow> (host_run c d (g_calls g) hs)\<lparr>hs_memory := None\<rparr> = (g_state g)\<lparr>hs_memory := None\<rparr>"

definition on_track :: "crates \<Rightarrow> rp_store \<Rightarrow> host_state \<Rightarrow> i32 option \<times> guest \<Rightarrow> bool" where
  "on_track c d hs m \<longleftrightarrow> replayed c d hs (snd m) \<and> (fst m \<noteq> None \<longrightarrow> completes c d (g_calls (snd m)) hs)"

lemma guest_call_on_track:
  assumes "replayed c d hs g" and "completes c d (g_calls g) hs"
  shows "on_track c d hs (guest_call c d env call g)"
proof -
  let ?x = "(env (length (g_calls g)), hs_memory (g_state g), call)"
  have same: "(host_run c d (g_calls g) hs)\<lparr>hs_memory := hs_memory (g_state g)\<rparr> = g_state g"
    using arg_cong [OF assms(1) [unfolded replayed_def], of "\<lambda>s. s\<lparr>hs_memory := hs_memory (g_state g)\<rparr>"] by simp
  show ?thesis
    by (auto simp: on_track_def replayed_def guest_call_def Let_def same completes_append [OF assms(2)]
        split: sum.split)
qed

lemma and_then_on_track:
  assumes "on_track c d hs m" and "\<And>r g. replayed c d hs g \<Longrightarrow> completes c d (g_calls g) hs \<Longrightarrow> on_track c d hs (k r g)"
  shows "on_track c d hs (and_then m k)"
  using assms by (cases m) (auto simp: and_then_def on_track_def split: option.split)

lemma map_start_on_track: "on_track c d hs (map_start B c d env (guest_start hs))"
proof -
  have enc: "replayed c d hs (encode_record B a t dp p n g)" "completes c d (g_calls (encode_record B a t dp p n g)) hs"
    if "replayed c d hs g" "completes c d (g_calls g) hs" for a t dp p n g
    using that encode_record_only_memory [of g B a t dp p n] by (simp_all add: replayed_def only_memory_def)
  have start: "replayed c d hs (guest_start hs)" "completes c d (g_calls (guest_start hs)) hs"
    by (simp_all add: replayed_def guest_start_def)
  show ?thesis
    unfolding map_start_def Let_def
    by (intro and_then_on_track guest_call_on_track enc start)
qed

text \<open>The calls of a run, as \<open>Serve.guest_run\<close> lists them.\<close>

definition map_calls ::
  "buffers \<Rightarrow> crates \<Rightarrow> rp_store \<Rightarrow> (nat \<Rightarrow> host_env) \<Rightarrow> host_state \<Rightarrow> (host_env \<times> memory \<times> host_call) list" where
  "map_calls B c d env hs = g_calls (snd (map_start B c d env (guest_start hs)))"

lemma memory_apart: "s\<lparr>hs_memory := None\<rparr> = t\<lparr>hs_memory := None\<rparr> \<Longrightarrow> s = t\<lparr>hs_memory := hs_memory s\<rparr>"
  by (drule arg_cong [of _ _ "\<lambda>x. x\<lparr>hs_memory := hs_memory s\<rparr>"]) simp

lemma map_calls_run:
  assumes "placed B mem" and "length (he_random (env 0) 16) = 16" and "hs_map hs = None"
  shows "\<exists>mem'. host_run c d (map_calls B c d env (hs\<lparr>hs_memory := Some mem\<rparr>)) hs =
    hs\<lparr>hs_forward_uuid := Some (he_random (env 0) 16),
       hs_map := Some (rfc_map (node_record c d (he_now (env 2)))), hs_memory := mem'\<rparr>"
proof -
  let ?hs = "hs\<lparr>hs_memory := Some mem\<rparr>" and ?rec = "rfc_map (node_record c d (he_now (env 2)))"
  let ?calls = "map_calls B c d env ?hs"
  obtain g mem' where run: "map_start B c d env (guest_start ?hs) = (Some 0, g)"
    and g: "g_state g = ?hs\<lparr>hs_memory := Some mem', hs_forward_uuid := Some (he_random (env 0) 16), hs_map := Some ?rec\<rparr>"
    using map_start_runs [of B mem ?hs env c d] assms(1,2) by auto
  have "(host_run c d ?calls ?hs)\<lparr>hs_memory := None\<rparr> = (g_state g)\<lparr>hs_memory := None\<rparr>"
    using map_start_on_track [of c d ?hs B env] by (simp add: run map_calls_def on_track_def replayed_def)
  moreover from this have "?calls \<noteq> []" using assms(3) by (auto simp: g dest: arg_cong [where f = hs_map])
  ultimately have "(host_run c d ?calls hs)\<lparr>hs_memory := None\<rparr> = (g_state g)\<lparr>hs_memory := None\<rparr>"
    by (simp add: host_run_memory)
  then have "host_run c d ?calls hs = (g_state g)\<lparr>hs_memory := hs_memory (host_run c d ?calls hs)\<rparr>"
    by (rule memory_apart)
  then have "host_run c d ?calls hs = hs\<lparr>hs_forward_uuid := Some (he_random (env 0) 16), hs_map := Some ?rec,
      hs_memory := hs_memory (host_run c d ?calls hs)\<rparr>" unfolding g by simp
  then show ?thesis ..
qed

section \<open>The record read back\<close>

lemma node_record_parsed:
  assumes "cb_from_slice cb b = Some (CMap (node_record c d now))"
  shows "parse_record cb b = Some (attest_bytes c d now, key_bytes d, rp_readable d \<and> rp_program_is_trusted d,
    case rp_node_addr d of None \<Rightarrow> None | Some s \<Rightarrow> if s = [] then None else Some (take 64 s))"
  using assms
  by (auto simp: parse_record_def node_record_def cbor_get_def record_keys attest_bytes_def key_bytes_def Let_def
      split: option.split)

text \<open>What the node needs to be able to speak for itself: a key, an attestation that fits its buffer, and
  a decoder that reads the attestation and the record back.\<close>

definition speaks_for_itself :: "crates \<Rightarrow> rp_store \<Rightarrow> u64 \<Rightarrow> bool" where
  "speaks_for_itself c d now \<longleftrightarrow>
     (\<exists>sk att sig. rp_signing_key d = Some sk \<and> rp_our_pubkey d = cr_verifying_key (ck_crypto c) sk \<and>
        sig = cr_sign (ck_crypto c) sk (attestation_signing_bytes (rp_hostname d) (rp_our_pubkey d) now) \<and>
        cb_to_vec (ck_cbor c) (attestation_value (rp_hostname d) (rp_our_pubkey d) now sig) = Some att \<and>
        cbor_round_trips (ck_cbor c) (attestation_value (rp_hostname d) (rp_our_pubkey d) now sig) \<and>
        length att \<le> 1024) \<and>
     cb_from_slice (ck_cbor c) (rfc_map (node_record c d now)) = Some (CMap (node_record c d now))"

lemma own_record_verified:
  assumes "speaks_for_itself c d now" and "ed25519_laws (ck_crypto c)"
  shows "\<exists>na. parse_record (ck_cbor c) (rfc_map (node_record c d now)) =
      Some (attest_bytes c d now, key_bytes d, rp_readable d \<and> rp_program_is_trusted d, na) \<and>
    verify_attestation_cbor (ck_crypto c) (ck_cbor c) (attest_bytes c d now) =
      Inr \<lparr>vn_hostname = rp_hostname d, vn_pubkey = rp_our_pubkey d, vn_epoch_s = now\<rparr>"
proof -
  obtain sk att where sk: "rp_signing_key d = Some sk" "rp_our_pubkey d = cr_verifying_key (ck_crypto c) sk"
    and att: "build_attestation_cbor (ck_cbor c) (rp_hostname d) (rp_our_pubkey d) now
        (cr_sign (ck_crypto c) sk (attestation_signing_bytes (rp_hostname d) (rp_our_pubkey d) now)) = Some att"
      "length att \<le> 1024"
    and rt: "cbor_round_trips (ck_cbor c) (attestation_value (rp_hostname d) (rp_our_pubkey d) now
        (cr_sign (ck_crypto c) sk (attestation_signing_bytes (rp_hostname d) (rp_our_pubkey d) now)))"
    and rec: "cb_from_slice (ck_cbor c) (rfc_map (node_record c d now)) = Some (CMap (node_record c d now))"
    using assms(1) unfolding speaks_for_itself_def build_attestation_cbor_def by blast
  have "attest_bytes c d now = att"
    using att by (simp add: attest_bytes_def own_attestation_def sk(1))
  with attestation_round_trip [OF assms(2) rt [unfolded sk(2)] att(1) [unfolded sk(2)]] node_record_parsed [OF rec]
  show ?thesis by (simp add: sk(2))
qed

section \<open>Properties\<close>

text \<open>C16: what the discovery program does on every node. Wherever its arrays are placed, it never traps, and
  all it leaves behind is its record and the uuid for forwarding: the bytes its shifting and masking
  builder wrote, whatever lengths the facts have, are the RFC 8949 encoding of the map of the node's own
  facts (an attestation cut at 1024 bytes, whether it trusts the caller, its depth, the caller's key, its
  address), and it sends, prints, stores and replicates nothing.\<close>

theorem map_program_exact:
  assumes "placed B mem" and "length (he_random (env 0) 16) = 16" and "hs_map hs = None"
  shows "fst (map_start B c d env (guest_start (hs\<lparr>hs_memory := Some mem\<rparr>))) = Some 0 \<and>
    (\<exists>mem'. host_run c d (map_calls B c d env (hs\<lparr>hs_memory := Some mem\<rparr>)) hs =
       hs\<lparr>hs_forward_uuid := Some (he_random (env 0) 16),
          hs_map := Some (rfc_map (node_record c d (he_now (env 2)))), hs_memory := mem'\<rparr>)"
  using map_start_runs [of B mem "hs\<lparr>hs_memory := Some mem\<rparr>" env c d] map_calls_run [where c = c and d = d and env = env, OF assms] assms(1,2)
  by auto

definition demo_buffers :: buffers where
  "demo_buffers = \<lparr>bf_out = 0, bf_attest = 16384, bf_parent = 17408, bf_uuid = 17472, bf_node_addr = 17488\<rparr>"

definition demo_memory :: bytes where
  "demo_memory = replicate 17552 0"

lemma demo_placed: "placed demo_buffers demo_memory"
  by (simp add: placed_def regions_def demo_buffers_def demo_memory_def apart_def)

theorem map_program_exact_witness:
  "\<exists>mem'. host_run (demo_crates (demo_codec CNull [])) (spawn_snapshot demo_executor demo_program True exec_options_default)
     (map_calls demo_buffers (demo_crates (demo_codec CNull [])) (spawn_snapshot demo_executor demo_program True exec_options_default)
       (\<lambda>_. demo_env\<lparr>he_random := (\<lambda>n. replicate n 3)\<rparr>) ((guest_init demo_executor)\<lparr>hs_memory := Some demo_memory\<rparr>))
     (guest_init demo_executor) =
   (guest_init demo_executor)\<lparr>hs_forward_uuid := Some (replicate 16 3),
     hs_map := Some (rfc_map (node_record (demo_crates (demo_codec CNull [])) (spawn_snapshot demo_executor demo_program True exec_options_default)
       (he_now demo_env))), hs_memory := mem'\<rparr>"
proof -
  have "length (he_random (demo_env\<lparr>he_random := (\<lambda>n. replicate n 3)\<rparr>) 16) = 16" "hs_map (guest_init demo_executor) = None"
    by (simp_all add: guest_init_def)
  from map_program_exact [where env = "\<lambda>_. demo_env\<lparr>he_random := (\<lambda>n. replicate n 3)\<rparr>", OF demo_placed this] show ?thesis
    by simp
qed

end
