(* ===== verification/Map_Network.thy ===== *)
theory Map_Network
  imports Map_Program Spread
begin

text \<open>
  The whole of \<open>netmap\<close>: the discovery program of \<open>Map_Program\<close> on every node of a network of \<open>Spread\<close>, its
  records relayed back and collected into the map of \<open>Netmap\<close>. The laws of the crates are stated for the
  values at hand: signatures verify, and \<open>serde_cbor\<close> reads back the attestation it wrote and the record
  the program encoded after RFC 8949.
\<close>

section \<open>Nodes that run the discovery program\<close>

text \<open>Every program accepted at this node for this datagram is the discovery program.\<close>

definition maps_itself :: "crypto \<Rightarrow> cbor_codec \<Rightarrow> station \<Rightarrow> socket_addr \<Rightarrow> bytes \<Rightarrow> bool" where
  "maps_itself cr cb st caller buf \<longleftrightarrow>
     (let env = st_serve st caller buf in
      ck_crypto (sv_crates env) = cr \<and> ck_cbor (sv_crates env) = cb \<and>
      (\<forall>p ex2 sp. ba_from_slice (ck_bare (sv_crates env)) buf = Some (ExecuteRequest p) \<and>
         begin_exec cr (sv_engine env) p (exec_options_default\<lparr>eo_node_addr := node_addr_for env caller\<rparr>)
           (note_peer (sv_now env) caller (pd_source p) (st_ex st caller buf)) = (ex2, Inr sp) \<longrightarrow>
         (\<exists>B genv mem. placed B mem \<and> length (he_random (genv 0) 16) = 16 \<and>
            gr_calls (sv_guest env sp) =
              map_calls B (sv_crates env) (sp_store sp) genv ((guest_init ex2)\<lparr>hs_memory := Some mem\<rparr>) \<and>
            speaks_for_itself (sv_crates env) (sp_store sp) (he_now (genv 2)))))"

definition all_map_themselves :: "crypto \<Rightarrow> cbor_codec \<Rightarrow> network \<Rightarrow> bool" where
  "all_map_themselves cr cb W \<longleftrightarrow>
     (\<forall>here st caller buf. nw_station W here = Some st \<longrightarrow> maps_itself cr cb st caller buf)"

text \<open>A node that ran a request, in its own words: its key and name, the key of its caller, whether it trusts it.\<close>

definition asked_node :: "network \<Rightarrow> socket_addr \<Rightarrow> bytes \<Rightarrow> socket_addr \<Rightarrow> bytes \<Rightarrow> string \<Rightarrow> bytes \<Rightarrow> bool \<Rightarrow> bool" where
  "asked_node W caller buf here pk hostname parent trusts \<longleftrightarrow>
     (\<exists>st p pid hs. nw_station W here = Some st \<and> ran W caller buf here = Some (p, pid, hs) \<and>
        pk = ex_identity_pubkey (st_ex st caller buf) \<and> hostname = ex_hostname (st_ex st caller buf) \<and>
        parent = id_public_key (pd_source p) \<and> trusts = trusts_pubkey parent (st_ex st caller buf))"

section \<open>What its record says\<close>

lemma begin_exec_snapshot:
  assumes "begin_exec cr we p opts ex = (ex', Inr sp)"
  shows "sp_store sp = spawn_snapshot ex p (trusts_pubkey (id_public_key (pd_source p)) ex) opts"
    and "check_self_signature cr (pd_source p) = Inr ()"
  using assms by (auto simp: begin_exec_eq create_pid_eq Let_def split: sum.splits if_splits)

lemma noted_snapshot:
  "rp_hostname (spawn_snapshot (note_peer now addr source ex) p t opts) = ex_hostname ex"
  "rp_our_pubkey (spawn_snapshot (note_peer now addr source ex) p t opts) = ex_identity_pubkey ex"
  "rp_readable (spawn_snapshot (note_peer now addr source ex) p t opts)" "rp_program_is_trusted (spawn_snapshot (note_peer now addr source ex) p t opts) = t"
  "rp_caller_pubkey (spawn_snapshot (note_peer now addr source ex) p t opts) = id_public_key (pd_source p)"
  by (simp_all add: spawn_snapshot_def note_peer_def Let_def)

lemma trusts_noted: "trusts_pubkey k (note_peer now addr source ex) = trusts_pubkey k ex"
  by (simp add: trusts_pubkey_iff)

text \<open>The record of a node that ran the program, decoded and verified.\<close>

definition record_says :: "crypto \<Rightarrow> cbor_codec \<Rightarrow> bytes \<Rightarrow> bytes \<Rightarrow> string \<Rightarrow> bytes \<Rightarrow> bool \<Rightarrow> bool" where
  "record_says cr cb cbor pk hostname parent trusts \<longleftrightarrow>
     (\<exists>att na vn. parse_record cb cbor = Some (att, parent, trusts, na) \<and>
        verify_attestation_cbor cr cb att = Inr vn \<and> vn_pubkey vn = pk \<and> vn_hostname vn = hostname)"

lemma record_says_unique:
  "record_says cr cb cbor pk h pa t \<Longrightarrow> record_says cr cb cbor pk' h' pa' t' \<Longrightarrow> pk' = pk \<and> h' = h \<and> pa' = pa \<and> t' = t"
  by (auto simp: record_says_def)

lemma attests_record_says: "attests cr cb cbor pk \<longleftrightarrow> (\<exists>h pa t. record_says cr cb cbor pk h pa t)"
  by (auto simp: attests_def record_says_def)

lemma asked_node_record:
  assumes "speaks ba W" and "all_map_themselves cr cb W" and "ed25519_laws cr"
    and "asked_node W caller buf here pk h parent t"
  shows "\<exists>pid cbor. reports W caller buf here pid cbor \<and> record_says cr cb cbor pk h parent t"
proof -
  obtain st p pid hs where st: "nw_station W here = Some st" and r: "ran W caller buf here = Some (p, pid, hs)"
    and facts: "pk = ex_identity_pubkey (st_ex st caller buf)" "h = ex_hostname (st_ex st caller buf)"
      "parent = id_public_key (pd_source p)" "t = trusts_pubkey parent (st_ex st caller buf)"
    using assms(4) by (auto simp: asked_node_def)
  let ?env = "st_serve st caller buf"
  let ?ex = "note_peer (sv_now ?env) caller (pd_source p) (st_ex st caller buf)"
  let ?opts = "exec_options_default\<lparr>eo_node_addr := node_addr_for ?env caller\<rparr>"
  obtain code where p: "ba_from_slice ba buf = Some (ExecuteRequest p)"
    and run: "request_run ?env caller p (st_ex st caller buf) = Some (pid, code, hs)"
    using r st by (auto simp: ran_iff [OF assms(1)])
  have m: "maps_itself cr cb st caller buf" using assms(2) st by (simp add: all_map_themselves_def)
  then have c: "ck_crypto (sv_crates ?env) = cr" "ck_cbor (sv_crates ?env) = cb" by (simp_all add: maps_itself_def Let_def)
  have ba: "ck_bare (sv_crates ?env) = ba" using assms(1) st by (simp add: speaks_def)
  obtain ex2 sp where b: "begin_exec cr (sv_engine ?env) p ?opts ?ex = (ex2, Inr sp)"
    and hs: "hs = host_run (sv_crates ?env) (sp_store sp) (gr_calls (sv_guest ?env sp)) (guest_init ex2)"
    using run by (auto simp: request_run_def c split: prod.splits sum.splits)
  obtain B genv mem where g: "placed B mem" "length (he_random (genv 0) 16) = 16"
    "gr_calls (sv_guest ?env sp) = map_calls B (sv_crates ?env) (sp_store sp) genv ((guest_init ex2)\<lparr>hs_memory := Some mem\<rparr>)"
    and s: "speaks_for_itself (sv_crates ?env) (sp_store sp) (he_now (genv 2))"
    using m b p by (simp add: maps_itself_def Let_def ba) blast
  let ?now = "he_now (genv 2)"
  let ?cbor = "rfc_map (node_record (sv_crates ?env) (sp_store sp) ?now)"
  have "hs_map (guest_init ex2) = None" by (simp add: guest_init_def)
  from map_calls_run [where env = genv and c = "sv_crates ?env" and d = "sp_store sp", OF g(1,2) this]
  have "hs_map hs = Some ?cbor" unfolding hs g(3) by auto
  then have "reports W caller buf here pid ?cbor" using r by (simp add: reports_def)
  moreover have "record_says cr cb ?cbor pk h parent t"
  proof -
    note d = begin_exec_snapshot(1) [OF b]
    note n = noted_snapshot
    have "length (id_public_key (pd_source p)) = 32"
      using check_self_signature_key_length [OF begin_exec_snapshot(2) [OF b]] .
    then have "key_bytes (sp_store sp) = parent" by (simp add: key_bytes_def d n facts)
    then show ?thesis
      using own_record_verified [OF s] assms(3)
      by (auto simp: record_says_def c d n facts trusts_noted)
  qed
  ultimately show ?thesis by blast
qed

text \<open>A record that reached the map is that of an asked node.\<close>

lemma reported_record:
  assumes "speaks ba W" and "all_map_themselves cr cb W" and "ed25519_laws cr" and "reports W caller buf here pid cbor"
  shows "record_says cr cb cbor pk h parent t \<longleftrightarrow> asked_node W caller buf here pk h parent t"
proof -
  obtain p hs where r: "ran W caller buf here = Some (p, pid, hs)" "hs_map hs = Some cbor"
    using assms(4) by (auto simp: reports_def)
  obtain st where st: "nw_station W here = Some st" using r(1) by (auto simp: ran_iff [OF assms(1)])
  have same: "cbor' = cbor" if "reports W caller buf here pid' cbor'" for pid' cbor'
    using that r by (auto simp: reports_def)
  obtain pk0 h0 parent0 t0 where a: "asked_node W caller buf here pk0 h0 parent0 t0"
    using r(1) st unfolding asked_node_def by blast
  have unique: "pk0 = pk \<and> h0 = h \<and> parent0 = parent \<and> t0 = t" if "asked_node W caller buf here pk h parent t"
    using a that r(1) st unfolding asked_node_def by auto
  have rec: "record_says cr cb cbor pk0 h0 parent0 t0"
    using asked_node_record [OF assms(1-3) a] same by blast
  show ?thesis
  proof
    assume "record_says cr cb cbor pk h parent t"
    then show "asked_node W caller buf here pk h parent t" using record_says_unique [OF rec] a by blast
  next
    assume "asked_node W caller buf here pk h parent t"
    with unique show "record_says cr cb cbor pk h parent t" using rec by blast
  qed
qed

lemma asked_node_iff:
  assumes "speaks ba W" and "all_map_themselves cr cb W" and "ed25519_laws cr"
  shows "(\<exists>pid cbor. reports W caller buf here pid cbor \<and> record_says cr cb cbor pk h parent t) \<longleftrightarrow>
    asked_node W caller buf here pk h parent t"
  using asked_node_record [OF assms] reported_record [OF assms] by blast

section \<open>Properties\<close>

text \<open>C15: the network map tells the truth, and all of it. On a network whose nodes run the discovery program,
  with relays that hear their subtrees, a command that receives the answers before its deadline and
  no stranger, the keys on the map are exactly the identity keys of the nodes that ran a request; and every
  entry shows a name, a parent and a mark of trust that such a node has: its own host name, the key
  of the identity that sent it the request, and whether it trusts that key.\<close>

theorem network_map_true:
  assumes "speaks (cl_bare env) W" and "timely W"
    and "\<And>pid u cbor. ba_to_vec (cl_bare env) (BasicReturnMap pid u cbor) \<noteq> None"
    and "\<And>caller buf here. (caller, buf, here) \<in> set asked \<Longrightarrow> buf \<in> (\<lambda>t. snd (snd t)) `
      set (fst (netmap_sends env wasm source uuid our keys local groups port peers))"
    and "snd ` (set (in_window deadline ipv4_evs) \<union> set (in_window deadline ipv6_evs)) =
      (\<Union>(caller, buf, here)\<in>set asked. set (spread 10 W caller buf here))"
    and "set collected = set (collect_until (cl_bare env) uuid deadline ipv4_evs []) \<union>
      set (collect_until (cl_bare env) uuid deadline ipv6_evs [])"
    and "all_map_themselves cr cb W" and "ed25519_laws cr"
  shows "(dm_contains pk (collect_nodes cr cb now collected) \<longleftrightarrow>
      (\<exists>(caller, buf, here)\<in>set asked. \<exists>caller' buf' there hostname parent trusts.
         visits W caller buf here caller' buf' there \<and> asked_node W caller' buf' there pk hostname parent trusts)) \<and>
    (dm_get pk (collect_nodes cr cb now collected) = Some nd \<longrightarrow>
      (\<exists>(caller, buf, here)\<in>set asked. \<exists>caller' buf' there.
         visits W caller buf here caller' buf' there \<and>
         asked_node W caller' buf' there pk (nd_hostname nd) (nd_parent nd) (nd_trusts_caller nd)))"
proof -
  have says: "(\<exists>r\<in>set collected. record_says cr cb (snd r) pk h pa t) \<longleftrightarrow>
      (\<exists>(caller, buf, here)\<in>set asked. \<exists>caller' buf' there.
         visits W caller buf here caller' buf' there \<and> asked_node W caller' buf' there pk h pa t)" for h pa t
    using network_records [OF assms(1-6), where Q = "\<lambda>b. record_says cr cb b pk h pa t"]
    unfolding asked_node_iff [OF assms(1,7,8), symmetric] by simp
  have "dm_contains pk (collect_nodes cr cb now collected) \<longleftrightarrow>
      (\<exists>h pa t. \<exists>r\<in>set collected. record_says cr cb (snd r) pk h pa t)"
    unfolding collect_nodes_contains attests_record_says by blast
  moreover have "\<exists>r\<in>set collected. record_says cr cb (snd r) pk (nd_hostname nd) (nd_parent nd) (nd_trusts_caller nd)"
    if "dm_get pk (collect_nodes cr cb now collected) = Some nd"
    using collect_nodes_sound [OF that] unfolding node_from_def record_says_def by fastforce
  ultimately show ?thesis unfolding says by fast
qed

section \<open>A network of one node\<close>

definition demo_mapper :: executor where
  "demo_mapper = Serve.demo_node\<lparr>ex_identity_signing_key := Some (replicate 32 7), ex_hostname := ''n2''\<rparr>"

definition demo_own_attestation :: cbor where
  "demo_own_attestation = attestation_value ''n2'' (replicate 32 7) 5
     (cr_sign demo_crypto (replicate 32 7) (attestation_signing_bytes ''n2'' (replicate 32 7) 5))"

definition demo_own_record :: "(cbor \<times> cbor) list" where
  "demo_own_record = [(CInteger 1, CBytes [1]), (CInteger 2, CInteger 1), (CInteger 3, CInteger 1),
     (CInteger 4, CBytes (replicate 32 7)), (CInteger 5, CText [])]"

definition demo_map_codec :: cbor_codec where
  "demo_map_codec = \<lparr>cb_to_vec = (\<lambda>v. if v = demo_own_attestation then Some [1] else None),
     cb_from_slice = (\<lambda>b. if b = [1] then Some demo_own_attestation
       else if b = rfc_map demo_own_record then Some (CMap demo_own_record) else None)\<rparr>"

text \<open>A wire that knows one request.\<close>

definition demo_one_wire :: bare_codec where
  "demo_one_wire = \<lparr>
     ba_to_vec = (\<lambda>m. if m = ExecuteRequest demo_map_sub then None else ba_to_vec demo_wire m),
     ba_from_slice = (\<lambda>b. if b = [2] then None else ba_from_slice demo_wire b)\<rparr>"

lemma demo_one_wire_round_trips: "bare_round_trips demo_one_wire m"
  using demo_wire_round_trips [of m] 
  by (cases m) (auto simp: bare_round_trips_def demo_one_wire_def demo_wire_def split: if_splits)

definition demo_map_crates :: crates where
  "demo_map_crates = \<lparr>ck_crypto = demo_crypto, ck_cbor = demo_map_codec, ck_bare = demo_one_wire\<rparr>"

definition demo_map_env :: "nat \<Rightarrow> host_env" where
  "demo_map_env = (\<lambda>_. demo_env\<lparr>he_now := 5, he_random := (\<lambda>n. replicate n 3)\<rparr>)"

definition demo_map_station :: station where
  "demo_map_station = \<lparr>
     st_serve = (\<lambda>caller buf. (demo_serve demo_sent [] demo_guest)\<lparr>sv_crates := demo_map_crates,
        sv_guest := (\<lambda>sp. \<lparr>gr_calls = map_calls demo_buffers demo_map_crates (sp_store sp) demo_map_env
            ((guest_init demo_mapper)\<lparr>hs_memory := Some demo_memory\<rparr>), gr_exit = 0, gr_wait = Inr 0\<rparr>)\<rparr>),
     st_ex = (\<lambda>caller buf. demo_mapper), st_later = (\<lambda>caller buf. demo_mapper),
     st_forward = (\<lambda>caller buf. demo_forward\<lparr>fw_bare := demo_one_wire\<rparr>)\<rparr>"

definition demo_map_network :: network where
  "demo_map_network = demo_network\<lparr>nw_station := (\<lambda>a. if a = SockV4 0x7F000001 2240 then Some demo_map_station else None)\<rparr>"

lemma demo_map_network_facts: "speaks demo_one_wire demo_map_network" "timely demo_map_network"
proof -
  show "speaks demo_one_wire demo_map_network"
    by (auto simp: speaks_def demo_one_wire_round_trips demo_map_network_def demo_map_station_def demo_map_crates_def
        demo_forward_def split: if_splits)
  show "timely demo_map_network" using demo_timely by (simp add: timely_def demo_map_network_def)
qed

lemma demo_mapper_fields:
  "ex_identity_signing_key demo_mapper = Some (replicate 32 7)" "ex_hostname demo_mapper = ''n2''"
  "ex_identity_pubkey demo_mapper = replicate 32 7" "ex_messages demo_mapper = ms_new 4096"
  "trusts_pubkey (replicate 32 7) demo_mapper"
  using demo_executor_trusts
  by (simp_all add: demo_mapper_def Serve.demo_node_def demo_executor_fields trusts_pubkey_iff)

lemma demo_mapper_speaks:
  assumes "rp_signing_key d = Some (replicate 32 7)" and "rp_hostname d = ''n2''" and "rp_our_pubkey d = replicate 32 7"
    and "rp_readable d" and "rp_program_is_trusted d" and "rp_depth d = 1" and "rp_caller_pubkey d = replicate 32 7"
    and "rp_node_addr d = None"
  shows "speaks_for_itself demo_map_crates d 5"
proof -
  have k: "cr_verifying_key demo_crypto (replicate 32 7) = replicate 32 7" by (simp add: demo_crypto_def)
  have c: "ck_crypto demo_map_crates = demo_crypto" "ck_cbor demo_map_crates = demo_map_codec"
    by (simp_all add: demo_map_crates_def)
  have v: "cb_to_vec demo_map_codec demo_own_attestation = Some [1]" by (simp add: demo_map_codec_def)
  then have "own_attestation demo_map_crates d 5 = Some [1]"
    by (simp add: own_attestation_def build_attestation_cbor_def c assms flip: demo_own_attestation_def)
  then have r: "node_record demo_map_crates d 5 = demo_own_record"
    by (simp add: node_record_def demo_own_record_def assms)
  have "hd (rfc_map demo_own_record) = 165" by (simp add: rfc_map_def demo_own_record_def rfc_head_def)
  then have "rfc_map demo_own_record \<noteq> [1]" by auto
  then have "cb_from_slice demo_map_codec (rfc_map demo_own_record) = Some (CMap demo_own_record)"
    "cbor_round_trips demo_map_codec demo_own_attestation"
    by (simp_all add: demo_map_codec_def cbor_round_trips_def)
  then show ?thesis
    unfolding speaks_for_itself_def c r using v by (auto simp: assms k demo_own_attestation_def)
qed

lemma demo_one_wire_requests:
  "ba_from_slice demo_one_wire b = Some (ExecuteRequest p) \<Longrightarrow> p = demo_map_request"
  "ba_from_slice demo_one_wire [1] = Some (ExecuteRequest demo_map_request)"
  by (auto simp: demo_one_wire_def demo_wire_def Let_def split: if_splits)

lemma demo_map_network_maps: "all_map_themselves demo_crypto demo_map_codec demo_map_network"
proof -
  have "maps_itself demo_crypto demo_map_codec demo_map_station caller buf" for caller buf
  proof -
    let ?env = "st_serve demo_map_station caller buf"
    have env: "sv_crates ?env = demo_map_crates" "ck_bare demo_map_crates = demo_one_wire" "sv_interfaces ?env = []"
      "ck_crypto demo_map_crates = demo_crypto" "ck_cbor demo_map_crates = demo_map_codec"
      "st_ex demo_map_station caller buf = demo_mapper"
      by (simp_all add: demo_map_station_def demo_map_crates_def demo_serve_def)
    have "node_addr_for ?env caller = None"
      by (simp add: node_addr_for_def env local_addr_facing_def)
    moreover have "\<exists>B genv mem. placed B mem \<and> length (he_random (genv 0) 16) = 16 \<and>
        gr_calls (sv_guest ?env sp) = map_calls B demo_map_crates (sp_store sp) genv ((guest_init ex2)\<lparr>hs_memory := Some mem\<rparr>) \<and>
        speaks_for_itself demo_map_crates (sp_store sp) (he_now (genv 2))"
      if b: "begin_exec demo_crypto (sv_engine ?env) demo_map_request opts
          (note_peer (sv_now ?env) caller demo_identity demo_mapper) = (ex2, Inr sp)" and o: "eo_node_addr opts = None" for opts ex2 sp
    proof (intro exI conjI)
      have p: "pd_source demo_map_request = demo_identity" "pd_visited demo_map_request = [[5]]"
        "id_public_key demo_identity = replicate 32 7" by (simp_all add: demo_map_request_def demo_identity_def)
      note d = begin_exec_snapshot(1) [OF b, unfolded p]
      have "guest_init ex2 = guest_init demo_mapper"
        using begin_exec_fields [OF b] by (simp add: guest_init_def)
      then show "gr_calls (sv_guest ?env sp) = map_calls demo_buffers demo_map_crates (sp_store sp) demo_map_env
          ((guest_init ex2)\<lparr>hs_memory := Some demo_memory\<rparr>)"
        by (simp add: demo_map_station_def)
      have "speaks_for_itself demo_map_crates (sp_store sp) 5"
        by (rule demo_mapper_speaks; unfold d)
          (simp_all add: noted_snapshot trusts_noted demo_mapper_fields p o, simp_all add: spawn_snapshot_def demo_mapper_fields p o)
      then show "speaks_for_itself demo_map_crates (sp_store sp) (he_now (demo_map_env 2))" by (simp add: demo_map_env_def)
    qed (simp_all add: demo_placed demo_map_env_def)
    ultimately show ?thesis
      using demo_one_wire_requests(1) by (fastforce simp: maps_itself_def Let_def env demo_map_request_def)
  qed
  then show ?thesis by (auto simp: all_map_themselves_def demo_map_network_def split: if_splits)
qed

lemma demo_map_asked:
  "asked_node demo_map_network caller [1] (SockV4 0x7F000001 2240) (replicate 32 7) ''n2'' (replicate 32 7) True"
proof -
  have "\<exists>pid hs. ran demo_map_network caller [1] (SockV4 0x7F000001 2240) = Some (demo_map_request, pid, hs)"
    unfolding ran_iff [OF demo_map_network_facts(1)]
    by (simp add: demo_map_network_def demo_one_wire_requests(2) request_run_def demo_map_station_def demo_serve_def
        demo_map_crates_def begin_exec_eq create_pid_eq demo_map_request_def demo_identity_ok demo_engine_def Let_def)
  then show ?thesis
    unfolding asked_node_def
    by (auto simp: demo_map_network_def demo_map_station_def demo_mapper_fields demo_map_request_def demo_identity_def)
qed

theorem network_map_true_witness:
  "\<exists>nodes nd. nodes = collect_nodes demo_crypto demo_map_codec 7 (collect_until demo_one_wire [4] 12000
       (map (\<lambda>d. (0, Received (SockV4 0x7F000001 2240) d)) (spread 10 demo_map_network (SockV4 3 3) [1] (SockV4 0x7F000001 2240))) []) \<and>
     dm_get (replicate 32 7) nodes = Some nd \<and> nd_hostname nd = ''n2''"
proof -
  let ?env = "demo_client demo_one_wire" and ?here = "SockV4 0x7F000001 2240"
  let ?answers = "spread 10 demo_map_network (SockV4 3 3) [1] ?here"
  let ?ipv4_evs = "map (\<lambda>d. (0, Received ?here d)) ?answers"
  let ?nodes = "collect_nodes demo_crypto demo_map_codec 7 (collect_until demo_one_wire [4] 12000 ?ipv4_evs [])"
  have ba: "cl_bare ?env = demo_one_wire" by (simp add: demo_client_def)
  have total: "ba_to_vec demo_one_wire (BasicReturnMap pid u cbor) \<noteq> None" for pid u cbor
    by (simp add: demo_one_wire_def demo_wire_def)
  have "make_request ?env [0] demo_identity [4] [5] UNTRUSTED_FORWARD_DEPTH = Some [1]"
    by (simp add: make_request_def netmap_request_def builder_defs builder_build_def demo_client_def demo_one_wire_def
        demo_wire_def demo_map_request_def demo_map_sub_def depth_defs)
  then have sends: "(Routed, ?here, [1]) \<in> set (fst (netmap_sends ?env [0] demo_identity [4] [5] [] True [] 2240 []))"
    by (simp add: netmap_sends_def)
  have true: "(dm_contains (replicate 32 7) ?nodes \<longleftrightarrow>
      (\<exists>(caller, buf, here)\<in>set [(SockV4 3 3, [1], ?here)]. \<exists>caller' buf' there h pa t.
         visits demo_map_network caller buf here caller' buf' there \<and>
         asked_node demo_map_network caller' buf' there (replicate 32 7) h pa t)) \<and>
    (dm_get (replicate 32 7) ?nodes = Some nd \<longrightarrow>
      (\<exists>(caller, buf, here)\<in>set [(SockV4 3 3, [1], ?here)]. \<exists>caller' buf' there.
         visits demo_map_network caller buf here caller' buf' there \<and>
         asked_node demo_map_network caller' buf' there (replicate 32 7) (nd_hostname nd) (nd_parent nd) (nd_trusts_caller nd)))" for nd
  proof (rule network_map_true [where env = ?env and ipv6_evs = "[]" and deadline = 12000 and ipv4_evs = ?ipv4_evs, unfolded ba,
      OF demo_map_network_facts total _ _ _ demo_map_network_maps demo_crypto_laws])
    show "buf \<in> (\<lambda>t. snd (snd t)) ` set (fst (netmap_sends ?env [0] demo_identity [4] [5] [] True [] 2240 []))"
      if "(caller, buf, here) \<in> set [(SockV4 3 3, [1], ?here)]" for caller buf here
      using that sends by force
  qed (simp_all add: in_window_all image_image)
  have "dm_contains (replicate 32 7) ?nodes"
    using true demo_map_asked [of "SockV4 3 3"] visit_here by fastforce
  then obtain nd where nd: "dm_get (replicate 32 7) ?nodes = Some nd" by (auto simp: dm_contains_def)
  with true have "\<exists>caller' buf' there. asked_node demo_map_network caller' buf' there (replicate 32 7) (nd_hostname nd) (nd_parent nd)
      (nd_trusts_caller nd)" by fastforce
  then have "nd_hostname nd = ''n2''"
    by (auto simp: asked_node_def demo_map_network_def demo_map_station_def demo_mapper_fields split: if_splits)
  with nd show ?thesis by blast
qed

end
