(* ===== verification/Output.thy ===== *)
theory Output
  imports Spread Stdio
begin

text \<open>
  A program's output on its way to the terminal of the user who ran it: \<open>host::print\<close> of
  \<open>src/executor/mod.rs\<close> writes through a copy of the forwarder of \<open>src/executor/wasi_adapters.rs\<close>,
  \<open>src/command/serve.rs\<close> sends the record and the exit message after it on the same socket, and \<open>run\<close>
  (\<open>src/command/run.rs\<close>) prints a line for each datagram of its window. \<open>write_all\<close> is tokio's: a
  parameter, with its documented behaviour as \<open>write_all_law\<close>.
\<close>

section \<open>Printing\<close>

type_synonym poll_writer = "bytes \<Rightarrow> send_result list \<Rightarrow> forwarder \<Rightarrow> forwarder \<times> write_poll \<times> bytes list"

text \<open>\<open>wa pw data polls fo\<close>: the forwarder and the datagrams after writing \<open>data\<close>; each element of
  \<open>polls\<close> is what the socket answers during one call of \<open>poll_write\<close>. A write that is pending is polled
  again with the same data, one that failed ends, one that took \<open>n > 0\<close> bytes goes on with the rest.\<close>

type_synonym write_all = "poll_writer \<Rightarrow> bytes \<Rightarrow> send_result list list \<Rightarrow> forwarder \<Rightarrow> forwarder \<times> bytes list"

definition write_all_law :: "write_all \<Rightarrow> bool" where
  "write_all_law wa \<longleftrightarrow>
     (\<forall>pw polls fo. wa pw [] polls fo = (fo, [])) \<and>
     (\<forall>pw data fo. wa pw data [] fo = (fo, [])) \<and>
     (\<forall>pw data rs polls fo fo' w out. data \<noteq> [] \<longrightarrow> pw data rs fo = (fo', w, out) \<longrightarrow>
        wa pw data (rs # polls) fo =
          (case w of
             ReadyErr \<Rightarrow> (fo', out)
           | Pending \<Rightarrow> (case wa pw data polls fo' of (fo'', out') \<Rightarrow> (fo'', out @ out'))
           | ReadyOk n \<Rightarrow> if n = 0 then (fo', out)
                        else (case wa pw (drop n data) polls fo' of (fo'', out') \<Rightarrow> (fo'', out @ out'))))"

text \<open>Every call of \<open>print\<close> writes through its own copy of the forwarder the program was started with.\<close>

definition program_forwarder :: "u64 \<Rightarrow> socket_addr \<Rightarrow> forwarder" where
  "program_forwarder pid caller = set_pid pid (new_udp caller)"

definition print_datagrams :: "write_all \<Rightarrow> bare_codec \<Rightarrow> u64 \<Rightarrow> socket_addr \<Rightarrow> send_result list list \<Rightarrow> bytes \<Rightarrow> bytes list" where
  "print_datagrams wa ba pid caller polls data = snd (wa (poll_write ba) data polls (program_forwarder pid caller))"

text \<open>All datagrams a run sends to its caller, in order: the prints, then record and exit message.
  \<open>polls i\<close> is what the socket answers the \<open>i\<close>-th print.\<close>

definition run_datagrams ::
  "write_all \<Rightarrow> serve_env \<Rightarrow> (nat \<Rightarrow> send_result list list) \<Rightarrow> socket_addr \<Rightarrow> program_data \<Rightarrow> executor \<Rightarrow> bytes list" where
  "run_datagrams wa env polls caller program ex =
     (case request_run env caller program ex of
        None \<Rightarrow> []
      | Some (pid, code, hs) \<Rightarrow>
          concat (map (\<lambda>(i, data). print_datagrams wa (ck_bare (sv_crates env)) pid caller (polls i) data)
            (enumerate 0 (hs_stdout hs)))) @
     List.map_filter (\<lambda>ev. case ev of SendTo b addr \<Rightarrow> (if addr = caller then Some b else None) | _ \<Rightarrow> None)
       (snd (snd (handle_execute_request env caller program ex)))"

section \<open>Lemmas\<close>

lemma concat_enumerate_if:
  "concat (map (\<lambda>(i, x). if P x then [f x] else []) (enumerate n xs)) = map f (filter P xs)"
  by (induction xs arbitrary: n) auto

lemma program_forwarder_idle: "idle_forwarder (program_forwarder pid caller)" "fo_our_pid (program_forwarder pid caller) = pid"
  by (simp_all add: idle_forwarder_def program_forwarder_def set_pid_def new_udp_def)

lemma sends_of_option_out:
  "List.map_filter (\<lambda>ev. case ev of SendTo b addr \<Rightarrow> (if addr = caller then Some b else None) | _ \<Rightarrow> None)
     (option_out caller e) = option_list e"
  by (cases e) (simp_all add: option_out_def option_list_def map_filter_Cons map_filter_Nil)

lemma run_datagrams_eq:
  assumes "request_run env caller p ex = Some (pid, code, hs)"
  shows "run_datagrams wa env polls caller p ex =
    concat (map (\<lambda>(i, data). print_datagrams wa (ck_bare (sv_crates env)) pid caller (polls i) data) (enumerate 0 (hs_stdout hs))) @
    (case hs_map hs of None \<Rightarrow> []
     | Some cbor \<Rightarrow> option_list (ba_to_vec (ck_bare (sv_crates env)) (BasicReturnMap pid (pd_request_uuid p) cbor))) @
    (if sv_send_exit_ok env
     then option_list (ba_to_vec (ck_bare (sv_crates env)) (BasicInsecureProgramExit pid code)) else [])"
  using assms
  by (cases "hs_map hs")
    (simp_all add: run_datagrams_def request_out report_out_def map_filter_append sends_of_option_out
      map_filter_Cons map_filter_Nil)

section \<open>The client's window\<close>

text \<open>The datagrams \<open>ds\<close> arrive at the polls \<open>ts\<close>; the others time out. \<open>in_time\<close>: each
  arrives while the window, ten polls longer after each reply, is open.\<close>

definition arrive :: "nat list \<Rightarrow> bytes list \<Rightarrow> nat \<Rightarrow> poll" where
  "arrive ts ds j = (case map_of (zip ts ds) j of Some d \<Rightarrow> Got d | None \<Rightarrow> PollTimeout)"

fun in_time :: "nat \<Rightarrow> nat \<Rightarrow> nat list \<Rightarrow> bool" where
  "in_time now closing [] \<longleftrightarrow> True"
| "in_time now closing (t # ts) \<longleftrightarrow> now \<le> t \<and> t < closing \<and> in_time (Suc t) (closing + 10) ts"

lemma in_time_later: "in_time now closing ts \<Longrightarrow> ts = [] \<or> now < hd ts \<Longrightarrow> in_time (Suc now) closing ts"
  by (cases ts) auto

lemma in_time_ge: "in_time now closing ts \<Longrightarrow> t \<in> set ts \<Longrightarrow> now \<le> t"
  by (induction now closing ts rule: in_time.induct) auto

lemma arrive_Cons: "length ts = length ds \<Longrightarrow> arrive (t # ts) (d # ds) j = (if j = t then Got d else arrive ts ds j)"
  by (simp add: arrive_def)

lemma arrive_none: "j \<notin> set ts \<Longrightarrow> arrive ts ds j = PollTimeout"
proof -
  assume "j \<notin> set ts"
  then have "map_of (zip ts ds) j = None" by (auto simp: map_of_eq_None_iff dest: set_zip_leftD)
  then show ?thesis by (simp add: arrive_def)
qed

lemma timely_replies_shown:
  assumes "in_time i (i + r) ts" and "length ts = length ds"
    and "\<And>d. d \<in> set ds \<Longrightarrow> is_reply ba buf_len (Got d)" and "\<And>j. i \<le> j \<Longrightarrow> evs j = arrive ts ds j"
  shows "poll_replies ba buf_len evs i r printed =
    Some (i + r + 10 * length ts, printed @ concat (map (\<lambda>d. lines_of ba buf_len (Got d)) ds))"
  using assms
proof (induction "r + 11 * length ts" arbitrary: i r ts ds printed rule: less_induct)
  case less
  show ?case
  proof (cases "r = 0")
    case True
    with less.prems(1,2) show ?thesis by (cases ts) (auto simp: poll_replies_done)
  next
    case False
    note open_ = False
    show ?thesis
    proof (cases "\<exists>ts'. ts = i # ts'")
      case True
      then obtain ts' where ts: "ts = i # ts'" by blast
      then obtain d ds' where ds: "ds = d # ds'" "length ts' = length ds'" using less.prems(2) by (cases ds) auto
      have got: "evs i = Got d" "is_reply ba buf_len (Got d)"
        using less.prems(3,4) by (auto simp: ts ds arrive_Cons)
      have later: "evs j = arrive ts' ds' j" if "Suc i \<le> j" for j
        using less.prems(4) [of j] that by (simp add: ts ds arrive_Cons)
      have "in_time (Suc i) (Suc i + (r - 1 + 10)) ts'" using less.prems(1) open_ by (simp add: ts ac_simps)
      from less.hyps [OF _ this ds(2) _ later] less.prems(3)
      have "poll_replies ba buf_len evs (Suc i) (r - 1 + 10) (printed @ lines_of ba buf_len (Got d)) =
          Some (Suc i + (r - 1 + 10) + 10 * length ts', (printed @ lines_of ba buf_len (Got d)) @
            concat (map (\<lambda>d. lines_of ba buf_len (Got d)) ds'))"
        by (simp add: ts ds)
      then show ?thesis using open_ got by (simp add: poll_replies_step ts ds)
    next
      case False
      note quiet = False
      have "i \<notin> set ts"
      proof (cases ts)
        case (Cons t list)
        with quiet have "t \<noteq> i" by blast
        with Cons less.prems(1) show ?thesis by (auto dest: in_time_ge)
      qed simp
      then have out: "evs i = PollTimeout" using less.prems(4) [of i] by (simp add: arrive_none)
      have "ts = [] \<or> i < hd ts" using less.prems(1) \<open>i \<notin> set ts\<close> by (cases ts) auto
      then have "in_time (Suc i) (Suc i + (r - 1)) ts" using in_time_later [OF less.prems(1)] open_ by simp
      from less.hyps [OF _ this less.prems(2,3)] less.prems(4) open_
      have "poll_replies ba buf_len evs (Suc i) (r - 1) printed =
          Some (Suc i + (r - 1) + 10 * length ts, printed @ concat (map (\<lambda>d. lines_of ba buf_len (Got d)) ds))"
        by simp
      then show ?thesis using open_ out
        by (simp add: poll_replies_step is_reply_def lines_of_def on_poll_def)
    qed
  qed
qed

lemma fitting_frame:
  assumes "bare_round_trips ba m" and "ba_to_vec ba m = Some d" and "length d \<le> buf_len"
  shows "is_reply ba buf_len (Got d) \<and> lines_of ba buf_len (Got d) = [reply_line m]"
  using assms by (simp add: is_reply_def lines_of_def on_poll_def bare_round_trips_def)

section \<open>One print\<close>

text \<open>What the socket answers the first time: it takes the datagram whole, is busy, or fails.\<close>

definition whole_or_none :: "bytes \<Rightarrow> send_result list \<Rightarrow> bool" where
  "whole_or_none frame rs \<longleftrightarrow> rs = [] \<or> hd rs \<in> {SendOk (length frame), SendErr, SendPending}"

lemma sent_whole: "send_loop frame (length frame) rs = (None, length frame, [])"
  by (cases rs) simp_all

lemma first_poll:
  assumes "idle_forwarder fo" and "ba_to_vec ba (BasicInsecureProgramStdout (fo_our_pid fo) data) = Some frame"
    and "frame \<noteq> []"
  shows "\<exists>fo'. poll_write ba data (SendOk (length frame) # rs) fo = (fo', ReadyOk (length data), [frame])"
    and "\<exists>fo'. poll_write ba data (SendErr # rs) fo = (fo', ReadyErr, [])"
    and "rs' = [] \<or> hd rs' = SendPending \<Longrightarrow> poll_write ba data rs' fo =
      (fo\<lparr>fo_current_encoded_msg := Some frame, fo_current_encoded_sent := 0\<rparr>, Pending, [])"
proof -
  have f: "fo_current_encoded_msg fo = None" "fo_reply_from fo" "\<exists>a. fo_reply_to fo = Some a"
    using assms(1) by (auto simp: idle_forwarder_def)
  show "\<exists>fo'. poll_write ba data (SendOk (length frame) # rs) fo = (fo', ReadyOk (length data), [frame])"
    using f assms(2,3) by (auto simp: poll_write_def sent_whole)
  show "\<exists>fo'. poll_write ba data (SendErr # rs) fo = (fo', ReadyErr, [])"
    using f assms(2,3) by (auto simp: poll_write_def)
  show "poll_write ba data rs' fo =
      (fo\<lparr>fo_current_encoded_msg := Some frame, fo_current_encoded_sent := 0\<rparr>, Pending, [])"
    if "rs' = [] \<or> hd rs' = SendPending"
    using that f assms(2,3) by (cases rs') (auto simp: poll_write_def)
qed

text \<open>A poll after a pending one, whatever the socket would say.\<close>

lemma second_poll:
  assumes "fo_reply_to fo \<noteq> None" and "fo_reply_from fo" and "fo_current_encoded_msg fo \<noteq> None"
  shows "poll_write ba data rs fo = (fo\<lparr>fo_current_encoded_msg := None\<rparr>, ReadyOk (length data), [])"
  using assms by (auto simp: poll_write_def)

lemma print_datagrams_exact:
  assumes "write_all_law wa" and "ba_to_vec ba (BasicInsecureProgramStdout pid data) = Some frame" and "frame \<noteq> []"
    and "whole_or_none frame rs"
  shows "print_datagrams wa ba pid caller (rs # polls) data =
    (if data \<noteq> [] \<and> rs \<noteq> [] \<and> hd rs = SendOk (length frame) then [frame] else [])"
proof (cases "data = []")
  case True
  with assms(1) show ?thesis by (simp add: print_datagrams_def write_all_law_def)
next
  case False
  let ?fo = "program_forwarder pid caller"
  have end_: "wa pw [] ps fo = (fo, [])" "wa pw d [] fo = (fo, [])" for pw ps fo d
    using assms(1) by (auto simp: write_all_law_def)
  have step: "wa pw data (q # ps) fo = (case w of
             ReadyErr \<Rightarrow> (fo', out)
           | Pending \<Rightarrow> (case wa pw data ps fo' of (fo'', out') \<Rightarrow> (fo'', out @ out'))
           | ReadyOk n \<Rightarrow> if n = 0 then (fo', out)
                        else (case wa pw (drop n data) ps fo' of (fo'', out') \<Rightarrow> (fo'', out @ out')))"
    if "pw data q fo = (fo', w, out)" for pw q ps fo fo' w out
    using assms(1) False that unfolding write_all_law_def by blast
  note polls = first_poll [OF program_forwarder_idle(1), unfolded program_forwarder_idle(2), OF assms(2,3)]
  consider (ok) rs' where "rs = SendOk (length frame) # rs'" | (err) rs' where "rs = SendErr # rs'"
    | (pending) "rs = [] \<or> hd rs = SendPending"
    using assms(4) by (cases rs) (auto simp: whole_or_none_def)
  then show ?thesis
  proof cases
    case ok
    obtain fo' where "poll_write ba data rs ?fo = (fo', ReadyOk (length data), [frame])" using polls(1) ok by blast
    with step [where pw = "poll_write ba", OF this] show ?thesis using False ok by (simp add: print_datagrams_def end_)
  next
    case err
    obtain fo' where "poll_write ba data rs ?fo = (fo', ReadyErr, [])" using polls(2) err by blast
    with step [where pw = "poll_write ba", OF this] show ?thesis using err by (simp add: print_datagrams_def)
  next
    case pending
    let ?fo' = "?fo\<lparr>fo_current_encoded_msg := Some frame, fo_current_encoded_sent := 0\<rparr>"
    have p: "poll_write ba data rs ?fo = (?fo', Pending, [])" by (rule polls(3) [OF pending])
    have q: "poll_write ba data rs' ?fo' = (?fo'\<lparr>fo_current_encoded_msg := None\<rparr>, ReadyOk (length data), [])" for rs'
      by (rule second_poll) (simp_all add: program_forwarder_def set_pid_def new_udp_def)
    have "snd (wa (poll_write ba) data ps ?fo') = []" for ps
      by (cases ps) (simp_all add: end_ step [where pw = "poll_write ba", OF q] False)
    with pending show ?thesis by (auto simp: print_datagrams_def step [where pw = "poll_write ba", OF p] case_prod_unfold)
  qed
qed

text \<open>The messages of a run, and the datagrams that carry them when the socket takes each one.\<close>

definition run_messages :: "u64 \<Rightarrow> u32 \<Rightarrow> program_data \<Rightarrow> host_state \<Rightarrow> network_message list" where
  "run_messages pid code p hs =
     map (BasicInsecureProgramStdout pid) (filter (\<lambda>data. data \<noteq> []) (hs_stdout hs)) @
     map (BasicReturnMap pid (pd_request_uuid p)) (option_list (hs_map hs)) @ [BasicInsecureProgramExit pid code]"

definition sends_whole :: "bare_codec \<Rightarrow> u64 \<Rightarrow> (nat \<Rightarrow> send_result list list) \<Rightarrow> bytes list \<Rightarrow> bool" where
  "sends_whole ba pid polls prints \<longleftrightarrow>
     (\<forall>(i, data) \<in> set (enumerate 0 prints). data \<noteq> [] \<longrightarrow> (\<forall>frame. ba_to_vec ba (BasicInsecureProgramStdout pid data) = Some frame \<longrightarrow>
        (\<exists>rs polls'. polls i = (SendOk (length frame) # rs) # polls')))"

lemma run_datagrams_frames:
  assumes "write_all_law wa" and "ck_bare (sv_crates env) = ba"
    and "request_run env caller p ex = Some (pid, code, hs)" and "sv_send_exit_ok env"
    and enc: "\<And>m. m \<in> set (run_messages pid code p hs) \<Longrightarrow> \<exists>frame. ba_to_vec ba m = Some frame \<and> frame \<noteq> []"
    and "sends_whole ba pid polls (hs_stdout hs)"
  shows "run_datagrams wa env polls caller p ex = map (\<lambda>m. the (ba_to_vec ba m)) (run_messages pid code p hs)"
proof -
  let ?frame = "\<lambda>m. the (ba_to_vec ba m)"
  have one: "print_datagrams wa ba pid caller (polls i) data =
      (if data \<noteq> [] then [?frame (BasicInsecureProgramStdout pid data)] else [])"
    if m: "(i, data) \<in> set (enumerate 0 (hs_stdout hs))" for i data
  proof (cases "data = []")
    case True
    with assms(1) show ?thesis by (simp add: print_datagrams_def write_all_law_def)
  next
    case False
    have "data \<in> set (hs_stdout hs)" using m by (auto simp: enumerate_eq_zip dest: set_zip_rightD)
    then obtain frame where f: "ba_to_vec ba (BasicInsecureProgramStdout pid data) = Some frame" "frame \<noteq> []"
      using enc [of "BasicInsecureProgramStdout pid data"] False by (auto simp: run_messages_def)
    obtain rs polls' where "polls i = (SendOk (length frame) # rs) # polls'"
      using assms(6) m f(1) False unfolding sends_whole_def by fast
    with print_datagrams_exact [OF assms(1) f, of "SendOk (length frame) # rs"] f(1) False show ?thesis
      by (simp add: whole_or_none_def)
  qed
  have "concat (map (\<lambda>(i, data). print_datagrams wa ba pid caller (polls i) data) (enumerate 0 (hs_stdout hs))) =
      concat (map (\<lambda>(i, data). if data \<noteq> [] then [?frame (BasicInsecureProgramStdout pid data)] else []) (enumerate 0 (hs_stdout hs)))"
    using one by (intro arg_cong [where f = concat] map_cong) auto
  also have "\<dots> = map (\<lambda>data. ?frame (BasicInsecureProgramStdout pid data)) (filter (\<lambda>data. data \<noteq> []) (hs_stdout hs))"
    by (rule concat_enumerate_if)
  finally have prints: "concat (map (\<lambda>(i, data). print_datagrams wa ba pid caller (polls i) data) (enumerate 0 (hs_stdout hs))) =
      map (\<lambda>data. ?frame (BasicInsecureProgramStdout pid data)) (filter (\<lambda>data. data \<noteq> []) (hs_stdout hs))" .
  have frame: "option_list (ba_to_vec ba m) = [?frame m]" if "m \<in> set (run_messages pid code p hs)" for m
    using enc [OF that] by (auto simp: option_list_def)
  show ?thesis
    unfolding run_datagrams_eq [OF assms(3)] assms(2) prints using assms(4) frame unfolding run_messages_def
    by (cases "hs_map hs") (simp_all add: option_list_def [of None] option_list_def [of "Some _"])
qed

section \<open>Properties\<close>

text \<open>C32: what of a program's output is sent. Each \<open>host::print\<close> of some bytes is one datagram with
  exactly these bytes under the program's pid, if the socket takes it at the first attempt. An empty
  print sends nothing. When the socket is busy the print is lost, however often it is tried again: the
  second attempt reports success and sends nothing, and the program goes on.\<close>

theorem print_sent_exact:
  assumes "write_all_law wa" and "ba_to_vec ba (BasicInsecureProgramStdout pid data) = Some frame" and "frame \<noteq> []"
    and "whole_or_none frame rs" and "bare_round_trips ba (BasicInsecureProgramStdout pid data)"
  shows "((\<exists>d\<in>set (print_datagrams wa ba pid caller (rs # polls) data).
       ba_from_slice ba d = Some (BasicInsecureProgramStdout pid data)) \<longleftrightarrow>
     data \<noteq> [] \<and> rs \<noteq> [] \<and> hd rs = SendOk (length frame)) \<and>
   length (print_datagrams wa ba pid caller (rs # polls) data) \<le> 1"
  using assms(2,5) unfolding print_datagrams_exact [OF assms(1-4)] by (auto simp: bare_round_trips_def)

text \<open>C31: a program's output reaches the terminal. When the node's socket takes every datagram, the
  datagrams fit the buffer of \<open>run\<close> and arrive in order while its window is open, \<open>run\<close> prints one line for
  each non-empty print of the program, in order and with its bytes, then a line for its record
  if it returned one, then its exit line with pid and code; and it ends 24 polls after it started plus ten for
  each of these lines.\<close>

theorem run_shows_output:
  assumes "write_all_law wa" and "\<And>m. bare_round_trips ba m" and "ck_bare (sv_crates env) = ba"
    and "request_run env caller p ex = Some (pid, code, hs)" and "sv_send_exit_ok env"
    and "\<And>m. m \<in> set (run_messages pid code p hs) \<Longrightarrow>
         \<exists>frame. ba_to_vec ba m = Some frame \<and> frame \<noteq> [] \<and> length frame \<le> 16384"
    and "sends_whole ba pid polls (hs_stdout hs)"
    and "length ts = length (run_datagrams wa env polls caller p ex)" and "in_time 0 24 ts"
  shows "read_daemon_replies ba (arrive ts (run_datagrams wa env polls caller p ex)) =
    Some (24 + 10 * length ts,
      map (\<lambda>data. reply_line (BasicInsecureProgramStdout pid data)) (filter (\<lambda>data. data \<noteq> []) (hs_stdout hs)) @
      map (\<lambda>cbor. Unexpected (BasicReturnMap pid (pd_request_uuid p) cbor)) (option_list (hs_map hs)) @
      [ExitLine pid code])"
proof -
  let ?ds = "run_datagrams wa env polls caller p ex" and ?msgs = "run_messages pid code p hs"
  have ds: "?ds = map (\<lambda>m. the (ba_to_vec ba m)) ?msgs"
    using assms(6) by (intro run_datagrams_frames [OF assms(1,3,4,5) _ assms(7)]) blast
  have fit: "is_reply ba 16384 (Got (the (ba_to_vec ba m))) \<and> lines_of ba 16384 (Got (the (ba_to_vec ba m))) = [reply_line m]"
    if "m \<in> set ?msgs" for m
    using assms(6) [OF that] fitting_frame [OF assms(2)] by fastforce
  have "map (\<lambda>d. lines_of ba 16384 (Got d)) ?ds = map (\<lambda>m. [reply_line m]) ?msgs"
    unfolding ds using fit by simp
  then have "concat (map (\<lambda>d. lines_of ba 16384 (Got d)) ?ds) = map reply_line ?msgs"
    by (simp only: concat_map_singleton)
  moreover have "is_reply ba 16384 (Got d)" if "d \<in> set ?ds" for d
    using that fit unfolding ds by auto
  ultimately show ?thesis
    using timely_replies_shown [of 0 24 ts ?ds ba 16384 "arrive ts ?ds" "[]"] assms(8,9)
    by (simp add: read_daemon_replies_def run_messages_def comp_def)
qed

text \<open>\<open>run-local\<close> and \<open>chat\<close> start their program with the forwarder that goes nowhere: every print succeeds and
  is dropped.\<close>

lemma nop_drops_output:
  assumes "write_all_law wa"
  shows "snd (wa (poll_write ba) data polls (set_pid pid new_nop)) = []"
proof -
  have none: "poll_write ba d rs (set_pid pid new_nop) = (set_pid pid new_nop, ReadyOk (length d), [])" for d rs
    by (simp add: poll_write_def set_pid_def new_nop_def)
  show ?thesis
  proof (cases "data = [] \<or> polls = []")
    case True
    with assms show ?thesis by (auto simp: write_all_law_def)
  next
    case False
    then obtain rs polls' where p: "polls = rs # polls'" by (cases polls) auto
    have "wa (poll_write ba) [] polls' (set_pid pid new_nop) = (set_pid pid new_nop, [])"
      using assms by (simp add: write_all_law_def)
    with assms False none [of data rs] show ?thesis unfolding p write_all_law_def by simp
  qed
qed

section \<open>Concrete instances\<close>

fun demo_write_all :: write_all where
  "demo_write_all pw data [] fo = (fo, [])"
| "demo_write_all pw data (rs # polls) fo =
     (if data = [] then (fo, [])
      else case pw data rs fo of (fo', w, out) \<Rightarrow>
        (case w of
           ReadyErr \<Rightarrow> (fo', out)
         | Pending \<Rightarrow> (case demo_write_all pw data polls fo' of (fo'', out') \<Rightarrow> (fo'', out @ out'))
         | ReadyOk n \<Rightarrow> if n = 0 then (fo', out)
                      else (case demo_write_all pw (drop n data) polls fo' of (fo'', out') \<Rightarrow> (fo'', out @ out'))))"

lemma demo_write_all_law: "write_all_law demo_write_all"
proof -
  have "demo_write_all pw [] polls fo = (fo, [])" for pw polls fo by (cases polls) simp_all
  then show ?thesis by (simp add: write_all_law_def)
qed

definition table_bare :: "(network_message \<times> bytes) list \<Rightarrow> bare_codec" where
  "table_bare tbl = \<lparr>ba_to_vec = map_of tbl, ba_from_slice = map_of (map (\<lambda>(m, b). (b, m)) tbl)\<rparr>"

lemma table_bare_round_trips:
  assumes "distinct (map snd tbl)"
  shows "bare_round_trips (table_bare tbl) m"
proof -
  have "distinct (map fst (map (\<lambda>(m, b). (b, m)) tbl))" using assms by (simp add: comp_def case_prod_unfold)
  then show ?thesis
    by (auto simp: bare_round_trips_def table_bare_def intro!: map_of_is_SomeI dest!: map_of_SomeD)
qed

text \<open>A program that prints \<open>hi\<close>, then nothing, and exits.\<close>

definition demo_output :: bare_codec where
  "demo_output = table_bare [(BasicInsecureProgramStdout (ex_next_pid demo_executor) [104, 105], [1]),
     (BasicInsecureProgramExit (ex_next_pid demo_executor) 0, [2])]"

definition demo_printing :: serve_env where
  "demo_printing = (demo_serve demo_sent [] demo_guest)
     \<lparr>sv_crates := \<lparr>ck_crypto = demo_crypto, ck_cbor = demo_codec CNull [], ck_bare = demo_output\<rparr>,
      sv_guest := (\<lambda>_. \<lparr>gr_calls = [(demo_env, Some [104, 105], CPrint 0 2), (demo_env, Some [], CPrint 0 0)],
        gr_exit = 0, gr_wait = Inr 0\<rparr>)\<rparr>"

lemma demo_printing_run:
  "\<exists>hs. request_run demo_printing (SockV4 3 3) demo_program demo_executor = Some (ex_next_pid demo_executor, 0, hs) \<and>
     hs_stdout hs = [[104, 105], []] \<and> hs_map hs = None"
  by (simp add: request_run_def demo_printing_def demo_serve_def begin_exec_eq create_pid_eq demo_identity_ok
      demo_program_def demo_engine_def host_print_def print_slice_def guest_init_def Let_def)

theorem run_shows_output_witness:
  "read_daemon_replies demo_output (arrive [3, 30]
       (run_datagrams demo_write_all demo_printing (\<lambda>i. [[SendOk 1]]) (SockV4 3 3) demo_program demo_executor)) =
     Some (44, [StdoutText (ex_next_pid demo_executor) ''hi'', ExitLine (ex_next_pid demo_executor) 0])"
proof -
  let ?pid = "ex_next_pid demo_executor"
  obtain hs where run: "request_run demo_printing (SockV4 3 3) demo_program demo_executor = Some (?pid, 0, hs)"
    and hs: "hs_stdout hs = [[104, 105], []]" "hs_map hs = None" using demo_printing_run by blast
  have c: "ck_bare (sv_crates demo_printing) = demo_output" "sv_send_exit_ok demo_printing"
    by (simp_all add: demo_printing_def demo_serve_def)
  have e: "ba_to_vec demo_output (BasicInsecureProgramStdout ?pid [104, 105]) = Some [1]"
    "ba_to_vec demo_output (BasicInsecureProgramExit ?pid 0) = Some [2]"
    by (simp_all add: demo_output_def table_bare_def)
  have rt: "bare_round_trips demo_output m" for m
    unfolding demo_output_def by (rule table_bare_round_trips) simp
  have len: "length (run_datagrams demo_write_all demo_printing (\<lambda>i. [[SendOk 1]]) (SockV4 3 3) demo_program demo_executor) = 2"
    unfolding run_datagrams_eq [OF run] c(1)
    by (simp add: c(2) hs e option_list_def print_datagrams_def demo_write_all_law [unfolded write_all_law_def]
        program_forwarder_def set_pid_def new_udp_def poll_write_def)
  have u: "from_utf8 [104, 105] = Some ''hi''" by code_simp
  have "read_daemon_replies demo_output (arrive [3, 30]
       (run_datagrams demo_write_all demo_printing (\<lambda>i. [[SendOk 1]]) (SockV4 3 3) demo_program demo_executor)) =
    Some (24 + 10 * length [3 :: nat, 30],
      map (\<lambda>data. reply_line (BasicInsecureProgramStdout ?pid data)) (filter (\<lambda>data. data \<noteq> []) (hs_stdout hs)) @
      map (\<lambda>cbor. Unexpected (BasicReturnMap ?pid (pd_request_uuid demo_program) cbor)) (option_list (hs_map hs)) @
      [ExitLine ?pid 0])"
    by (rule run_shows_output [OF demo_write_all_law rt c(1) run c(2)])
      (auto simp: hs e len [unfolded One_nat_def] option_list_def run_messages_def sends_whole_def)
  then show ?thesis by (simp add: hs u option_list_def)
qed

theorem print_sent_exact_witness:
  "length (print_datagrams demo_write_all demo_output (ex_next_pid demo_executor) (SockV4 3 3)
     ([SendPending] # [[SendOk 1], [SendOk 1]]) [104, 105]) \<le> 1 \<and>
   \<not> (\<exists>d\<in>set (print_datagrams demo_write_all demo_output (ex_next_pid demo_executor) (SockV4 3 3)
     ([SendPending] # [[SendOk 1], [SendOk 1]]) [104, 105]).
       ba_from_slice demo_output d = Some (BasicInsecureProgramStdout (ex_next_pid demo_executor) [104, 105]))"
proof -
  have rt: "bare_round_trips demo_output m" for m
    unfolding demo_output_def by (rule table_bare_round_trips) simp
  have e: "ba_to_vec demo_output (BasicInsecureProgramStdout (ex_next_pid demo_executor) [104, 105]) = Some [1]"
    by (simp add: demo_output_def table_bare_def)
  show ?thesis
    using print_sent_exact [OF demo_write_all_law e _ _ rt, of "[SendPending]" "SockV4 3 3" "[[SendOk 1], [SendOk 1]]"]
    by (simp add: whole_or_none_def)
qed

end
