(* ===== verification/Utils.thy ===== *)
theory Utils
  imports Complex_Main Process
begin

text \<open>
  The small helpers: sizes for people (\<open>src/fs_utils.rs\<close>), errors that name their place
  (\<open>src/err_utils.rs\<close>), the default key file (\<open>src/config.rs\<close>), and what \<open>main\<close> (\<open>src/main.rs\<close>) does around
  \<open>Process.async_main\<close>. A positive \<open>f32\<close> is a fraction whose denominator is a power of two.
\<close>

section \<open>Sizes\<close>

text \<open>Rounding of a quotient to the nearest integer, ties to even.\<close>

definition round_half_even :: "nat \<Rightarrow> nat \<Rightarrow> nat" where
  "round_half_even a b =
     (let q = a div b; r = a mod b in if 2 * r < b \<or> 2 * r = b \<and> even q then q else q + 1)"

fun log2_floor :: "nat \<Rightarrow> nat" where
  "log2_floor n = (if n < 2 then 0 else Suc (log2_floor (n div 2)))"

declare log2_floor.simps [simp del]

text \<open>The \<open>f32\<close> nearest to a quotient that is at least 1: 24 significant bits.\<close>

definition f32_nearest :: "nat \<Rightarrow> nat \<Rightarrow> nat \<times> nat" where
  "f32_nearest a b =
     (let e = log2_floor (a div b) in
      if e \<le> 23 then (round_half_even (a * 2 ^ (23 - e)) b, 2 ^ (23 - e))
      else (round_half_even a (b * 2 ^ (e - 23)) * 2 ^ (e - 23), 1))"

text \<open>\<open>size as f32 / unit\<close>, and \<open>{:.1}\<close> of it in tenths.\<close>

definition f32_quotient :: "nat \<Rightarrow> nat \<Rightarrow> nat \<times> nat" where
  "f32_quotient len unit_size = (case f32_nearest len 1 of (n, d) \<Rightarrow> f32_nearest n (d * unit_size))"

definition shown_tenths :: "nat \<Rightarrow> nat \<Rightarrow> nat" where
  "shown_tenths len unit_size = (case f32_quotient len unit_size of (n, d) \<Rightarrow> round_half_even (10 * n) d)"

definition show_tenths :: "nat \<Rightarrow> string" where
  "show_tenths t = show_nat (t div 10) @ ''.'' @ show_nat (t mod 10)"

definition format_size_bytes :: "nat \<Rightarrow> string" where
  "format_size_bytes len =
     (if len < 1000 then show_nat len @ ''b''
      else if len < 1000000 then show_tenths (shown_tenths len 1000) @ ''kb''
      else if len < 1000000000 then show_tenths (shown_tenths len 1000000) @ ''mb''
      else show_tenths (shown_tenths len 1000000000) @ ''gb'')"

section \<open>Errors\<close>

record location_error =
  le_file :: string
  le_line :: u32
  le_function :: string
  le_source :: string

definition show_location_error :: "location_error \<Rightarrow> string" where
  "show_location_error e =
     ''at '' @ le_file e @ '':'' @ show_nat (unat (le_line e)) @ [CHR 0x09] @ le_function e @ [CHR 0x0A] @ le_source e"

text \<open>\<open>str::strip_suffix\<close> and \<open>str::replace\<close> of a non-empty pattern by nothing.\<close>

definition strip_suffix :: "string \<Rightarrow> string \<Rightarrow> string option" where
  "strip_suffix suf s =
     (if length suf \<le> length s \<and> drop (length s - length suf) s = suf
      then Some (take (length s - length suf) s) else None)"

function remove_all :: "string \<Rightarrow> string \<Rightarrow> string" where
  "remove_all pat [] = []"
| "remove_all pat (c # cs) =
     (if pat \<noteq> [] \<and> take (length pat) (c # cs) = pat then remove_all pat (drop (length pat) (c # cs))
      else c # remove_all pat cs)"
  by pat_completeness auto
termination by (relation "measure (\<lambda>(pat, s). length s)") (auto simp: Suc_le_eq)

text \<open>The name in a \<open>LocationError\<close>: \<open>type_name\<close> of a function declared inside the one that fails, without
  its own name and the path of the module. \<open>None\<close>: the \<open>unwrap\<close> panics.\<close>

definition location_function :: "string \<Rightarrow> string \<Rightarrow> string option" where
  "location_function module_path name =
     map_option (\<lambda>fn_name.
       let fn_name = remove_all module_path fn_name in
       if 2 < length fn_name then drop 2 fn_name else fn_name) (strip_suffix ''::f'' name)"

section \<open>The default key file\<close>

text \<open>\<open>Path::parent\<close> of a path that ends in a file name below some directory.\<close>

definition path_parent :: "platform \<Rightarrow> string \<Rightarrow> string option" where
  "path_parent p s =
     (let dir = rev (dropWhile (\<lambda>c. \<not> is_sep p c) (rev s));
          dir' = rev (dropWhile (is_sep p) (rev dir))
      in if s = [] \<or> dir = s then None
         else Some (if dir' = [] then take 1 dir else dir'))"

definition default_identity_keyfile :: "args_env \<Rightarrow> string" where
  "default_identity_keyfile e =
     (case path_parent (ae_platform e) (default_config_path e) of
        Some dir \<Rightarrow> path_join (ae_platform e) dir ''identity.pem''
      | None \<Rightarrow> ''weverywhere-identity.pem'')"

section \<open>main\<close>

text \<open>\<open>GLOBAL_VERBOSITY\<close> is empty until \<open>main\<close> sets it.\<close>

definition get_global_verbosity :: "u8 option \<Rightarrow> u8" where
  "get_global_verbosity global = (case global of Some v \<Rightarrow> v | None \<Rightarrow> 0)"

definition global_v_is_info :: "u8 option \<Rightarrow> bool" where
  "global_v_is_info global \<longleftrightarrow> 0 < get_global_verbosity global"

definition global_v_is_debug :: "u8 option \<Rightarrow> bool" where
  "global_v_is_debug global \<longleftrightarrow> 1 < get_global_verbosity global"

definition global_v_is_everything :: "u8 option \<Rightarrow> bool" where
  "global_v_is_everything global \<longleftrightarrow> 2 < get_global_verbosity global"

text \<open>A start with the parsed arguments. \<open>runtime_ok\<close>: tokio's runtime can be built; a panic ends the
  process with code 101.\<close>

record outcome =
  oc_verbosity :: "u8 option"
  oc_log :: log_writer
  oc_warns_log :: bool
  oc_shows_args :: bool
  oc_effects :: "effects option"
  oc_exit_code :: nat

definition program_main :: "(string \<Rightarrow> bool) \<Rightarrow> bool \<Rightarrow> process_env \<Rightarrow> args \<Rightarrow> string \<Rightarrow> outcome" where
  "program_main can_open runtime_ok e a input =
     (let start = \<lparr>oc_verbosity = Some (ar_verbosity a), oc_log = log_destination can_open a,
            oc_warns_log = (case ar_log_file a of Some path \<Rightarrow> \<not> can_open path | None \<Rightarrow> False),
            oc_shows_args = v_is_debug a, oc_effects = None, oc_exit_code = 101\<rparr>
      in if runtime_ok
         then let r = async_main e a input in start\<lparr>oc_effects := Some r, oc_exit_code := main_exit_code r\<rparr>
         else start)"

lemmas size_defs = format_size_bytes_def shown_tenths_def f32_quotient_def f32_nearest_def log2_floor.simps
  round_half_even_def show_tenths_def Let_def show_nat_def show_base.simps digit_char_def

section \<open>Lemmas\<close>

lemma round_half_even_error:
  assumes "0 < b"
  shows "\<bar>real (round_half_even a b) - real a / real b\<bar> \<le> 1 / 2"
proof -
  let ?q = "a div b" and ?r = "a mod b"
  have a: "real a = real ?q * real b + real ?r" using div_mult_mod_eq [of a b] by (metis of_nat_add of_nat_mult)
  have r: "real ?r < real b" using assms by simp
  have q: "real a / real b = real ?q + real ?r / real b" using a assms by (simp add: add_divide_distrib)
  have "2 * ?r \<le> b \<or> b \<le> 2 * ?r \<and> round_half_even a b = ?q + 1"
    by (auto simp: round_half_even_def Let_def)
  moreover have "round_half_even a b = ?q \<or> round_half_even a b = ?q + 1"
    by (simp add: round_half_even_def Let_def)
  moreover have "round_half_even a b = ?q \<Longrightarrow> 2 * ?r \<le> b" by (auto simp: round_half_even_def Let_def split: if_splits)
  ultimately consider "round_half_even a b = ?q" "2 * ?r \<le> b" | "round_half_even a b = ?q + 1" "b \<le> 2 * ?r"
    by (auto simp: round_half_even_def Let_def split: if_splits)
  then show ?thesis
  proof cases
    case 1
    then have "real ?r / real b \<le> 1 / 2" using assms by (simp add: field_simps)
    moreover have "0 \<le> real ?r / real b" by simp
    ultimately show ?thesis unfolding 1(1) q by linarith
  next
    case 2
    then have "1 / 2 \<le> real ?r / real b" using assms by (simp add: field_simps)
    moreover have "real ?r / real b < 1" using r assms by simp
    ultimately show ?thesis unfolding 2(1) q by simp
  qed
qed

lemma abs_scaled: "0 < u \<Longrightarrow> \<bar>u * y - x\<bar> = u * \<bar>y - x / u\<bar>" for u x y :: real
proof -
  assume "0 < u"
  then have "u * y - x = u * (y - x / u)" by (simp add: right_diff_distrib)
  then show ?thesis using \<open>0 < u\<close> by (simp add: abs_mult)
qed

lemma quotient_power: "T = 2 * s * E \<Longrightarrow> 0 < s \<Longrightarrow> 0 < E \<Longrightarrow> 1 / (2 * s) = E / T" for s E T :: real
  by simp

lemma log2_floor_le: "0 < n \<Longrightarrow> 2 ^ log2_floor n \<le> n"
proof (induction n rule: log2_floor.induct)
  case (1 n)
  then show ?case by (subst log2_floor.simps) (cases "n < 2"; auto)
qed

text \<open>Half a unit in the last of 24 places.\<close>

lemma f32_nearest_error:
  assumes "0 < b" and "f32_nearest a b = (n, d)"
  shows "0 < d \<and> \<bar>real n / real d - real a / real b\<bar> \<le> max 1 (real a / real b) / 2 ^ 24"
proof -
  let ?e = "log2_floor (a div b)"
  have low: "(2 :: real) ^ ?e \<le> max 1 (real a / real b)"
  proof (cases "a div b = 0")
    case True
    then show ?thesis by (simp add: log2_floor.simps)
  next
    case False
    then have "real (2 ^ ?e) \<le> real (a div b)" using log2_floor_le by (intro of_nat_mono) simp
    moreover have "real (a div b) * real b \<le> real a"
      unfolding of_nat_mult [symmetric] of_nat_le_iff by (simp add: div_times_less_eq_dividend)
    then have "real (a div b) \<le> real a / real b" using assms(1) by (simp add: le_divide_eq)
    ultimately have "(2 :: real) ^ ?e \<le> real a / real b" by (metis of_nat_numeral of_nat_power order_trans)
    then show ?thesis by simp
  qed
  show ?thesis
  proof (cases "?e \<le> 23")
    case True
    let ?s = "2 ^ (23 - ?e) :: nat"
    have nd: "n = round_half_even (a * ?s) b" "d = ?s" using assms(2) True by (auto simp: f32_nearest_def Let_def)
    have "\<bar>real n - real a / real b * real ?s\<bar> \<le> 1 / 2"
      using round_half_even_error [OF assms(1), of "a * ?s"] nd(1) by simp
    moreover have "real n - real a / real b * real ?s = (real n / real ?s - real a / real b) * real ?s"
      by (simp add: left_diff_distrib)
    ultimately have "\<bar>(real n / real ?s - real a / real b) * real ?s\<bar> \<le> 1 / 2" by (simp only:)
    moreover have "\<bar>z\<bar> \<le> 1 / (2 * s)" if "\<bar>z * s\<bar> \<le> 1 / 2" and "0 < s" for z s :: real
      using that by (simp add: abs_mult field_simps)
    ultimately have "\<bar>real n / real ?s - real a / real b\<bar> \<le> 1 / (2 * real ?s)" by simp
    also have "1 / (2 * real ?s) = 2 ^ ?e / 2 ^ 24"
    proof (rule quotient_power)
      show "(2 :: real) ^ 24 = 2 * real ?s * 2 ^ ?e" using True by (simp flip: power_add power_Suc)
    qed simp_all
    also have "\<dots> \<le> max 1 (real a / real b) / 2 ^ 24" using low by (simp add: divide_right_mono)
    finally show ?thesis using nd(2) by simp
  next
    case False
    let ?s = "2 ^ (?e - 23) :: nat"
    have nd: "n = round_half_even a (b * ?s) * ?s" "d = 1" using assms(2) False by (auto simp: f32_nearest_def Let_def)
    have "\<bar>real (round_half_even a (b * ?s)) - real a / real (b * ?s)\<bar> \<le> 1 / 2"
      using assms(1) by (intro round_half_even_error) simp
    then have "\<bar>real (round_half_even a (b * ?s)) - real a / real (b * ?s)\<bar> * real ?s \<le> 1 / 2 * real ?s"
      by (intro mult_right_mono) simp_all
    moreover have "real n - real a / real b = (real (round_half_even a (b * ?s)) - real a / real (b * ?s)) * real ?s"
      unfolding nd(1) by (simp add: left_diff_distrib)
    ultimately have "\<bar>real n - real a / real b\<bar> \<le> real ?s / 2" by (simp add: abs_mult)
    also have "real ?s / 2 = 2 ^ ?e / 2 ^ 24"
    proof -
      have "(2 :: real) ^ ?e = 2 ^ ((?e - 23) + 23)" using False by (intro arg_cong [where f = "(^) 2"]) simp
      then have "(2 :: real) ^ ?e = real ?s * 2 ^ 23" by (simp only: power_add of_nat_power of_nat_numeral)
      then show ?thesis by simp
    qed
    also have "\<dots> \<le> max 1 (real a / real b) / 2 ^ 24" using low by (simp add: divide_right_mono)
    finally show ?thesis using nd(2) by simp
  qed
qed

lemma shown_tenths_error:
  assumes "0 < u" and "u \<le> len"
  shows "\<bar>10 * real len - real u * real (shown_tenths len u)\<bar> \<le> real u / 2 + 10 * real len / 2 ^ 22"
proof -
  obtain n1 d1 where f1: "f32_nearest len 1 = (n1, d1)" by fastforce
  obtain n d where f2: "f32_nearest n1 (d1 * u) = (n, d)" by fastforce
  let ?x = "real n1 / real d1" and ?y = "real n / real d" and ?t = "real (shown_tenths len u)"
  have u: "1 \<le> real u" "real u \<le> real len" using assms by auto
  have d1: "0 < d1" and e1: "\<bar>?x - real len\<bar> \<le> real len / 2 ^ 24"
    using f32_nearest_error [OF _ f1] u by auto
  have d: "0 < d" and e2: "\<bar>?y - ?x / real u\<bar> \<le> max 1 (?x / real u) / 2 ^ 24"
    using f32_nearest_error [OF _ f2] d1 assms(1) by auto
  have "shown_tenths len u = round_half_even (10 * n) d" unfolding shown_tenths_def f32_quotient_def f1 prod.case f2 ..
  then have e3: "\<bar>?t - 10 * ?y\<bar> \<le> 1 / 2" using round_half_even_error [OF d, of "10 * n"] by simp
  have x: "?x \<le> 2 * real len"
  proof -
    have "x \<le> 2 * l" if "\<bar>x - l\<bar> \<le> l / 2 ^ 24" and "0 \<le> l" for x l :: real
      using that abs_ge_self [of "x - l"] by simp
    from this [OF e1] show ?thesis by simp
  qed
  have "real u * max 1 (?x / real u) = max (real u) ?x" using u by (simp add: max_mult_distrib_left)
  also have "\<dots> \<le> 2 * real len" using x u by simp
  finally have m: "real u * (max 1 (?x / real u) / 2 ^ 24) \<le> 2 * real len / 2 ^ 24" by simp
  have u0: "0 < real u" using u by simp
  have "real u * \<bar>?y - ?x / real u\<bar> \<le> real u * (max 1 (?x / real u) / 2 ^ 24)" using e2 by (intro mult_left_mono) simp_all
  then have e2': "\<bar>real u * ?y - ?x\<bar> \<le> 2 * real len / 2 ^ 24" using m unfolding abs_scaled [OF u0] by linarith
  have "\<bar>real u * ?t - real u * (10 * ?y)\<bar> = real u * \<bar>?t - 10 * ?y\<bar>" using u0 by (simp add: abs_scaled)
  also have "\<dots> \<le> real u * (1 / 2)" using e3 by (intro mult_left_mono) simp_all
  finally have e3': "\<bar>real u * ?t - 10 * (real u * ?y)\<bar> \<le> real u / 2" by (simp add: mult.left_commute)
  have sum: "\<bar>10 * l - t\<bar> \<le> h + 10 * l / 2 ^ 22"
    if "\<bar>x - l\<bar> \<le> l / 2 ^ 24" and "\<bar>y - x\<bar> \<le> 2 * l / 2 ^ 24" and "\<bar>t - 10 * y\<bar> \<le> h" and "0 \<le> l" for x y l t h :: real
    using that unfolding abs_le_iff by simp
  show ?thesis by (rule sum [OF e1 e2' e3']) simp
qed

lemma remove_all_prefix: "pat \<noteq> [] \<Longrightarrow> remove_all pat (pat @ s) = remove_all pat s"
  by (cases pat) simp_all

lemma remove_all_absent: "(\<And>us vs. s \<noteq> us @ pat @ vs) \<Longrightarrow> remove_all pat s = s"
proof (induction pat s rule: remove_all.induct)
  case (2 pat c cs)
  have "take (length pat) (c # cs) \<noteq> pat" using "2.prems" [of "[]" "drop (length pat) (c # cs)"]
    by (metis append_take_drop_id append_Nil)
  moreover have "cs \<noteq> us @ pat @ vs" for us vs using "2.prems" [of "c # us" vs] by simp
  ultimately show ?case using 2 by simp
qed simp

lemma path_parent_join:
  assumes "is_sep p sep" and "x \<noteq> []" and "\<not> is_sep p (last x)" and "\<And>c. c \<in> set name \<Longrightarrow> \<not> is_sep p c" and "name \<noteq> []"
  shows "path_parent p (x @ sep # name) = Some x"
proof -
  have "dropWhile (\<lambda>c. \<not> is_sep p c) (rev name @ sep # rev x) = sep # rev x"
    using assms(1,4) by (simp add: dropWhile_append3)
  moreover have "dropWhile (is_sep p) (sep # rev x) = rev x"
    using assms(1-3) by (cases "rev x") (auto simp: last_rev [symmetric] hd_rev)
  ultimately show ?thesis using assms(2,5) by (simp add: path_parent_def Let_def)
qed

section \<open>Properties\<close>

text \<open>Sizes for people. The number shown for a file of at least 1000 bytes is within half a tenth
  of its unit of the exact size, up to the rounding of two \<open>f32\<close> operations, one part in four million;
  below that the size is exact.\<close>

theorem shown_size_accurate:
  "(len < 1000 \<longrightarrow> format_size_bytes len = show_nat len @ ''b'') \<and>
   (1000 \<le> len \<longrightarrow> (\<exists>(u, suffix) \<in> {(1000, ''kb''), (1000000, ''mb''), (1000000000, ''gb'')}. u \<le> len \<and>
      (suffix = ''gb'' \<or> len < 1000 * u) \<and> format_size_bytes len = show_tenths (shown_tenths len u) @ suffix \<and>
      \<bar>10 * real len - real u * real (shown_tenths len u)\<bar> \<le> real u / 2 + 10 * real len / 2 ^ 22))"
proof -
  have e: "\<bar>10 * real len - real u * real (shown_tenths len u)\<bar> \<le> real u / 2 + 10 * real len / 2 ^ 22"
    if "u \<le> len" "0 < u" for u using shown_tenths_error [OF that(2,1)] .
  consider "len < 1000" | "1000 \<le> len" "len < 1000000" | "1000000 \<le> len" "len < 1000000000" | "1000000000 \<le> len"
    by linarith
  then show ?thesis
  proof cases
    case 1
    then show ?thesis by (simp add: format_size_bytes_def)
  next
    case 2
    with e [of 1000] show ?thesis by (simp add: format_size_bytes_def)
  next
    case 3
    with e [of 1000000] show ?thesis by (simp add: format_size_bytes_def)
  next
    case 4
    with e [of 1000000000] show ?thesis by (simp add: format_size_bytes_def)
  qed
qed

text \<open>The unit is chosen before the rounding.\<close>

lemma size_below_a_megabyte: "format_size_bytes 999950 = ''1000.0kb'' \<and> format_size_bytes 999949 = ''999.9kb''"
  by (simp add: size_defs)

text \<open>The function named in an error is the one that failed, without its module, when the module's path
  does not occur in it again.\<close>

lemma location_function_names:
  assumes "m \<noteq> []" and "g \<noteq> []" and "\<And>us vs. ''::'' @ g \<noteq> us @ m @ vs"
  shows "location_function m (m @ ''::'' @ g @ ''::f'') = Some g"
proof -
  have "strip_suffix ''::f'' (m @ ''::'' @ g @ ''::f'') = Some (m @ ''::'' @ g)"
    by (simp add: strip_suffix_def)
  moreover have "remove_all m (m @ ''::'' @ g) = ''::'' @ g"
    using remove_all_prefix [OF assms(1)] remove_all_absent [OF assms(3)] by metis
  moreover have "2 < length (''::'' @ g)" using assms(2) by simp
  ultimately show ?thesis by (simp add: location_function_def)
qed

text \<open>The default key file stands in the directory of the default configuration.\<close>

lemma default_keyfile_beside_config:
  "\<exists>dir. default_config_path e = path_join (ae_platform e) dir ''weverywhere.toml'' \<and>
     default_identity_keyfile e = path_join (ae_platform e) dir ''identity.pem''"
proof -
  have sep: "is_sep Windows (CHR 0x5C)" "\<not> is_sep Windows CHR ''w''" by (simp_all add: is_sep_def)
  have join: "path_join Windows d (c # cs) = append_component Windows d (c # cs)"
    if "path_drive (c # cs) = []" "\<not> is_sep Windows c" for d c cs
    using that by (simp add: path_join_def)
  show ?thesis
  proof (cases "ae_platform e = Windows")
    case True
    let ?base = "case ae_program_data e of Some base \<Rightarrow> base | None \<Rightarrow> ''C:'' @ [CHR 0x5C] @ ''ProgramData''"
    let ?dir = "path_join Windows ?base ''weverywhere''"
    have d: "?dir = append_component Windows ?base ''weverywhere''"
      by (rule join) (simp_all add: path_drive_def is_sep_def)
    have last: "?dir \<noteq> []" "last ?dir = CHR ''e''" "?dir \<noteq> path_drive ?dir"
      unfolding d append_component_def by (auto simp: path_drive_def split: list.splits)
    have cfg: "default_config_path e = ?dir @ CHR 0x5C # ''weverywhere.toml''"
      unfolding default_config_path_def True platform.case
      using last by (subst join) (auto simp: append_component_def is_sep_def path_drive_def)
    have "path_parent Windows (default_config_path e) = Some ?dir"
      unfolding cfg by (rule path_parent_join) (use last in \<open>auto simp: is_sep_def\<close>)
    then have "default_identity_keyfile e = path_join Windows ?dir ''identity.pem''"
      by (simp add: default_identity_keyfile_def True)
    then show ?thesis unfolding True by (intro exI [of _ ?dir]) (simp add: default_config_path_def True)
  next
    case False
    have "path_parent p ''/etc/weverywhere.toml'' = Some ''/etc''"
      "path_parent p ''/Library/Application Support/weverywhere/weverywhere.toml'' = Some ''/Library/Application Support/weverywhere''"
      if "p \<noteq> Windows" for p
      using that by (simp_all add: path_parent_def is_sep_def)
    note parents = this
    show ?thesis
    proof (cases "ae_platform e = MacOs")
      case True
      then show ?thesis using parents(2) [OF False]
        by (intro exI [of _ "''/Library/Application Support/weverywhere''"])
          (simp add: default_identity_keyfile_def default_config_path_def path_join_def append_component_def is_sep_def)
    next
      case mac: False
      then have "default_config_path e = ''/etc/weverywhere.toml''"
        using False by (simp add: default_config_path_def split: platform.split)
      then show ?thesis using parents(1) [OF False] False
        by (intro exI [of _ "''/etc''"])
          (simp add: default_identity_keyfile_def path_join_def append_component_def is_sep_def)
    qed
  qed
qed

text \<open>How the process ends: with code 0 exactly when the command succeeded, 1 when it failed, 101 when the
  runtime could not be built, and then nothing was done. The log of a command that owns the terminal does
  not go there.\<close>

lemma program_main_end:
  "oc_exit_code (program_main can_open rt e a input) =
     (if \<not> rt then 101 else if ef_ok (async_main e a input) then 0 else 1) \<and>
   (oc_effects (program_main can_open rt e a input) = None \<longleftrightarrow> \<not> rt) \<and>
   (owns_terminal (ar_command a) \<longrightarrow> oc_log (program_main can_open rt e a input) \<noteq> Stderr) \<and>
   (global_v_is_debug (oc_verbosity (program_main can_open rt e a input)) \<longleftrightarrow> v_is_debug a)"
  using log_destination_terminal [of can_open a]
  by (auto simp: program_main_def Let_def main_exit_code_def global_v_is_debug_def get_global_verbosity_def v_is_debug_def)

theorem shown_size_accurate_witness:
  "\<bar>10 * real 123456 - 1000 * real (shown_tenths 123456 1000)\<bar> \<le> 501 \<and> format_size_bytes 123456 = ''123.5kb''"
proof -
  have f: "format_size_bytes 123456 = ''123.5kb''" by (simp add: size_defs)
  have "\<exists>(u, suffix) \<in> {(1000, ''kb''), (1000000, ''mb''), (1000000000, ''gb'')}. u \<le> 123456 \<and>
      (suffix = ''gb'' \<or> 123456 < 1000 * u) \<and> format_size_bytes 123456 = show_tenths (shown_tenths 123456 u) @ suffix \<and>
      \<bar>10 * real 123456 - real u * real (shown_tenths 123456 u)\<bar> \<le> real u / 2 + 10 * real 123456 / 2 ^ 22"
    using shown_size_accurate [of 123456] by simp
  then show ?thesis using f by auto
qed

end
