(* ===== verification/Conformance.thy ===== *)
theory Conformance
  imports Tty Discovery Message_Store Crypto_Utils Config
begin

text \<open>
  The repository's own unit tests (\<open>src/tests\<close>), as far as they run no library code with secret
  randomness or files: each assertion is evaluated in the model. They do not verify the program;
  they show that the definitions say what its authors expect of the code.
\<close>

section \<open>tests/discovery.rs\<close>

lemma trusted_chain_rides_full_depth:
  "initial_depth_budget True = 8"
  "map (\<lambda>d. child_depth_budget d True) [8, 7, 6, 5, 4, 3, 2, 1] = [7, 6, 5, 4, 3, 2, 1, 0]"
  by (simp_all add: initial_depth_budget_def child_depth_budget_def depth_defs)

lemma untrusted_first_hop_only_two:
  "initial_depth_budget False = 2" "child_depth_budget 2 False = 1" "child_depth_budget 1 False = 0"
  by (simp_all add: initial_depth_budget_def child_depth_budget_def depth_defs)

lemma trusted_to_untrusted_collapses_to_two: "child_depth_budget (initial_depth_budget True) False = 2"
  by (simp add: initial_depth_budget_def child_depth_budget_def depth_defs)

lemma remaining_beats_trust_cap_when_smaller: "child_depth_budget 2 True = 1" "child_depth_budget 0 True = 0"
  by (simp_all add: child_depth_budget_def depth_defs)

lemma attestation_window:
  "attestation_time_ok 1760000000 1760000030" "attestation_time_ok 1760000000 1759999970"
  "\<not> attestation_time_ok 1760000000 1760000031"
  by (simp_all add: attestation_time_ok_def ATTESTATION_WINDOW_HALF_S_def)

section \<open>tests/executor.rs\<close>

lemmas store_defs = ms_new_def ms_push_def ms_remember_def ms_append_def ms_read_after_def dedup_key_def Let_def

lemma message_store_assigns_monotonic_seqs_and_filters_by_after:
  assumes "ms_push ''alice'' [1, 2, 3] (as_bytes ''id1'') (as_bytes ''hello'') 100 (ms_new 16) = (s1, seq1)"
    and "ms_push ''bob'' [4, 5, 6] (as_bytes ''id2'') (as_bytes ''hi'') 101 s1 = (s2, seq2)"
  shows "(seq1, seq2) = (1, 2)" "length (ms_read_after 0 s2) = 2" "map sm_from_name (ms_read_after 1 s2) = [''bob'']"
    "ms_read_after 2 s2 = []"
  using assms by (auto simp: store_defs as_bytes_def)

lemma message_store_dedups_repeat_deliveries_by_pubkey_and_id:
  fixes alice bob :: bytes
  assumes "alice = replicate 32 0xAA" and "bob = replicate 32 0xBB"
  shows "snd (ms_run
     [\<lparr>pr_name = ''alice'', pr_pubkey = alice, pr_id = [0x6E, 0x31], pr_text = [0x68, 0x69], pr_epoch = 1\<rparr>,
      \<lparr>pr_name = ''alice'', pr_pubkey = alice, pr_id = [0x6E, 0x31], pr_text = [0x68, 0x69], pr_epoch = 1\<rparr>,
      \<lparr>pr_name = ''alice'', pr_pubkey = alice, pr_id = [0x6E, 0x31], pr_text = [0x68, 0x69], pr_epoch = 1\<rparr>,
      \<lparr>pr_name = ''bob'', pr_pubkey = bob, pr_id = [0x6E, 0x31], pr_text = [0x68, 0x69], pr_epoch = 1\<rparr>,
      \<lparr>pr_name = ''alice'', pr_pubkey = alice, pr_id = [0x6E, 0x32], pr_text = [0x68, 0x69], pr_epoch = 1\<rparr>,
      \<lparr>pr_name = ''sys'', pr_pubkey = [], pr_id = [], pr_text = [0x78], pr_epoch = 1\<rparr>,
      \<lparr>pr_name = ''sys'', pr_pubkey = [], pr_id = [], pr_text = [0x78], pr_epoch = 1\<rparr>] (ms_new 16)) = [1, 0, 0, 2, 3, 4, 5]"
  using assms by (simp add: store_defs ms_push_req_def)

lemma message_store_evicts_oldest_past_capacity:
  "map (\<lambda>m. (sm_seq m, sm_text m)) (ms_read_after 0 (fst (ms_run (map (\<lambda>i. \<lparr>pr_name = ''x'', pr_pubkey = [], pr_id = [],
      pr_text = [ucast i], pr_epoch = i\<rparr>) [0, 1, 2, 3, 4]) (ms_new 3)))) = [(3, [2]), (4, [3]), (5, [4])]"
  by (simp add: store_defs ms_push_req_def)

section \<open>tests/crypto_utils.rs\<close>

lemma short_id_is_first_four_bytes_hex_matching_chat:
  "short_id [0x39, 0xAD, 0x41, 0x76, 0xDE, 0xAD, 0xBE, 0xEF] = ''39ad4176''"
  "to_hex [0x39, 0xAD, 0x41, 0x76, 0xDE, 0xAD, 0xBE, 0xEF] = ''39ad4176deadbeef''"
  "short_id [0x39, 0xAD] = ''39ad''" "short_id [] = []"
  by (simp_all add: short_id_def to_hex_def hex2_def hex_digit_def)

section \<open>tests/tty.rs\<close>

lemma le16_eq: "le16 x = [ucast x, ucast (drop_bit 8 x)]"
proof -
  have "[0..<2] = [0, 1 :: nat]" by (simp add: upt_rec)
  then show ?thesis by (simp add: le_bytes_def)
qed

lemma encodes_char_events_as_utf8: "encode_event (Char 0x61) = [1, 0x61]" "encode_event (Char 0xE9) = [1, 0xC3, 0xA9]"
  by (simp_all add: encode_utf8_def event_kind)

lemma encodes_named_and_resize_events:
  "encode_event (Resize 80 24) = [RESIZE_TAG, 80, 0, 24, 0]" "encode_event (Resize 258 1) = [RESIZE_TAG, 2, 1, 1, 0]"
  by (simp_all add: le16_eq)

section \<open>tests/config.rs\<close>

lemma segments_upt: "[0..<8] = [0, 1, 2, 3, 4, 5, 6, 7 :: nat]"
  by (simp add: upt_rec)

lemmas address_text = show_ipv6_def segments_def segments_upt longest_run_def show_ipv4_def show_nat_def show_base.simps
  digit_char_def

lemma parses_all_forms_and_prefers_hostname_then_v6_then_v4:
  "connect_hosts \<lparr>pm_hostname = Some ''node1.example'', pm_ipv6 = Some 0xFE800000000000000000000000000001,
     pm_ipv4 = Some 0x0A000001, pm_expected_key = Some ''ssh-ed25519 AAAAKEY''\<rparr> = [''node1.example'', ''fe80::1'', ''10.0.0.1'']"
  by (simp add: connect_hosts_def option_list_def address_text)

lemma ipv6_preferred_over_ipv4_when_no_hostname:
  "connect_hosts \<lparr>pm_hostname = None, pm_ipv6 = Some 0x20010DB8000000000000000000000005,
     pm_ipv4 = Some 0xC0000207, pm_expected_key = None\<rparr> = [''2001:db8::5'', ''192.0.2.7'']"
  by (simp add: connect_hosts_def option_list_def address_text)

lemma requires_at_least_one_address_form:
  "peer_try_from \<lparr>pm_hostname = None, pm_ipv6 = None, pm_ipv4 = None, pm_expected_key = Some ''k''\<rparr> = Inl NoAddress"
  "peer_try_from \<lparr>pm_hostname = Some ''   '', pm_ipv6 = None, pm_ipv4 = None, pm_expected_key = None\<rparr> = Inl NoAddress"
  by code_simp+

lemma pinned_toml:
  "to_pinned_toml ''ssh-ed25519 AAAAOBSERVED'' \<lparr>pm_hostname = Some ''node1'', pm_ipv6 = None, pm_ipv4 = Some 0x0A000009,
     pm_expected_key = None\<rparr> =
   ''[[peer]]'' @ [CHR 0x0A] @ ''hostname = '' @ [CHR 0x22] @ ''node1'' @ [CHR 0x22, CHR 0x0A] @
   ''ipv4 = '' @ [CHR 0x22] @ ''10.0.0.9'' @ [CHR 0x22, CHR 0x0A] @
   ''expected_key = { key = '' @ [CHR 0x22] @ ''ssh-ed25519 AAAAOBSERVED'' @ [CHR 0x22] @ '' }'' @ [CHR 0x0A]"
  by code_simp

end
